(* ===== verification/Tor_Prelude.thy ===== *)
theory Tor_Prelude
  imports Main "HOL-Library.Word" "HOL-Library.AList"
begin

text \<open>
  Prelude of the development: the machine types of the Rust sources, slices of byte
  buffers, big-endian integers, the hash map as an association list with distinct keys,
  decimal and hexadecimal text of unsigned integers as the standard library reads and
  writes it. The lemmas the components share go into the collections \<open>slice_simps\<close>
  (buffers), \<open>hm_simps\<close> (hash maps) and \<open>handler_defs\<close> (definitions a handler proof
  unfolds).
\<close>

unbundle bit_operations_syntax

named_theorems slice_simps "ranges of byte buffers"
named_theorems hm_simps "hash maps as association lists"
named_theorems handler_defs "definitions a handler proof unfolds"

section \<open>Machine types\<close>

type_synonym byte = "8 word"
type_synonym u16 = "16 word"
type_synonym u32 = "32 word"
type_synonym u64 = "64 word"
type_synonym bytes = "byte list"

text \<open>The error-first result of a fallible operation: \<open>Inl\<close> is Rust's \<open>Err\<close>.\<close>

definition is_ok :: "'e + 'a \<Rightarrow> bool" where
  "is_ok r = (case r of Inl _ \<Rightarrow> False | Inr _ \<Rightarrow> True)"

lemma is_ok_simps [simp]: "is_ok (Inr x)" "\<not> is_ok (Inl e)"
  by (simp_all add: is_ok_def)

text \<open>\<open>iter().map(f).collect::<Result<Vec<_>, _>>()\<close>: the first error wins.\<close>

fun collect_results :: "('a \<Rightarrow> 'e + 'b) \<Rightarrow> 'a list \<Rightarrow> 'e + 'b list" where
  "collect_results f [] = Inr []"
| "collect_results f (x # xs) =
     (case f x of Inl e \<Rightarrow> Inl e
      | Inr y \<Rightarrow> (case collect_results f xs of Inl e \<Rightarrow> Inl e | Inr ys \<Rightarrow> Inr (y # ys)))"

lemma collect_results_ok: "(\<And>x. x \<in> set xs \<Longrightarrow> f x = Inr (g x)) \<Longrightarrow> collect_results f xs = Inr (map g xs)"
  by (induction xs) auto

lemma collect_results_Inr:
  "collect_results f xs = Inr ys \<Longrightarrow> length ys = length xs \<and> (\<forall>i < length xs. f (xs ! i) = Inr (ys ! i))"
  by (induction xs arbitrary: ys) (auto simp: less_Suc_eq_0_disj split: sum.splits)

lemma collect_results_Inl: "collect_results f xs = Inl e \<Longrightarrow> \<exists>x \<in> set xs. f x = Inl e"
  by (induction xs) (auto split: sum.splits)

section \<open>Ranges of buffers\<close>

text \<open>\<open>buf.get(a..b)\<close>: the range, or \<open>None\<close> when it leaves the buffer.\<close>

definition get_range :: "'a list \<Rightarrow> nat \<Rightarrow> nat \<Rightarrow> 'a list option" where
  "get_range xs a b = (if a \<le> b \<and> b \<le> length xs then Some (take (b - a) (drop a xs)) else None)"

text \<open>\<open>buf.get(i)\<close>.\<close>

definition get_at :: "'a list \<Rightarrow> nat \<Rightarrow> 'a option" where
  "get_at xs i = (if i < length xs then Some (xs ! i) else None)"

text \<open>
  \<open>if let Some(s) = buf.get_mut(a..b) { s.copy_from_slice(ys) }\<close>; the sources always pass
  \<open>ys\<close> of length \<open>b - a\<close> (\<open>copy_from_slice\<close> panics otherwise).
\<close>

definition put_range :: "'a list \<Rightarrow> nat \<Rightarrow> 'a list \<Rightarrow> 'a list" where
  "put_range xs a ys =
     (if a + length ys \<le> length xs then take a xs @ ys @ drop (a + length ys) xs else xs)"

lemma length_put_range [simp, slice_simps]: "length (put_range xs a ys) = length xs"
  by (simp add: put_range_def)

lemma get_range_Some [slice_simps]:
  "get_range xs a b = Some ys \<longleftrightarrow> a \<le> b \<and> b \<le> length xs \<and> ys = take (b - a) (drop a xs)"
  by (auto simp: get_range_def)

lemma length_get_range: "get_range xs a b = Some ys \<Longrightarrow> length ys = b - a"
  by (auto simp: get_range_def split: if_splits)

lemma get_range_append [slice_simps]:
  "length xs = a \<Longrightarrow> b = a + length ys \<Longrightarrow> get_range (xs @ ys @ zs) a b = Some ys"
  by (simp add: get_range_def)

text \<open>Writing the next field of a buffer whose first \<open>a\<close> bytes are already laid out.\<close>

lemma put_range_append [slice_simps]:
  "length xs = a \<Longrightarrow> length ys \<le> length zs \<Longrightarrow>
   put_range (xs @ zs) a ys = (xs @ ys) @ drop (length ys) zs"
  by (simp add: put_range_def)

section \<open>Big-endian integers\<close>

lemma unat_bounds: "unat (b :: byte) < 256" "unat (w :: u16) < 65536" "unat (v :: u32) < 4294967296"
  using unsigned_less [where 'a = nat, of b] unsigned_less [where 'a = nat, of w]
    unsigned_less [where 'a = nat, of v]
  by simp_all

definition be16 :: "u16 \<Rightarrow> bytes" where
  "be16 w = [ucast (drop_bit 8 w), ucast w]"

definition of_be16 :: "bytes \<Rightarrow> u16" where
  "of_be16 bs = word_cat (bs ! 0) (bs ! 1)"

definition be32 :: "u32 \<Rightarrow> bytes" where
  "be32 w = [ucast (drop_bit 24 w), ucast (drop_bit 16 w), ucast (drop_bit 8 w), ucast w]"

definition of_be32 :: "bytes \<Rightarrow> u32" where
  "of_be32 bs = word_cat (word_cat (bs ! 0) (bs ! 1) :: u16) (word_cat (bs ! 2) (bs ! 3) :: u16)"

lemma length_be [simp]: "length (be16 w) = 2" "length (be32 v) = 4"
  by (simp_all add: be16_def be32_def)

lemma of_be16_be16 [simp]: "of_be16 (be16 w) = w"
  by (rule bit_word_eqI)
    (auto simp: of_be16_def be16_def bit_word_cat_iff bit_ucast_iff bit_drop_bit_eq)

lemma of_be32_be32 [simp]: "of_be32 (be32 w) = w"
  by (rule bit_word_eqI)
    (auto simp: of_be32_def be32_def bit_word_cat_iff bit_ucast_iff bit_drop_bit_eq)

lemma of_be32_iff: "length bs = 4 \<Longrightarrow> of_be32 bs = w \<longleftrightarrow> bs = be32 w"
proof -
  assume "length bs = 4"
  then obtain a b c d where bs: "bs = [a, b, c, d]"
    by (auto simp: length_Suc_conv eval_nat_numeral)
  have "be32 (of_be32 [a, b, c, d]) = [a, b, c, d]"
    by (simp add: be32_def of_be32_def)
      (auto intro!: bit_word_eqI simp: bit_word_cat_iff bit_ucast_iff bit_drop_bit_eq)
  then show ?thesis unfolding bs by (metis of_be32_be32)
qed

lemma be16_inject [simp]: "be16 a = be16 b \<longleftrightarrow> a = b"
  by (metis of_be16_be16)

section \<open>Hash maps\<close>

text \<open>
  A \<open>HashMap\<close> is an association list with distinct keys; its order stands for the
  unspecified iteration order of the map, so a theorem about every such list holds for
  every iteration order.
\<close>

type_synonym ('k, 'v) hmap = "('k \<times> 'v) list"

definition hm_wf :: "('k, 'v) hmap \<Rightarrow> bool" where
  "hm_wf m = distinct (map fst m)"

definition hm_get :: "('k, 'v) hmap \<Rightarrow> 'k \<Rightarrow> 'v option" where
  "hm_get m = map_of m"

definition hm_insert :: "'k \<Rightarrow> 'v \<Rightarrow> ('k, 'v) hmap \<Rightarrow> ('k, 'v) hmap" where
  "hm_insert = AList.update"

definition hm_remove :: "'k \<Rightarrow> ('k, 'v) hmap \<Rightarrow> ('k, 'v) hmap" where
  "hm_remove = AList.delete"

text \<open>\<open>m.retain(|k, v| p(k, v))\<close>.\<close>

definition hm_retain :: "('k \<Rightarrow> 'v \<Rightarrow> bool) \<Rightarrow> ('k, 'v) hmap \<Rightarrow> ('k, 'v) hmap" where
  "hm_retain p m = filter (\<lambda>(k, v). p k v) m"

text \<open>\<open>m.values()\<close> and \<open>m.keys()\<close>, in iteration order.\<close>

definition hm_values :: "('k, 'v) hmap \<Rightarrow> 'v list" where
  "hm_values m = map snd m"

definition hm_contains :: "('k, 'v) hmap \<Rightarrow> 'k \<Rightarrow> bool" where
  "hm_contains m k = (hm_get m k \<noteq> None)"

lemma hm_wf_Nil [simp]: "hm_wf []"
  by (simp add: hm_wf_def)

lemma hm_wf_insert [simp, hm_simps]: "hm_wf m \<Longrightarrow> hm_wf (hm_insert k v m)"
  by (simp add: hm_wf_def hm_insert_def distinct_update)

lemma hm_wf_remove [simp, hm_simps]: "hm_wf m \<Longrightarrow> hm_wf (hm_remove k m)"
  by (simp add: hm_wf_def hm_remove_def delete_keys distinct_removeAll)

lemma hm_wf_retain [simp, hm_simps]: "hm_wf m \<Longrightarrow> hm_wf (hm_retain p m)"
  by (induction m) (auto simp: hm_wf_def hm_retain_def)

lemma hm_get_Nil [simp]: "hm_get [] k = None"
  by (simp add: hm_get_def)

lemma hm_get_insert [simp, hm_simps]: "hm_get (hm_insert k v m) j = (if j = k then Some v else hm_get m j)"
  by (simp add: hm_get_def hm_insert_def update_conv')

lemma hm_get_remove [simp, hm_simps]: "hm_get (hm_remove k m) j = (if j = k then None else hm_get m j)"
  by (simp add: hm_get_def hm_remove_def delete_conv')

lemma hm_get_in_set [hm_simps]: "hm_wf m \<Longrightarrow> hm_get m k = Some v \<longleftrightarrow> (k, v) \<in> set m"
  by (simp add: hm_wf_def hm_get_def)

lemma hm_get_retain [hm_simps]:
  assumes "hm_wf m"
  shows "hm_get (hm_retain p m) k =
    (case hm_get m k of None \<Rightarrow> None | Some v \<Rightarrow> if p k v then Some v else None)"
proof (cases "hm_get (hm_retain p m) k")
  case (Some v)
  then have "(k, v) \<in> set m" "p k v"
    using hm_wf_retain [OF assms, of p] by (auto simp: hm_get_in_set) (auto simp: hm_retain_def)
  with Some assms show ?thesis by (auto simp: hm_get_in_set [symmetric])
next
  case None
  have "\<not> p k v" if "hm_get m k = Some v" for v
  proof
    assume "p k v"
    with that assms have "(k, v) \<in> set (hm_retain p m)"
      by (auto simp: hm_get_in_set hm_retain_def)
    with assms have "hm_get (hm_retain p m) k = Some v" by (simp add: hm_get_in_set)
    with None show False by simp
  qed
  with None show ?thesis by (auto split: option.splits)
qed

lemma hm_values_iff: "hm_wf m \<Longrightarrow> v \<in> set (hm_values m) \<longleftrightarrow> (\<exists>k. hm_get m k = Some v)"
  by (force simp: hm_values_def hm_get_in_set)

text \<open>Abstract maps: what a client of a hash map may rely on.\<close>

locale map_spec =
  fixes lookup :: "'m \<Rightarrow> 'k \<Rightarrow> 'v option"
    and insert :: "'k \<Rightarrow> 'v \<Rightarrow> 'm \<Rightarrow> 'm"
    and remove :: "'k \<Rightarrow> 'm \<Rightarrow> 'm"
    and invar :: "'m \<Rightarrow> bool"
  assumes lookup_insert: "lookup (insert k v m) j = (if j = k then Some v else lookup m j)"
    and lookup_remove: "lookup (remove k m) j = (if j = k then None else lookup m j)"
    and invar_insert: "invar m \<Longrightarrow> invar (insert k v m)"
    and invar_remove: "invar m \<Longrightarrow> invar (remove k m)"
begin

lemma remove_insert_same: "lookup (remove k (insert k v m)) = lookup (remove k m)"
  by (auto simp: lookup_insert lookup_remove)

lemma insert_remove_frame: "j \<noteq> k \<Longrightarrow> lookup (remove k (insert k v m)) j = lookup m j"
  by (simp add: lookup_insert lookup_remove)

lemma invar_replace: "invar m \<Longrightarrow> invar (insert j v (remove k m))"
  by (simp add: invar_insert invar_remove)

end

interpretation hm: map_spec "hm_get" "hm_insert" "hm_remove" "hm_wf"
  by unfold_locales auto

section \<open>Text of unsigned integers\<close>

definition ascii_lower :: "char \<Rightarrow> char" where
  "ascii_lower c = (let n = (of_char c :: nat) in if 65 \<le> n \<and> n \<le> 90 then char_of (n + 32) else c)"

text \<open>\<open>str::to_lowercase\<close> restricted to ASCII, \<open>make_ascii_lowercase\<close>.\<close>

definition to_lower :: "string \<Rightarrow> string" where
  "to_lower s = map ascii_lower s"

text \<open>\<open>char::to_digit(radix)\<close> for radix up to 36.\<close>

definition to_digit :: "nat \<Rightarrow> char \<Rightarrow> nat option" where
  "to_digit radix c =
     (let n = (of_char c :: nat);
          d = (if 48 \<le> n \<and> n \<le> 57 then n - 48
               else if 97 \<le> n \<and> n \<le> 122 then n - 87
               else if 65 \<le> n \<and> n \<le> 90 then n - 55
               else radix)
      in if d < radix then Some d else None)"

text \<open>The digit loop of \<open>from_str_radix\<close>: \<open>checked_mul\<close>, \<open>checked_add\<close> against \<open>max\<close>.\<close>

fun parse_digits :: "nat \<Rightarrow> nat \<Rightarrow> nat \<Rightarrow> string \<Rightarrow> nat option" where
  "parse_digits radix mx acc [] = Some acc"
| "parse_digits radix mx acc (c # cs) =
     (case to_digit radix c of
        None \<Rightarrow> None
      | Some d \<Rightarrow> (if acc * radix + d \<le> mx then parse_digits radix mx (acc * radix + d) cs else None))"

text \<open>
  \<open>uN::from_str_radix\<close>: the empty string and a lone sign are errors, one leading \<open>+\<close>
  is skipped, everything else must be digits and fit \<open>mx\<close>.
\<close>

definition from_str_radix :: "nat \<Rightarrow> nat \<Rightarrow> string \<Rightarrow> nat option" where
  "from_str_radix radix mx s =
     (if s = '''' \<or> s = ''+'' \<or> s = ''-'' then None
      else if hd s = CHR ''+'' then parse_digits radix mx 0 (tl s)
      else parse_digits radix mx 0 s)"

definition digit_char :: "nat \<Rightarrow> char" where
  "digit_char d = (if d < 10 then char_of (48 + d) else char_of (87 + d))"

fun show_nat :: "nat \<Rightarrow> string" where
  "show_nat n = (if n < 10 then [digit_char n] else show_nat (n div 10) @ [digit_char (n mod 10)])"

declare show_nat.simps [simp del]

lemma to_digit_digit_char: "d < radix \<Longrightarrow> radix \<le> 36 \<Longrightarrow> to_digit radix (digit_char d) = Some d"
  by (simp add: to_digit_def digit_char_def Let_def)

lemma parse_digits_le: "parse_digits radix mx acc s = Some n \<Longrightarrow> acc \<le> mx \<Longrightarrow> n \<le> mx"
  by (induction s arbitrary: acc) (auto split: option.splits if_splits)

lemma parse_digits_append:
  "parse_digits radix mx acc (s @ t) =
     (case parse_digits radix mx acc s of None \<Rightarrow> None | Some n \<Rightarrow> parse_digits radix mx n t)"
  by (induction s arbitrary: acc) (auto split: option.splits)

lemma show_nat_nonempty [simp]: "show_nat n \<noteq> []"
  by (subst show_nat.simps) simp

lemma show_nat_digits: "c \<in> set (show_nat n) \<Longrightarrow> \<exists>d < 10. c = digit_char d"
proof (induction n rule: show_nat.induct)
  case (1 n)
  then have c: "c \<in> set (if n < 10 then [digit_char n] else show_nat (n div 10) @ [digit_char (n mod 10)])"
    by (simp only: show_nat.simps [of n])
  have "\<exists>d < 10. digit_char (n mod 10) = digit_char d"
    by (rule exI [of _ "n mod 10"]) simp
  with c 1 show ?case by (auto split: if_splits)
qed

lemma parse_show_nat: "n \<le> mx \<Longrightarrow> parse_digits 10 mx 0 (show_nat n) = Some n"
proof (induction n rule: show_nat.induct)
  case (1 n)
  show ?case
  proof (cases "n < 10")
    case True
    with 1 show ?thesis by (subst show_nat.simps) (simp add: to_digit_digit_char)
  next
    case False
    with 1 have "parse_digits 10 mx 0 (show_nat (n div 10)) = Some (n div 10)" by simp
    with False 1 show ?thesis
      by (subst show_nat.simps) (simp add: parse_digits_append to_digit_digit_char)
  qed
qed

lemma digit_char_code: "d < 10 \<Longrightarrow> (of_char (digit_char d) :: nat) = 48 + d"
  by (simp add: digit_char_def)

lemma hd_show_nat: "\<exists>d < 10. hd (show_nat n) = digit_char d"
  using show_nat_digits [of "hd (show_nat n)" n] by simp

lemma from_str_show_nat: "n \<le> mx \<Longrightarrow> from_str_radix 10 mx (show_nat n) = Some n"
proof -
  assume n: "n \<le> mx"
  obtain d where d: "d < 10" "hd (show_nat n) = digit_char d" using hd_show_nat by blast
  have "(of_char (hd (show_nat n)) :: nat) \<ge> 48" using d by (simp add: digit_char_code)
  then have "hd (show_nat n) \<noteq> CHR ''+''" "hd (show_nat n) \<noteq> CHR ''-''"
    by auto
  then have "show_nat n \<noteq> ''+''" "show_nat n \<noteq> ''-''" "hd (show_nat n) \<noteq> CHR ''+''"
    by auto
  with n show ?thesis by (simp add: from_str_radix_def parse_show_nat)
qed

lemma from_str_radix_le: "from_str_radix radix mx s = Some n \<Longrightarrow> n \<le> mx"
  by (auto simp: from_str_radix_def split: if_splits dest: parse_digits_le)

section \<open>Chunks of a slice\<close>

text \<open>\<open>slice.chunks(n)\<close>.\<close>

function chunks :: "nat \<Rightarrow> 'a list \<Rightarrow> 'a list list" where
  "chunks n xs = (if n = 0 \<or> xs = [] then [] else take n xs # chunks n (drop n xs))"
  by auto
termination by (relation "measure (\<lambda>(n, xs). length xs)") auto

declare chunks.simps [simp del]

lemma chunks_concat: "0 < n \<Longrightarrow> concat (chunks n xs) = xs"
proof (induction n xs rule: chunks.induct)
  case (1 n xs)
  then show ?case by (subst chunks.simps) auto
qed

lemma chunks_bound: "ch \<in> set (chunks n xs) \<Longrightarrow> length ch \<le> n \<and> ch \<noteq> []"
proof (induction n xs rule: chunks.induct)
  case (1 n xs)
  then show ?case by (subst (asm) (2) chunks.simps) (auto split: if_splits)
qed

end
