(* ===== verification/Tor_Net.thy ===== *)
theory Tor_Net
  imports Tor_Prelude
begin

text \<open>
  IP addresses and socket addresses of \<open>std::net\<close> as the sources use them: equality,
  \<open>is_loopback\<close>, \<open>octets\<close>, \<open>to_string\<close> and \<open>parse\<close>. The parser follows the
  standard library's recursive descent (decimal octets without leading zeros, the
  \<open>::\<close> of IPv6, an embedded IPv4 tail, a \<open>%scope\<close> and a port).
\<close>

section \<open>Addresses\<close>

datatype ip_addr =
    V4 (v4_octets: bytes)      \<comment> \<open>four octets\<close>
  | V6 (v6_segments: "u16 list")  \<comment> \<open>eight segments\<close>

fun ip_wf :: "ip_addr \<Rightarrow> bool" where
  "ip_wf (V4 os) = (length os = 4)"
| "ip_wf (V6 ss) = (length ss = 8)"

fun is_loopback :: "ip_addr \<Rightarrow> bool" where
  "is_loopback (V4 os) = (hd os = 127)"
| "is_loopback (V6 ss) = (ss = [0, 0, 0, 0, 0, 0, 0, 1])"

text \<open>\<open>SocketAddr\<close>: equality takes the scope of an IPv6 address into account.\<close>

datatype socket_addr = SocketAddr (sa_ip: ip_addr) (sa_port: u16) (sa_scope: u32)

definition socket_wf :: "socket_addr \<Rightarrow> bool" where
  "socket_wf a = (ip_wf (sa_ip a) \<and> (\<forall>os. sa_ip a = V4 os \<longrightarrow> sa_scope a = 0))"

section \<open>Display\<close>

fun join_with :: "string \<Rightarrow> string list \<Rightarrow> string" where
  "join_with sep [] = ''''"
| "join_with sep [x] = x"
| "join_with sep (x # y # xs) = x @ sep @ join_with sep (y # xs)"

fun show_hex :: "nat \<Rightarrow> string" where
  "show_hex n = (if n < 16 then [digit_char n] else show_hex (n div 16) @ [digit_char (n mod 16)])"

declare show_hex.simps [simp del]

definition show_v4 :: "bytes \<Rightarrow> string" where
  "show_v4 os = join_with ''.'' (map (\<lambda>b. show_nat (unat b)) os)"

text \<open>The first longest run of zero segments, as (start, length).\<close>

fun zero_span :: "u16 list \<Rightarrow> nat \<Rightarrow> nat \<times> nat \<Rightarrow> nat \<times> nat \<Rightarrow> nat \<times> nat" where
  "zero_span [] i cur best = best"
| "zero_span (s # ss) i cur best =
     (if s = 0
      then let cur' = (if snd cur = 0 then (i, 1) else (fst cur, Suc (snd cur)));
               best' = (if snd best < snd cur' then cur' else best)
           in zero_span ss (Suc i) cur' best'
      else zero_span ss (Suc i) (0, 0) best)"

definition show_segs :: "u16 list \<Rightarrow> string" where
  "show_segs ss = join_with '':'' (map (\<lambda>s. show_hex (unat s)) ss)"

definition v4_of_segs :: "u16 list \<Rightarrow> bytes" where
  "v4_of_segs ss = concat (map be16 ss)"

definition show_v6 :: "u16 list \<Rightarrow> string" where
  "show_v6 ss =
     (if take 6 ss = [0, 0, 0, 0, 0, 0xFFFF]
      then ''::ffff:'' @ show_v4 (v4_of_segs (drop 6 ss))
      else let (st, len) = zero_span ss 0 (0, 0) (0, 0)
           in if 1 < len then show_segs (take st ss) @ ''::'' @ show_segs (drop (st + len) ss)
              else show_segs ss)"

fun show_ip :: "ip_addr \<Rightarrow> string" where
  "show_ip (V4 os) = show_v4 os"
| "show_ip (V6 ss) = show_v6 ss"

fun show_socket_addr :: "socket_addr \<Rightarrow> string" where
  "show_socket_addr (SocketAddr (V4 os) port scope) = show_v4 os @ '':'' @ show_nat (unat port)"
| "show_socket_addr (SocketAddr (V6 ss) port scope) =
     ''['' @ show_v6 ss @ (if scope = 0 then '''' else ''%'' @ show_nat (unat scope)) @ '']:''
      @ show_nat (unat port)"

section \<open>Parsing\<close>

type_synonym 'a parser = "string \<Rightarrow> ('a \<times> string) option"

definition read_char :: "char \<Rightarrow> unit parser" where
  "read_char c s = (case s of [] \<Rightarrow> None | x # xs \<Rightarrow> if x = c then Some ((), xs) else None)"

fun span_digits :: "nat \<Rightarrow> string \<Rightarrow> nat list \<times> string" where
  "span_digits radix [] = ([], [])"
| "span_digits radix (c # cs) =
     (case to_digit radix c of
        None \<Rightarrow> ([], c # cs)
      | Some d \<Rightarrow> (let (ds, r) = span_digits radix cs in (d # ds, r)))"

definition digits_value :: "nat \<Rightarrow> nat list \<Rightarrow> nat" where
  "digits_value radix ds = foldl (\<lambda>acc d. acc * radix + d) 0 ds"

text \<open>
  \<open>read_number(radix, max_digits, allow_zero_prefix)\<close>. With \<open>max_digits\<close> too many
  digits fail; without it the value is computed with checked arithmetic, so a value
  above \<open>mx\<close> fails either way.
\<close>

definition read_number :: "nat \<Rightarrow> nat option \<Rightarrow> bool \<Rightarrow> nat \<Rightarrow> nat parser" where
  "read_number radix max_digits allow_zero_prefix mx s =
     (let (ds, r) = span_digits radix s in
      if ds = [] then None
      else if (case max_digits of None \<Rightarrow> False | Some k \<Rightarrow> k < length ds) then None
      else if \<not> allow_zero_prefix \<and> hd ds = 0 \<and> 1 < length ds then None
      else if mx < digits_value radix ds then None
      else Some (digits_value radix ds, r))"

definition read_octet :: "byte parser" where
  "read_octet s = (case read_number 10 (Some 3) False 255 s of
     None \<Rightarrow> None | Some (n, r) \<Rightarrow> Some (word_of_nat n, r))"

text \<open>\<open>read_separator(sep, index, inner)\<close>: the separator stands before every item but the first.\<close>

definition read_sep :: "char \<Rightarrow> nat \<Rightarrow> 'a parser \<Rightarrow> 'a parser" where
  "read_sep sep i p s =
     (if i = 0 then p s else (case read_char sep s of None \<Rightarrow> None | Some (_, r) \<Rightarrow> p r))"

definition read_ipv4 :: "bytes parser" where
  "read_ipv4 s =
     (case read_sep CHR ''.'' 0 read_octet s of None \<Rightarrow> None | Some (a, s1) \<Rightarrow>
      (case read_sep CHR ''.'' 1 read_octet s1 of None \<Rightarrow> None | Some (b, s2) \<Rightarrow>
       (case read_sep CHR ''.'' 2 read_octet s2 of None \<Rightarrow> None | Some (c, s3) \<Rightarrow>
        (case read_sep CHR ''.'' 3 read_octet s3 of None \<Rightarrow> None | Some (d, s4) \<Rightarrow>
         Some ([a, b, c, d], s4)))))"

definition read_seg :: "u16 parser" where
  "read_seg s = (case read_number 16 (Some 4) True 65535 s of
     None \<Rightarrow> None | Some (n, r) \<Rightarrow> Some (word_of_nat n, r))"

text \<open>
  \<open>read_groups\<close>: up to \<open>limit\<close> groups from index \<open>i\<close>, and whether an IPv4 tail ended
  them. \<open>fuel\<close> counts the groups that may still follow.
\<close>

fun read_groups :: "nat \<Rightarrow> nat \<Rightarrow> nat \<Rightarrow> string \<Rightarrow> (u16 list \<times> bool) \<times> string" where
  "read_groups 0 i limit s = (([], False), s)"
| "read_groups (Suc fuel) i limit s =
     (case (if i + 1 < limit then read_sep CHR '':'' i read_ipv4 s else None) of
        Some (os, r) \<Rightarrow>
          (([of_be16 (take 2 os), of_be16 (drop 2 os)], True), r)
      | None \<Rightarrow>
          (case read_sep CHR '':'' i read_seg s of
             None \<Rightarrow> (([], False), s)
           | Some (g, r) \<Rightarrow>
               (let ((gs, v4), r') = read_groups fuel (Suc i) limit r in ((g # gs, v4), r'))))"

definition read_ipv6 :: "u16 list parser" where
  "read_ipv6 s =
     (let ((hd_gs, hd_v4), s1) = read_groups 8 0 8 s in
      if length hd_gs = 8 then Some (hd_gs, s1)
      else if hd_v4 then None
      else (case read_char CHR '':'' s1 of None \<Rightarrow> None | Some (_, s2) \<Rightarrow>
            (case read_char CHR '':'' s2 of None \<Rightarrow> None | Some (_, s3) \<Rightarrow>
              (let limit = 8 - (length hd_gs + 1);
                   ((tl_gs, _), s4) = read_groups limit 0 limit s3
               in Some (hd_gs @ replicate (8 - length hd_gs - length tl_gs) 0 @ tl_gs, s4)))))"

definition read_port :: "u16 parser" where
  "read_port s = (case read_char CHR '':'' s of None \<Rightarrow> None | Some (_, r) \<Rightarrow>
     (case read_number 10 None True 65535 r of None \<Rightarrow> None | Some (n, r') \<Rightarrow> Some (word_of_nat n, r')))"

definition read_scope :: "u32 parser" where
  "read_scope s = (case read_char CHR ''%'' s of None \<Rightarrow> None | Some (_, r) \<Rightarrow>
     (case read_number 10 None True (2 ^ 32 - 1) r of None \<Rightarrow> None | Some (n, r') \<Rightarrow> Some (word_of_nat n, r')))"

definition read_socket_v4 :: "socket_addr parser" where
  "read_socket_v4 s = (case read_ipv4 s of None \<Rightarrow> None | Some (os, s1) \<Rightarrow>
     (case read_port s1 of None \<Rightarrow> None | Some (p, s2) \<Rightarrow> Some (SocketAddr (V4 os) p 0, s2)))"

definition read_socket_v6 :: "socket_addr parser" where
  "read_socket_v6 s = (case read_char CHR ''['' s of None \<Rightarrow> None | Some (_, s1) \<Rightarrow>
     (case read_ipv6 s1 of None \<Rightarrow> None | Some (ss, s2) \<Rightarrow>
      (let (sc, s3) = (case read_scope s2 of None \<Rightarrow> (0, s2) | Some (sc, r) \<Rightarrow> (sc, r)) in
       (case read_char CHR '']'' s3 of None \<Rightarrow> None | Some (_, s4) \<Rightarrow>
        (case read_port s4 of None \<Rightarrow> None | Some (p, s5) \<Rightarrow> Some (SocketAddr (V6 ss) p sc, s5))))))"

text \<open>\<open>str.parse::<SocketAddr>()\<close> and \<open>str.parse::<IpAddr>()\<close>: the whole string must be read.\<close>

definition parse_socket_addr :: "string \<Rightarrow> socket_addr option" where
  "parse_socket_addr s =
     (case (case read_socket_v4 s of None \<Rightarrow> read_socket_v6 s | Some x \<Rightarrow> Some x) of
        None \<Rightarrow> None | Some (a, r) \<Rightarrow> if r = [] then Some a else None)"

definition parse_ip :: "string \<Rightarrow> ip_addr option" where
  "parse_ip s =
     (case (case read_ipv4 s of
              Some (os, r) \<Rightarrow> Some (V4 os, r)
            | None \<Rightarrow> (case read_ipv6 s of None \<Rightarrow> None | Some (ss, r) \<Rightarrow> Some (V6 ss, r))) of
        None \<Rightarrow> None | Some (a, r) \<Rightarrow> if r = [] then Some a else None)"

section \<open>Reading back what was printed\<close>

fun nat_digits :: "nat \<Rightarrow> nat list" where
  "nat_digits n = (if n < 10 then [n] else nat_digits (n div 10) @ [n mod 10])"

declare nat_digits.simps [simp del]

lemma show_nat_digits_map: "show_nat n = map digit_char (nat_digits n)"
proof (induction n rule: nat_digits.induct)
  case (1 n)
  then show ?case by (subst show_nat.simps, subst nat_digits.simps) simp
qed

lemma nat_digits_lt: "d \<in> set (nat_digits n) \<Longrightarrow> d < 10"
proof (induction n rule: nat_digits.induct)
  case (1 n)
  from 1(2) have "d \<in> set (if n < 10 then [n] else nat_digits (n div 10) @ [n mod 10])"
    by (simp only: nat_digits.simps [of n])
  with 1(1) show ?case by (auto split: if_splits)
qed

lemma nat_digits_nonempty [simp]: "nat_digits n \<noteq> []"
  by (subst nat_digits.simps) simp

lemma digits_value_nat_digits [simp]: "digits_value 10 (nat_digits n) = n"
proof (induction n rule: nat_digits.induct)
  case (1 n)
  then show ?case by (subst nat_digits.simps) (simp add: digits_value_def)
qed

lemma nat_digits_hd: "10 \<le> n \<Longrightarrow> hd (nat_digits n) \<noteq> 0"
proof (induction n rule: nat_digits.induct)
  case (1 n)
  show ?case
  proof (cases "n div 10 < 10")
    case True
    with 1(2) show ?thesis by (subst nat_digits.simps) (simp add: nat_digits.simps [of "n div 10"])
  next
    case False
    with 1 have "hd (nat_digits (n div 10)) \<noteq> 0" by simp
    with 1(2) show ?thesis by (subst nat_digits.simps) simp
  qed
qed

lemma nat_digits_length_1: "length (nat_digits n) = 1" if "n < 10"
  using that by (subst nat_digits.simps) simp

lemma nat_digits_length_3: "length (nat_digits n) \<le> 3" if "n < 1000"
proof -
  have "length (nat_digits n) \<le> Suc (Suc (length (nat_digits (n div 10 div 10))))"
    by (subst nat_digits.simps, subst nat_digits.simps) (simp add: Suc_le_eq)
  moreover have "n div 10 div 10 < 10" using that by simp
  ultimately show ?thesis using nat_digits_length_1 [of "n div 10 div 10"] by simp
qed

lemma span_digits_append:
  assumes "\<forall>d \<in> set ds. d < radix" "radix \<le> 36"
    and "r = [] \<or> to_digit radix (hd r) = None"
  shows "span_digits radix (map digit_char ds @ r) = (ds, r)"
  using assms
proof (induction ds)
  case Nil
  then show ?case by (cases r) auto
next
  case (Cons d ds)
  then show ?case by (simp add: to_digit_digit_char)
qed

text \<open>A printed number followed by a non-digit reads back as itself.\<close>

lemma read_number_show:
  assumes "n \<le> mx" "r = [] \<or> to_digit 10 (hd r) = None"
    and "\<And>k. md = Some k \<Longrightarrow> length (nat_digits n) \<le> k"
  shows "read_number 10 md zp mx (show_nat n @ r) = Some (n, r)"
proof -
  have "span_digits 10 (show_nat n @ r) = (nat_digits n, r)"
    using assms(2) by (simp add: show_nat_digits_map span_digits_append nat_digits_lt)
  moreover have "\<not> (hd (nat_digits n) = 0 \<and> 1 < length (nat_digits n))"
    using nat_digits_hd [of n] nat_digits_length_1 [of n] by (cases "n < 10") auto
  ultimately show ?thesis
    using assms(1,3) by (auto simp: read_number_def split: option.splits)
qed

lemma read_octet_show:
  "r = [] \<or> to_digit 10 (hd r) = None \<Longrightarrow> read_octet (show_nat (unat (b :: byte)) @ r) = Some (b, r)"
proof -
  assume r: "r = [] \<or> to_digit 10 (hd r) = None"
  have b: "unat b \<le> 255" using unat_bounds(1) [of b] by simp
  then have "length (nat_digits (unat b)) \<le> 3" by (intro nat_digits_length_3) simp
  with b r have "read_number 10 (Some 3) False 255 (show_nat (unat b) @ r) = Some (unat b, r)"
    by (intro read_number_show) auto
  then show ?thesis by (simp add: read_octet_def)
qed

lemma read_char_Cons [simp]: "read_char c (c # r) = Some ((), r)"
  by (simp add: read_char_def)

lemma to_digit_sep [simp]:
  "to_digit 10 CHR ''.'' = None" "to_digit 10 CHR '':'' = None"
  by (simp_all add: to_digit_def)

lemma read_ipv4_show:
  assumes "length os = 4" "r = [] \<or> to_digit 10 (hd r) = None"
  shows "read_ipv4 (show_v4 os @ r) = Some (os, r)"
proof -
  obtain a b c d where os: "os = [a, b, c, d]"
    using assms(1) by (auto simp: length_Suc_conv eval_nat_numeral)
  show ?thesis
    using assms(2) by (simp add: os show_v4_def read_ipv4_def read_sep_def read_octet_show)
qed

lemma read_port_show: "read_port (CHR '':'' # show_nat (unat p)) = Some (p, [])"
proof -
  have "unat p \<le> 65535" using unat_bounds(2) [of p] by simp
  then show ?thesis
    using read_number_show [of "unat p" 65535 "[]" None True] by (simp add: read_port_def)
qed

lemma parse_show_v4:
  "length os = 4 \<Longrightarrow>
   parse_socket_addr (show_socket_addr (SocketAddr (V4 os) p 0)) = Some (SocketAddr (V4 os) p 0)"
  by (simp add: parse_socket_addr_def read_socket_v4_def read_ipv4_show read_port_show)

lemma parse_ip_show_v4: "length os = 4 \<Longrightarrow> parse_ip (show_ip (V4 os)) = Some (V4 os)"
  using read_ipv4_show [of os "[]"] by (simp add: parse_ip_def)

end
