(* ===== verification/Tor_Types.thy ===== *)
theory Tor_Types
  imports Tor_Net
begin

text \<open>
  The data types the services share (\<open>common/src/types.rs\<close>, \<open>common/src/error.rs\<close>):
  node types and their text, public keys and their hexadecimal form, exit policies, node
  descriptors and the metrics of a heartbeat. A fixed array \<open>[u8; 32]\<close> is a byte list;
  \<open>pk_wf\<close> states its length.
\<close>

section \<open>Errors\<close>

text \<open>\<open>TorError\<close>; the payload of an I/O or serialization error is opaque.\<close>

datatype tor_error =
    ErrIo
  | ErrSerialization
  | ErrProtocol string
  | ErrCrypto string
  | ErrInvalidNodeType string
  | ErrCircuit string
  | ErrStream string
  | ErrDirectory string
  | ErrExitPolicy string
  | ErrTimeout string
  | ErrInvalidAddress string
  | ErrPayloadTooLarge nat nat
  | ErrDigestMismatch u32 u16
  | ErrHandshakeAuthFailed
  | ErrTlsHandshake string
  | ErrFingerprintMismatch string string

text \<open>
  \<open>anyhow::Error\<close> as the services build it: a message (\<open>anyhow!\<close>, \<open>context\<close>), a
  converted \<open>TorError\<close>, or an error of the runtime.
\<close>

datatype any_error =
    Msg string
  | Tor tor_error
  | IoErr
  | AddrParse
  | Utf8Err

text \<open>The messages of \<open>TorError\<close>; \<open>os\<close> is the text of a wrapped error.\<close>

fun show_tor_error :: "string \<Rightarrow> tor_error \<Rightarrow> string" where
  "show_tor_error os ErrIo = ''IO error: '' @ os"
| "show_tor_error os ErrSerialization = ''Serialization error: '' @ os"
| "show_tor_error os (ErrProtocol m) = ''Protocol error: '' @ m"
| "show_tor_error os (ErrCrypto m) = ''Crypto error: '' @ m"
| "show_tor_error os (ErrInvalidNodeType m) = ''Invalid node type: '' @ m"
| "show_tor_error os (ErrCircuit m) = ''Circuit error: '' @ m"
| "show_tor_error os (ErrStream m) = ''Stream error: '' @ m"
| "show_tor_error os (ErrDirectory m) = ''Directory error: '' @ m"
| "show_tor_error os (ErrExitPolicy m) = ''Exit policy violation: '' @ m"
| "show_tor_error os (ErrTimeout m) = ''Timeout: '' @ m"
| "show_tor_error os (ErrInvalidAddress m) = ''Invalid address: '' @ m"
| "show_tor_error os (ErrPayloadTooLarge sz mx) =
     ''Payload too large: '' @ show_nat sz @ '' bytes (max '' @ show_nat mx @ '')''"
| "show_tor_error os (ErrDigestMismatch c s) =
     ''Digest mismatch on circuit '' @ show_nat (unat c) @ '' stream '' @ show_nat (unat s)"
| "show_tor_error os ErrHandshakeAuthFailed =
     ''ntor handshake AUTH verification failed '' @ [CHR 0xE2, CHR 0x80, CHR 0x94] @ '' possible MITM''"
| "show_tor_error os (ErrTlsHandshake m) = ''TLS handshake failed: '' @ m"
| "show_tor_error os (ErrFingerprintMismatch expected got) =
     ''Certificate fingerprint mismatch: expected '' @ expected @ '', got '' @ got"

section \<open>Node types\<close>

datatype node_type = Entry | Middle | Exit

fun show_node_type :: "node_type \<Rightarrow> string" where
  "show_node_type Entry = ''entry''"
| "show_node_type Middle = ''middle''"
| "show_node_type Exit = ''exit''"

definition node_type_from_str :: "string \<Rightarrow> string + node_type" where
  "node_type_from_str s =
     (if to_lower s = ''entry'' then Inr Entry
      else if to_lower s = ''middle'' then Inr Middle
      else if to_lower s = ''exit'' then Inr Exit
      else Inl (''Invalid node type: '' @ s))"

section \<open>Public keys\<close>

record public_key =
  pk_bytes :: bytes

definition pk_new :: "bytes \<Rightarrow> public_key" where
  "pk_new bs = \<lparr>pk_bytes = bs\<rparr>"

definition pk_wf :: "public_key \<Rightarrow> bool" where
  "pk_wf k = (length (pk_bytes k) = 32)"

text \<open>\<open>format!("{:02x}", b)\<close>.\<close>

definition hex2 :: "byte \<Rightarrow> string" where
  "hex2 b = [digit_char (unat b div 16), digit_char (unat b mod 16)]"

definition to_hex :: "public_key \<Rightarrow> string" where
  "to_hex k = concat (map hex2 (pk_bytes k))"

text \<open>
  \<open>from_hex\<close>. A string is the list of its bytes, so \<open>len\<close> is \<open>length\<close>; \<open>str::get\<close>
  fails inside a multi-byte character, which has no byte below 128, so the pair is no
  hexadecimal number either: both are \<open>Err\<close>, the message apart.
\<close>

definition from_hex_at :: "string \<Rightarrow> nat \<Rightarrow> string + byte" where
  "from_hex_at s i =
     (case get_range s (i * 2) (i * 2 + 2) of
        None \<Rightarrow> Inl (''Invalid hex slice at position '' @ show_nat i)
      | Some sl \<Rightarrow> (case from_str_radix 16 255 sl of
          None \<Rightarrow> Inl ''Invalid hex: invalid digit found in string''
        | Some n \<Rightarrow> Inr (word_of_nat n)))"

definition from_hex :: "string \<Rightarrow> string + public_key" where
  "from_hex s =
     (if length s \<noteq> 64 then Inl ''Hex string must be 64 characters (32 bytes)''
      else (case collect_results (from_hex_at s) [0..<32] of
              Inl e \<Rightarrow> Inl e | Inr bs \<Rightarrow> Inr \<lparr>pk_bytes = bs\<rparr>))"

text \<open>\<open>Display for PublicKey\<close>: the first sixteen hexadecimal digits.\<close>

definition show_public_key :: "public_key \<Rightarrow> string" where
  "show_public_key k = take 16 (to_hex k)"

section \<open>Exit policies\<close>

record exit_policy =
  allowed_ports :: "u16 list"
  blocked_ports :: "u16 list"
  allowed_ips :: "ip_addr list"
  blocked_ips :: "ip_addr list"

definition default_policy :: exit_policy where
  "default_policy = \<lparr>allowed_ports = [80, 443, 8080, 8443], blocked_ports = [25, 587, 465],
     allowed_ips = [], blocked_ips = []\<rparr>"

definition allow_all :: exit_policy where
  "allow_all = \<lparr>allowed_ports = [], blocked_ports = [], allowed_ips = [], blocked_ips = []\<rparr>"

definition policy_allows :: "exit_policy \<Rightarrow> socket_addr \<Rightarrow> bool" where
  "policy_allows p a =
     (let port = sa_port a; ip = sa_ip a in
      if ip \<in> set (blocked_ips p) then False
      else if allowed_ips p \<noteq> [] \<and> ip \<notin> set (allowed_ips p) then False
      else if port \<in> set (blocked_ports p) then False
      else if allowed_ports p = [] then True
      else port \<in> set (allowed_ports p))"

section \<open>Descriptors\<close>

record node_descriptor =
  node_id :: string
  node_type :: node_type
  address :: socket_addr
  public_key :: public_key
  bandwidth :: u64
  nd_exit_policy :: "exit_policy option"
  operator_id :: "string option"
  tls_cert_fingerprint :: string

definition nd_new ::
  "string \<Rightarrow> node_type \<Rightarrow> socket_addr \<Rightarrow> public_key \<Rightarrow> u64 \<Rightarrow> exit_policy option \<Rightarrow> node_descriptor"
where
  "nd_new i t a k bw pol = \<lparr>node_id = i, node_type = t, address = a, public_key = k,
     bandwidth = bw, nd_exit_policy = pol, operator_id = None, tls_cert_fingerprint = ''''\<rparr>"

record node_metrics =
  connections_accepted :: u64
  circuits_active :: u64
  circuits_created :: u64
  circuits_destroyed :: u64
  bytes_forwarded :: u64
  bytes_received :: u64
  streams_opened :: u64
  uptime_secs :: u64
  event_snapshot :: "string list"

definition node_metrics_default :: node_metrics where
  "node_metrics_default = \<lparr>connections_accepted = 0, circuits_active = 0, circuits_created = 0,
     circuits_destroyed = 0, bytes_forwarded = 0, bytes_received = 0, streams_opened = 0,
     uptime_secs = 0, event_snapshot = []\<rparr>"

section \<open>Hexadecimal keys\<close>

lemma length_to_hex: "length (to_hex k) = 2 * length (pk_bytes k)"
  by (simp add: to_hex_def hex2_def length_concat o_def sum_list_triv)

lemma hex2_slice: "i < length bs \<Longrightarrow> take 2 (drop (i * 2) (concat (map hex2 bs))) = hex2 (bs ! i)"
proof (induction bs arbitrary: i)
  case (Cons b bs)
  then show ?case by (cases i) (simp_all add: hex2_def)
qed simp

lemma digit_char_ascii: "d < 16 \<Longrightarrow> (of_char (digit_char d) :: nat) = (if d < 10 then 48 + d else 87 + d)"
  by (auto simp: digit_char_def)

lemma from_str_hex2: "from_str_radix 16 255 (hex2 b) = Some (unat b)"
proof -
  have b: "unat b div 16 < 16" "unat b mod 16 < 16" using unat_bounds(1) [of b] by auto
  have "(of_char (digit_char (unat b div 16)) :: nat) \<noteq> of_char CHR ''+''"
    using b(1) by (simp add: digit_char_ascii)
  then have plus: "digit_char (unat b div 16) \<noteq> CHR ''+''" by metis
  have "parse_digits 16 255 0 (hex2 b) = Some (unat b)"
    using b unat_bounds(1) [of b] by (simp add: hex2_def to_digit_digit_char)
  with plus show ?thesis by (simp add: from_str_radix_def hex2_def)
qed

lemma from_hex_at_to_hex: "i < length (pk_bytes k) \<Longrightarrow> from_hex_at (to_hex k) i = Inr (pk_bytes k ! i)"
  by (simp add: from_hex_at_def get_range_def length_to_hex hex2_slice [folded to_hex_def]
      to_hex_def [symmetric] from_str_hex2)
    (simp add: to_hex_def hex2_slice from_str_hex2)

lemma from_hex_to_hex_aux:
  "pk_wf k \<Longrightarrow> collect_results (from_hex_at (to_hex k)) [0..<32] = Inr (pk_bytes k)"
proof -
  assume k: "pk_wf k"
  then have "collect_results (from_hex_at (to_hex k)) [0..<32] = Inr (map (\<lambda>i. pk_bytes k ! i) [0..<32])"
    by (intro collect_results_ok) (simp add: from_hex_at_to_hex pk_wf_def)
  also have "map (\<lambda>i. pk_bytes k ! i) [0..<32] = pk_bytes k"
    using k map_nth [of "pk_bytes k"] by (simp add: pk_wf_def)
  finally show ?thesis .
qed

text \<open>
  The hexadecimal form of a 32-byte public key has 64 characters and reads back as the
  same key.
\<close>

theorem public_key_hex_roundtrip:
  assumes "pk_wf k"
  shows "length (to_hex k) = 64 \<and> from_hex (to_hex k) = Inr k"
  using assms from_hex_to_hex_aux [OF assms] by (simp add: from_hex_def length_to_hex pk_wf_def)

theorem public_key_hex_roundtrip_witness:
  "from_hex (to_hex (pk_new (replicate 32 171))) = Inr (pk_new (replicate 32 171))"
  using public_key_hex_roundtrip [of "pk_new (replicate 32 171)"] by (simp add: pk_wf_def pk_new_def)

text \<open>
  Whatever \<open>from_hex\<close> accepts is a 64-character string, yields a well-formed key, and
  byte \<open>i\<close> of the key is the number the standard library reads from the \<open>i\<close>-th pair of
  characters; the pair may be a sign and one digit, which the documentation of
  \<open>from_hex\<close> does not say.
\<close>

theorem from_hex_sound:
  assumes "from_hex s = Inr k"
  shows "length s = 64 \<and> pk_wf k \<and>
    (\<forall>i < 32. from_str_radix 16 255 (take 2 (drop (i * 2) s)) = Some (unat (pk_bytes k ! i)))"
proof -
  have len: "length s = 64" and c: "collect_results (from_hex_at s) [0..<32] = Inr (pk_bytes k)"
    using assms by (auto simp: from_hex_def split: if_splits sum.splits)
  note c' = collect_results_Inr [OF c]
  have "from_str_radix 16 255 (take 2 (drop (i * 2) s)) = Some (unat (pk_bytes k ! i))" if i: "i < 32" for i
  proof -
    have "from_hex_at s i = Inr (pk_bytes k ! i)" using c' i by auto
    then obtain n where n: "from_str_radix 16 255 (take 2 (drop (i * 2) s)) = Some n"
        "pk_bytes k ! i = word_of_nat n"
      using len i by (auto simp: from_hex_at_def get_range_def split: option.splits if_splits)
    then have "n < 256" using from_str_radix_le by force
    with n show ?thesis by (simp add: unat_of_nat)
  qed
  with len c' show ?thesis by (simp add: pk_wf_def)
qed

theorem from_hex_sound_witness:
  "from_hex (to_hex (pk_new (replicate 32 7))) = Inr (pk_new (replicate 32 7)) \<and>
   pk_wf (pk_new (replicate 32 7))"
  using from_hex_sound [of "to_hex (pk_new (replicate 32 7))" "pk_new (replicate 32 7)"]
    from_hex_to_hex_aux [of "pk_new (replicate 32 7)"]
  by (simp add: from_hex_def length_to_hex pk_wf_def pk_new_def)

text \<open>A key text with a sign in it, which the documentation calls an error, is accepted.\<close>

lemma from_hex_accepts_sign:
  "from_hex (concat (replicate 32 ''+f'')) = Inr (pk_new (replicate 32 15))"
  by code_simp

section \<open>Policies\<close>

lemma policy_allows_iff:
  "policy_allows p a \<longleftrightarrow>
     sa_ip a \<notin> set (blocked_ips p) \<and> (allowed_ips p = [] \<or> sa_ip a \<in> set (allowed_ips p)) \<and>
     sa_port a \<notin> set (blocked_ports p) \<and> (allowed_ports p = [] \<or> sa_port a \<in> set (allowed_ports p))"
  by (auto simp: policy_allows_def Let_def)

text \<open>
  Exit policies: the block lists win over the allow lists, an empty allow list means
  everything; the permissive policy lets every address pass; the default policy lets pass
  exactly its four web ports, on every address.
\<close>

theorem exit_policy_semantics:
  "(policy_allows p a \<longleftrightarrow>
     sa_ip a \<notin> set (blocked_ips p) \<and> sa_port a \<notin> set (blocked_ports p) \<and>
     (sa_ip a \<in> set (allowed_ips p) \<or> allowed_ips p = []) \<and>
     (sa_port a \<in> set (allowed_ports p) \<or> allowed_ports p = [])) \<and>
   policy_allows allow_all a \<and>
   (policy_allows default_policy a \<longleftrightarrow> sa_port a \<in> {80, 443, 8080, 8443})"
  by (auto simp: policy_allows_iff allow_all_def default_policy_def)

lemma node_type_roundtrip [simp]: "node_type_from_str (show_node_type t) = Inr t"
  by (cases t) (simp_all add: node_type_from_str_def to_lower_def ascii_lower_def Let_def)

end
