(* ===== verification/Tor_Protocol.thy ===== *)
theory Tor_Protocol
  imports Tor_Types
begin

text \<open>
  The wire protocol (\<open>common/src/protocol.rs\<close>): commands, messages and the fixed 514-byte
  cell. \<open>to_bytes\<close> lays the cell out by the same sequence of range writes as the code;
  the random padding is a function \<open>rnd\<close> of the byte's position. Streams are explicit: a
  reader is the bytes that remain and whether the transport fails, a writer the bytes
  written so far.
\<close>

section \<open>Constants\<close>

definition CELL_SIZE :: nat where "CELL_SIZE = 514"
definition HEADER_SIZE :: nat where "HEADER_SIZE = 11"
definition PAYLOAD_LEN_SIZE :: nat where "PAYLOAD_LEN_SIZE = 2"
definition DIGEST_SIZE :: nat where "DIGEST_SIZE = 4"
definition MAX_PAYLOAD_SIZE :: nat where
  "MAX_PAYLOAD_SIZE = CELL_SIZE - HEADER_SIZE - PAYLOAD_LEN_SIZE - DIGEST_SIZE"
definition DATA_START :: nat where "DATA_START = HEADER_SIZE + PAYLOAD_LEN_SIZE + DIGEST_SIZE"

lemmas cell_consts = CELL_SIZE_def HEADER_SIZE_def PAYLOAD_LEN_SIZE_def DIGEST_SIZE_def
  MAX_PAYLOAD_SIZE_def DATA_START_def

lemma MAX_PAYLOAD_SIZE_eq: "MAX_PAYLOAD_SIZE = 497" and DATA_START_eq: "DATA_START = 17"
  by (simp_all add: cell_consts)

section \<open>Commands\<close>

datatype message_command =
  Padding | Create | Created | Extend | Extended | Destroy | Begin | Connected | Data | End

fun to_u8 :: "message_command \<Rightarrow> byte" where
  "to_u8 Padding = 0x00"
| "to_u8 Create = 0x01"
| "to_u8 Created = 0x02"
| "to_u8 Extend = 0x03"
| "to_u8 Extended = 0x04"
| "to_u8 Destroy = 0x05"
| "to_u8 Begin = 0x10"
| "to_u8 Connected = 0x11"
| "to_u8 Data = 0x12"
| "to_u8 End = 0x13"

definition from_u8 :: "byte \<Rightarrow> string + message_command" where
  "from_u8 v =
     (if v = 0x00 then Inr Padding
      else if v = 0x01 then Inr Create
      else if v = 0x02 then Inr Created
      else if v = 0x03 then Inr Extend
      else if v = 0x04 then Inr Extended
      else if v = 0x05 then Inr Destroy
      else if v = 0x10 then Inr Begin
      else if v = 0x11 then Inr Connected
      else if v = 0x12 then Inr Data
      else if v = 0x13 then Inr End
      else Inl (''Unknown message command: 0x'' @ hex2 v))"

fun show_command :: "message_command \<Rightarrow> string" where
  "show_command Padding = ''PADDING''"
| "show_command Create = ''CREATE''"
| "show_command Created = ''CREATED''"
| "show_command Extend = ''EXTEND''"
| "show_command Extended = ''EXTENDED''"
| "show_command Destroy = ''DESTROY''"
| "show_command Begin = ''BEGIN''"
| "show_command Connected = ''CONNECTED''"
| "show_command Data = ''DATA''"
| "show_command End = ''END''"

section \<open>Messages\<close>

record message =
  circuit_id :: u32
  stream_id :: u16
  command :: message_command
  data :: bytes
  digest :: bytes

definition msg_new :: "u32 \<Rightarrow> u16 \<Rightarrow> message_command \<Rightarrow> bytes \<Rightarrow> message" where
  "msg_new c s cmd d = \<lparr>circuit_id = c, stream_id = s, command = cmd, data = d, digest = [0, 0, 0, 0]\<rparr>"

definition msg_circuit :: "u32 \<Rightarrow> message_command \<Rightarrow> bytes \<Rightarrow> message" where
  "msg_circuit c cmd d = msg_new c 0 cmd d"

definition msg_stream :: "u32 \<Rightarrow> u16 \<Rightarrow> message_command \<Rightarrow> bytes \<Rightarrow> message" where
  "msg_stream c s cmd d = msg_new c s cmd d"

definition msg_create :: "u32 \<Rightarrow> bytes \<Rightarrow> message" where
  "msg_create c pk = msg_circuit c Create pk"

definition msg_created :: "u32 \<Rightarrow> bytes \<Rightarrow> message" where
  "msg_created c pk = msg_circuit c Created pk"

definition msg_extend :: "u32 \<Rightarrow> bytes \<Rightarrow> message" where
  "msg_extend c p = msg_circuit c Extend p"

definition msg_extended :: "u32 \<Rightarrow> bytes \<Rightarrow> message" where
  "msg_extended c p = msg_circuit c Extended p"

definition msg_destroy :: "u32 \<Rightarrow> message" where
  "msg_destroy c = msg_circuit c Destroy []"

text \<open>
  \<open>Message::padding\<close>: \<open>pick n\<close> is the draw \<open>random_range(0..n)\<close> and \<open>rnd\<close> the filler.
\<close>

definition msg_padding :: "(nat \<Rightarrow> nat) \<Rightarrow> (nat \<Rightarrow> byte) \<Rightarrow> u32 \<Rightarrow> message" where
  "msg_padding pick rnd c =
     (let payload_len = pick MAX_PAYLOAD_SIZE in msg_circuit c Padding (map rnd [0..<payload_len]))"

definition msg_begin :: "u32 \<Rightarrow> u16 \<Rightarrow> bytes \<Rightarrow> message" where
  "msg_begin c s d = msg_stream c s Begin d"

definition msg_connected :: "u32 \<Rightarrow> u16 \<Rightarrow> message" where
  "msg_connected c s = msg_stream c s Connected []"

definition msg_data :: "u32 \<Rightarrow> u16 \<Rightarrow> bytes \<Rightarrow> message" where
  "msg_data c s d = msg_stream c s Data d"

definition msg_end :: "u32 \<Rightarrow> u16 \<Rightarrow> bytes \<Rightarrow> message" where
  "msg_end c s r = msg_stream c s End r"

lemmas msg_defs = msg_create_def msg_created_def msg_extend_def msg_extended_def msg_destroy_def
  msg_begin_def msg_connected_def msg_data_def msg_end_def msg_circuit_def msg_stream_def msg_new_def

text \<open>What the type \<open>[u8; 4]\<close> of the digest guarantees.\<close>

definition msg_wf :: "message \<Rightarrow> bool" where
  "msg_wf m = (length (digest m) = 4)"

section \<open>Cells\<close>

definition to_bytes :: "(nat \<Rightarrow> byte) \<Rightarrow> message \<Rightarrow> bytes" where
  "to_bytes rnd m =
     (let cell = replicate CELL_SIZE 0;
          cell = put_range cell 0 (be32 (word_of_nat (CELL_SIZE - 4)));
          cell = put_range cell 4 (be32 (circuit_id m));
          cell = put_range cell 8 (be16 (stream_id m));
          cell = put_range cell 10 [to_u8 (command m)];
          data_len = min (length (data m)) MAX_PAYLOAD_SIZE;
          cell = put_range cell 11 (be16 (word_of_nat data_len));
          cell = put_range cell 13 (digest m);
          cell = put_range cell DATA_START (take data_len (data m))
      in if data_len < MAX_PAYLOAD_SIZE
         then put_range cell (DATA_START + data_len) (map rnd [DATA_START + data_len..<CELL_SIZE])
         else cell)"

definition from_bytes :: "bytes \<Rightarrow> string + message" where
  "from_bytes bs =
     (if length bs < CELL_SIZE
      then Inl (''Cell too short: '' @ show_nat (length bs) @ '' bytes (expected '' @ show_nat CELL_SIZE @ '')'')
      else case get_range bs 0 4 of None \<Rightarrow> Inl ''Incomplete cell: missing length'' | Some lb \<Rightarrow>
      let len = unat (of_be32 lb) in
      if len \<noteq> CELL_SIZE - 4
      then Inl (''Invalid cell length field: '' @ show_nat len @ '' (expected '' @ show_nat (CELL_SIZE - 4) @ '')'')
      else case get_range bs 4 8 of None \<Rightarrow> Inl ''Incomplete cell: missing circuit ID'' | Some cb \<Rightarrow>
      case get_range bs 8 10 of None \<Rightarrow> Inl ''Incomplete cell: missing stream ID'' | Some sb \<Rightarrow>
      case get_at bs 10 of None \<Rightarrow> Inl ''Incomplete cell: missing command'' | Some cmdb \<Rightarrow>
      case from_u8 cmdb of Inl e \<Rightarrow> Inl e | Inr cmd \<Rightarrow>
      case get_range bs 11 13 of None \<Rightarrow> Inl ''Incomplete cell: missing payload length'' | Some pb \<Rightarrow>
      let payload_len = unat (of_be16 pb) in
      if MAX_PAYLOAD_SIZE < payload_len
      then Inl (''Payload length '' @ show_nat payload_len @ '' exceeds maximum '' @ show_nat MAX_PAYLOAD_SIZE)
      else case get_range bs 13 17 of None \<Rightarrow> Inl ''Incomplete cell: missing digest'' | Some db \<Rightarrow>
      case get_range bs DATA_START (DATA_START + payload_len) of
        None \<Rightarrow> Inl ''Incomplete cell: data region too short''
      | Some d \<Rightarrow> Inr \<lparr>circuit_id = of_be32 cb, stream_id = of_be16 sb, command = cmd, data = d, digest = db\<rparr>)"

text \<open>\<open>Message::size\<close>.\<close>

definition msg_size :: "message \<Rightarrow> nat" where
  "msg_size m = CELL_SIZE"

section \<open>Facts about commands\<close>

lemma from_u8_to_u8 [simp]: "from_u8 (to_u8 c) = Inr c"
  by (cases c) (simp_all add: from_u8_def)

lemma from_u8_Inr: "from_u8 v = Inr c \<longleftrightarrow> v = to_u8 c"
  by (cases c) (auto simp: from_u8_def split: if_splits)

lemma to_u8_inject [simp]: "to_u8 a = to_u8 b \<longleftrightarrow> a = b"
  by (metis from_u8_to_u8 sum.inject(2))

text \<open>Commands are ordered by their wire value, which gives them the library's order facts.\<close>

instantiation message_command :: linorder
begin

definition less_eq_message_command :: "message_command \<Rightarrow> message_command \<Rightarrow> bool" where
  "less_eq_message_command a b = (to_u8 a \<le> to_u8 b)"

definition less_message_command :: "message_command \<Rightarrow> message_command \<Rightarrow> bool" where
  "less_message_command a b = (to_u8 a < to_u8 b)"

instance
proof
  fix x y z :: message_command
  note d = less_eq_message_command_def less_message_command_def
  show "x < y \<longleftrightarrow> x \<le> y \<and> \<not> y \<le> x" unfolding d by (rule less_le_not_le)
  show "x \<le> x" by (simp add: d)
  show "x \<le> y \<Longrightarrow> y \<le> z \<Longrightarrow> x \<le> z" by (auto simp: d)
  show "x \<le> y \<Longrightarrow> y \<le> x \<Longrightarrow> x = y" unfolding d by (metis order_antisym to_u8_inject)
  show "x \<le> y \<or> y \<le> x" by (simp add: d linear)
qed

end

text \<open>The circuit-level commands are those below \<open>BEGIN\<close>.\<close>

definition is_circuit_command :: "message_command \<Rightarrow> bool" where
  "is_circuit_command c = (c < Begin)"

section \<open>Layout of a cell\<close>

lemma put_range_fill:
  "length xs = a \<Longrightarrow> length ys \<le> n \<Longrightarrow>
   put_range (xs @ replicate n z) a ys = (xs @ ys) @ replicate (n - length ys) z"
  by (simp add: put_range_append)

lemma put_range_fill0:
  "length ys \<le> n \<Longrightarrow> put_range (replicate n z) 0 ys = ys @ replicate (n - length ys) z"
  using put_range_fill [of "[]" 0 ys n z] by simp

definition cell_header :: "message \<Rightarrow> bytes" where
  "cell_header m = be32 510 @ be32 (circuit_id m) @ be16 (stream_id m) @ [to_u8 (command m)] @
     be16 (word_of_nat (min (length (data m)) MAX_PAYLOAD_SIZE)) @ digest m"

lemma length_cell_header [simp]: "msg_wf m \<Longrightarrow> length (cell_header m) = DATA_START"
  by (simp add: cell_header_def msg_wf_def DATA_START_eq)

lemma to_bytes_layout:
  assumes "msg_wf m"
  shows "to_bytes rnd m = cell_header m @ take MAX_PAYLOAD_SIZE (data m) @
    map rnd [DATA_START + min (length (data m)) MAX_PAYLOAD_SIZE..<CELL_SIZE]"
proof -
  define n where "n = min (length (data m)) MAX_PAYLOAD_SIZE"
  have n: "n \<le> 497" "n \<le> length (data m)" by (auto simp: n_def MAX_PAYLOAD_SIZE_eq)
  have tk: "take MAX_PAYLOAD_SIZE (data m) = take n (data m)"
    by (simp add: n_def min_def)
  define cell where "cell =
    put_range (put_range (put_range (put_range (put_range (put_range (put_range (replicate 514 0) 0
      (be32 510)) 4 (be32 (circuit_id m))) 8 (be16 (stream_id m))) 10 [to_u8 (command m)]) 11
      (be16 (word_of_nat n))) 13 (digest m)) 17 (take n (data m))"
  have cell: "cell = (cell_header m @ take n (data m)) @ replicate (497 - n) 0"
    using assms n
    by (simp add: cell_def put_range_fill0 put_range_fill msg_wf_def cell_header_def n_def [symmetric]
        del: append_assoc)
  have hdr: "length (cell_header m) = 17" using assms by (simp add: DATA_START_eq)
  have def: "to_bytes rnd m = (if n < 497 then put_range cell (17 + n) (map rnd [17 + n..<514]) else cell)"
    by (simp add: to_bytes_def Let_def cell_def n_def MAX_PAYLOAD_SIZE_eq DATA_START_eq CELL_SIZE_def)
  show ?thesis
  proof (cases "n < 497")
    case True
    then have "to_bytes rnd m = put_range ((cell_header m @ take n (data m)) @ replicate (497 - n) 0)
        (17 + n) (map rnd [17 + n..<514])"
      by (simp add: def cell)
    also have "\<dots> = (cell_header m @ take n (data m)) @ map rnd [17 + n..<514]"
      using True n hdr by (subst put_range_fill) auto
    finally show ?thesis
      by (simp add: tk n_def [symmetric] DATA_START_eq CELL_SIZE_def)
  next
    case False
    with n have "n = 497" by simp
    then show ?thesis
      using def cell by (simp add: tk n_def [symmetric] DATA_START_eq CELL_SIZE_def)
  qed
qed


lemma length_to_bytes: "msg_wf m \<Longrightarrow> length (to_bytes rnd m) = CELL_SIZE"
  by (simp add: to_bytes_layout) (simp add: cell_consts)

lemma get_at_header: "msg_wf m \<Longrightarrow> get_at (cell_header m @ xs) 10 = Some (to_u8 (command m))"
  by (simp add: get_at_def msg_wf_def cell_header_def nth_append)

lemma get_ranges_header:
  assumes "msg_wf m"
  shows "get_range (cell_header m @ xs) 0 4 = Some (be32 510)"
   "get_range (cell_header m @ xs) 4 8 = Some (be32 (circuit_id m))"
   "get_range (cell_header m @ xs) 8 10 = Some (be16 (stream_id m))"
   "get_range (cell_header m @ xs) 11 13 = Some (be16 (word_of_nat (min (length (data m)) MAX_PAYLOAD_SIZE)))"
   "get_range (cell_header m @ xs) 13 17 = Some (digest m)"
  using assms by (simp_all add: get_range_def msg_wf_def cell_header_def)

lemma from_bytes_to_bytes:
  assumes "msg_wf m"
  shows "from_bytes (to_bytes rnd m) = Inr (m\<lparr>data := take 497 (data m)\<rparr>)"
proof -
  define n where "n = min (length (data m)) 497"
  define body where "body = take n (data m) @ map rnd [17 + n..<514]"
  have tk: "take 497 (data m) = take n (data m)" by (simp add: n_def min_def)
  have bs: "to_bytes rnd m = cell_header m @ body"
    using to_bytes_layout [OF assms] by (simp add: body_def n_def [symmetric] tk MAX_PAYLOAD_SIZE_eq DATA_START_eq CELL_SIZE_def)
  have len: "length (to_bytes rnd m) = 514" using length_to_bytes [OF assms] by (simp add: CELL_SIZE_def)
  have data: "get_range (cell_header m @ body) 17 (17 + n) = Some (take n (data m))"
    unfolding body_def using assms by (intro get_range_append) (auto simp: n_def DATA_START_eq)
  have n16: "unat (word_of_nat n :: u16) = n"
    by (simp add: unat_of_nat n_def)
  note r = get_ranges_header [OF assms, of body, unfolded MAX_PAYLOAD_SIZE_eq n_def [symmetric]]
  have "from_bytes (cell_header m @ body) = Inr \<lparr>circuit_id = circuit_id m, stream_id = stream_id m,
      command = command m, data = take n (data m), digest = digest m\<rparr>"
    using len [unfolded bs] n16 data
    by (simp add: from_bytes_def Let_def r get_at_header [OF assms] CELL_SIZE_def MAX_PAYLOAD_SIZE_eq DATA_START_eq n_def)
  with bs tk show ?thesis by simp
qed

text \<open>
  C14. Every message serializes to exactly one cell of 514 bytes, and parsing the cell
  gives the message back, its data cut to the 497 bytes a cell can carry, whatever the
  random padding.
\<close>

theorem cell_roundtrip:
  assumes "msg_wf m"
  shows "length (to_bytes rnd m) = 514 \<and>
    from_bytes (to_bytes rnd m) = Inr (m\<lparr>data := take 497 (data m)\<rparr>)"
  using length_to_bytes [OF assms] from_bytes_to_bytes [OF assms] by (simp add: CELL_SIZE_def)


theorem cell_roundtrip_witness:
  "from_bytes (to_bytes (\<lambda>i. of_nat i) (msg_data 7 3 [1, 2, 3])) = Inr (msg_data 7 3 [1, 2, 3])"
  using cell_roundtrip [of "msg_data 7 3 [1, 2, 3]" "\<lambda>i. of_nat i"] by (simp add: msg_wf_def msg_defs)

lemma from_bytes_long:
  assumes "514 \<le> length bs"
  shows "from_bytes bs =
    (let pl = unat (of_be16 (take 2 (drop 11 bs))) in
     if take 4 bs \<noteq> be32 510
     then Inl (''Invalid cell length field: '' @ show_nat (unat (of_be32 (take 4 bs))) @ '' (expected 510)'')
     else case from_u8 (bs ! 10) of Inl e \<Rightarrow> Inl e
     | Inr cmd \<Rightarrow> if 497 < pl then Inl (''Payload length '' @ show_nat pl @ '' exceeds maximum 497'')
         else Inr \<lparr>circuit_id = of_be32 (take 4 (drop 4 bs)), stream_id = of_be16 (take 2 (drop 8 bs)),
           command = cmd, data = take pl (drop 17 bs), digest = take 4 (drop 13 bs)\<rparr>)"
proof -
  have l: "unat (of_be32 (take 4 bs)) = 510 \<longleftrightarrow> take 4 bs = be32 510"
    using assms of_be32_iff [of "take 4 bs" 510] by (simp add: word_unat_eq_iff)
  have r: "get_range bs 0 4 = Some (take 4 bs)" "get_range bs 4 8 = Some (take 4 (drop 4 bs))"
    "get_range bs 8 10 = Some (take 2 (drop 8 bs))" "get_at bs 10 = Some (bs ! 10)"
    "get_range bs 11 13 = Some (take 2 (drop 11 bs))" "get_range bs 13 17 = Some (take 4 (drop 13 bs))"
    "\<not> 497 < pl \<Longrightarrow> get_range bs 17 (17 + pl) = Some (take pl (drop 17 bs))" for pl
    using assms by (auto simp: get_range_def get_at_def)
  have n: "show_nat 510 = ''510''" "show_nat 497 = ''497''" by code_simp+
  show ?thesis
    using assms
    by (cases "from_u8 (bs ! 10)")
      (simp_all add: from_bytes_def CELL_SIZE_def MAX_PAYLOAD_SIZE_eq DATA_START_eq r Let_def l n)
qed

text \<open>
  Parsing succeeds exactly on a buffer of at least 514 bytes whose length field is 510,
  whose command byte is the value of a command and whose payload length is at most 497;
  the message is then read from the fixed offsets, and what follows the payload is ignored.
\<close>

theorem from_bytes_accepts:
  "from_bytes bs = Inr m \<longleftrightarrow>
     514 \<le> length bs \<and> take 4 bs = be32 510 \<and> bs ! 10 = to_u8 (command m) \<and>
     unat (of_be16 (take 2 (drop 11 bs))) = length (data m) \<and> length (data m) \<le> 497 \<and>
     circuit_id m = of_be32 (take 4 (drop 4 bs)) \<and> stream_id m = of_be16 (take 2 (drop 8 bs)) \<and>
     digest m = take 4 (drop 13 bs) \<and> data m = take (length (data m)) (drop 17 bs)"
proof (cases "514 \<le> length bs")
  case True
  then show ?thesis
    by (cases m) (auto simp: from_bytes_long Let_def from_u8_Inr split: sum.splits)
next
  case False
  then show ?thesis by (simp add: from_bytes_def CELL_SIZE_def)
qed

section \<open>Framing\<close>

text \<open>A fixed-size codec: what a stream of its frames promises.\<close>

locale framed_codec =
  fixes enc :: "'r \<Rightarrow> 'm \<Rightarrow> bytes" and dec :: "bytes \<Rightarrow> 'e + 'm" and size :: nat and ok :: "'m \<Rightarrow> bool"
  assumes size_pos: "0 < size"
    and enc_length: "ok m \<Longrightarrow> length (enc r m) = size"
    and dec_enc: "ok m \<Longrightarrow> dec (enc r m) = Inr m"
begin

lemma front: "ok m \<Longrightarrow> dec (take size (enc r m @ rest)) = Inr m \<and> drop size (enc r m @ rest) = rest"
  by (simp add: enc_length dec_enc)

lemma enc_inject: "ok m \<Longrightarrow> ok m' \<Longrightarrow> enc r m = enc r' m' \<Longrightarrow> m = m'"
  by (metis dec_enc sum.inject(2))

lemma stream_length:
  "\<forall>(r, m) \<in> set xs. ok m \<Longrightarrow> length (concat (map (\<lambda>(r, m). enc r m) xs)) = size * length xs"
  by (induction xs) (auto simp: enc_length)

text \<open>A stream of frames is read in one way only.\<close>

lemma uniquely_decodable:
  assumes "\<forall>(r, m) \<in> set xs. ok m" "\<forall>(r, m) \<in> set ys. ok m"
    and "concat (map (\<lambda>(r, m). enc r m) xs) = concat (map (\<lambda>(r, m). enc r m) ys)"
  shows "map snd xs = map snd ys"
  using assms
proof (induction xs arbitrary: ys)
  case Nil
  have "length (concat (map (\<lambda>(r, m). enc r m) [])) = size * length ys"
    unfolding Nil.prems(3) by (rule stream_length [OF Nil.prems(2)])
  with size_pos show ?case by simp
next
  case (Cons x xs)
  obtain r m where x: "x = (r, m)" by force
  show ?case
  proof (cases ys)
    case Nil
    with Cons.prems have "enc r m = []" by (simp add: x)
    with Cons.prems(1) size_pos enc_length [of m r] show ?thesis by (simp add: x)
  next
    case (Cons y ys')
    obtain r' m' where y: "y = (r', m')" by force
    have "length (enc r m) = length (enc r' m')"
      using Cons.prems Cons by (simp add: x y enc_length)
    with Cons.prems(3) have "enc r m = enc r' m'"
      and "concat (map (\<lambda>(r, m). enc r m) xs) = concat (map (\<lambda>(r, m). enc r m) ys')"
      using Cons by (simp_all add: x y)
    with Cons.prems Cons.IH [of ys'] enc_inject [of m m' r r'] Cons show ?thesis by (simp add: x y)
  qed
qed

end

text \<open>A message a cell carries without loss.\<close>

definition msg_fits :: "message \<Rightarrow> bool" where
  "msg_fits m = (msg_wf m \<and> length (data m) \<le> MAX_PAYLOAD_SIZE)"

interpretation cell: framed_codec to_bytes from_bytes CELL_SIZE msg_fits
  by unfold_locales
    (simp_all add: CELL_SIZE_def length_to_bytes from_bytes_to_bytes msg_fits_def MAX_PAYLOAD_SIZE_eq)

section \<open>Streams\<close>

text \<open>
  A reader is the bytes still to come and whether the transport then fails (instead of
  reaching its end). A writer is the bytes written, the bytes the transport still takes
  before it fails (\<open>None\<close>: no failure) and the random filler of the cells to come.
\<close>

record reader =
  rd_bytes :: bytes
  rd_broken :: bool

record writer =
  wr_bytes :: bytes
  wr_room :: "nat option"
  wr_rnd :: "nat \<Rightarrow> byte"

text \<open>\<open>read_exact\<close>; a short stream is \<open>UnexpectedEof\<close> unless the transport fails.\<close>

datatype read_error = UnexpectedEof | ReadFailed

definition read_exact :: "nat \<Rightarrow> reader \<Rightarrow> (read_error + bytes) \<times> reader" where
  "read_exact n r =
     (if n \<le> length (rd_bytes r)
      then (Inr (take n (rd_bytes r)), r\<lparr>rd_bytes := drop n (rd_bytes r)\<rparr>)
      else (Inl (if rd_broken r then ReadFailed else UnexpectedEof), r\<lparr>rd_bytes := []\<rparr>))"

definition write_all :: "bytes \<Rightarrow> writer \<Rightarrow> bool \<times> writer" where
  "write_all bs w =
     (case wr_room w of
        None \<Rightarrow> (True, w\<lparr>wr_bytes := wr_bytes w @ bs\<rparr>)
      | Some n \<Rightarrow>
          (length bs \<le> n,
           w\<lparr>wr_bytes := wr_bytes w @ take n bs, wr_room := Some (n - min n (length bs))\<rparr>))"

text \<open>Draw the filler of one cell: the next draw starts behind it.\<close>

definition next_cell :: "message \<Rightarrow> writer \<Rightarrow> bytes \<times> writer" where
  "next_cell m w = (to_bytes (wr_rnd w) m, w\<lparr>wr_rnd := (\<lambda>i. wr_rnd w (i + CELL_SIZE))\<rparr>)"

definition read_from :: "reader \<Rightarrow> (any_error + message) \<times> reader" where
  "read_from r =
     (case read_exact CELL_SIZE r of
        (Inl e, r') \<Rightarrow> (Inl IoErr, r')
      | (Inr buf, r') \<Rightarrow> (case from_bytes buf of Inl e \<Rightarrow> (Inl (Msg e), r') | Inr m \<Rightarrow> (Inr m, r')))"

definition from_stream :: "reader \<Rightarrow> (any_error + message option) \<times> reader" where
  "from_stream r =
     (case read_exact CELL_SIZE r of
        (Inl UnexpectedEof, r') \<Rightarrow> (Inr None, r')
      | (Inl ReadFailed, r') \<Rightarrow> (Inl IoErr, r')
      | (Inr buf, r') \<Rightarrow> (case from_bytes buf of Inl e \<Rightarrow> (Inl (Msg e), r') | Inr m \<Rightarrow> (Inr (Some m), r')))"

definition write_to_stream :: "message \<Rightarrow> writer \<Rightarrow> (tor_error + unit) \<times> writer" where
  "write_to_stream m w =
     (if MAX_PAYLOAD_SIZE < length (data m)
      then (Inl (ErrPayloadTooLarge (length (data m)) MAX_PAYLOAD_SIZE), w)
      else (let (cell, w) = next_cell m w; (ok, w) = write_all cell w
            in (if ok then Inr () else Inl ErrIo, w)))"

text \<open>\<open>write_to\<close> does not check the length: the cell is cut by \<open>to_bytes\<close>.\<close>

definition write_to :: "message \<Rightarrow> writer \<Rightarrow> (any_error + unit) \<times> writer" where
  "write_to m w =
     (let (cell, w) = next_cell m w; (ok, w) = write_all cell w
      in (if ok then Inr () else Inl IoErr, w))"

text \<open>Sending a list of messages, stopping at the first error.\<close>

fun write_msgs :: "message list \<Rightarrow> writer \<Rightarrow> (tor_error + unit) \<times> writer" where
  "write_msgs [] w = (Inr (), w)"
| "write_msgs (m # ms) w =
     (case write_to_stream m w of (Inl e, w') \<Rightarrow> (Inl e, w') | (Inr _, w') \<Rightarrow> write_msgs ms w')"

text \<open>
  The read loop of the relays and the client, up to the end of the stream or the first
  error; \<open>fuel\<close> bounds the number of cells read.
\<close>

fun read_msgs :: "nat \<Rightarrow> reader \<Rightarrow> message list \<times> any_error option" where
  "read_msgs 0 r = ([], None)"
| "read_msgs (Suc fuel) r =
     (case from_stream r of
        (Inl e, r') \<Rightarrow> ([], Some e)
      | (Inr None, r') \<Rightarrow> ([], None)
      | (Inr (Some m), r') \<Rightarrow> (let (ms, e) = read_msgs fuel r' in (m # ms, e)))"

lemma write_to_stream_ok:
  "msg_fits m \<Longrightarrow> wr_room w = None \<Longrightarrow>
   write_to_stream m w = (Inr (), w\<lparr>wr_bytes := wr_bytes w @ to_bytes (wr_rnd w) m,
     wr_rnd := (\<lambda>i. wr_rnd w (i + CELL_SIZE))\<rparr>)"
  by (simp add: write_to_stream_def msg_fits_def next_cell_def write_all_def)

lemma from_stream_cell:
  "msg_fits m \<Longrightarrow> from_stream \<lparr>rd_bytes = to_bytes rnd m @ bs, rd_broken = b\<rparr> =
     (Inr (Some m), \<lparr>rd_bytes = bs, rd_broken = b\<rparr>)"
  by (simp add: from_stream_def read_exact_def cell.enc_length cell.dec_enc)

lemma from_stream_end: "from_stream \<lparr>rd_bytes = [], rd_broken = False\<rparr> = (Inr None, \<lparr>rd_bytes = [], rd_broken = False\<rparr>)"
  by (simp add: from_stream_def read_exact_def CELL_SIZE_def)

lemma from_stream_shrinks:
  "from_stream rd = (Inr (Some m), rd') \<Longrightarrow> length (rd_bytes rd') + CELL_SIZE = length (rd_bytes rd)"
  by (auto simp: from_stream_def read_exact_def split: if_splits sum.splits read_error.splits)

lemma write_msgs_bytes:
  assumes "\<forall>m \<in> set ms. msg_fits m" "wr_room w = None"
  shows "\<exists>rnds w'. length rnds = length ms \<and> write_msgs ms w = (Inr (), w') \<and>
    wr_bytes w' = wr_bytes w @ concat (map2 to_bytes rnds ms)"
  using assms
proof (induction ms arbitrary: w)
  case (Cons m ms)
  define w1 where "w1 = snd (write_to_stream m w)"
  have w1: "write_to_stream m w = (Inr (), w1)" "wr_room w1 = None"
    "wr_bytes w1 = wr_bytes w @ to_bytes (wr_rnd w) m"
    using Cons.prems by (auto simp: w1_def write_to_stream_ok)
  obtain rnds w' where "length rnds = length ms" "write_msgs ms w1 = (Inr (), w')"
    "wr_bytes w' = wr_bytes w1 @ concat (map2 to_bytes rnds ms)"
    using Cons.IH [of w1] Cons.prems w1(2) by auto
  with w1 show ?case by (intro exI [of _ "wr_rnd w # rnds"] exI [of _ w']) simp
qed simp

lemma read_msgs_cells:
  "\<forall>m \<in> set ms. msg_fits m \<Longrightarrow> length rnds = length ms \<Longrightarrow> length ms < fuel \<Longrightarrow>
   read_msgs fuel \<lparr>rd_bytes = concat (map2 to_bytes rnds ms), rd_broken = False\<rparr> = (ms, None)"
proof (induction ms arbitrary: fuel rnds)
  case Nil
  then show ?case by (cases fuel) (auto simp: from_stream_end)
next
  case (Cons m ms)
  obtain r rnds' where r: "rnds = r # rnds'" using Cons.prems by (cases rnds) auto
  obtain f where f: "fuel = Suc f" using Cons.prems by (cases fuel) auto
  have "read_msgs f \<lparr>rd_bytes = concat (map2 to_bytes rnds' ms), rd_broken = False\<rparr> = (ms, None)"
    using Cons r f by simp
  with Cons.prems show ?case by (simp add: r f from_stream_cell)
qed

text \<open>
  C13. Framing: messages of at most 497 bytes written one after the other to a stream are
  read back by the receiving loop as the same messages in the same order, and the loop then
  sees the end of the stream and no error.
\<close>

theorem framing_roundtrip:
  assumes "\<forall>m \<in> set ms. msg_wf m \<and> length (data m) \<le> 497" "wr_room w = None" "wr_bytes w = []"
  shows "\<exists>w'. write_msgs ms w = (Inr (), w') \<and>
    read_msgs (Suc (length ms)) \<lparr>rd_bytes = wr_bytes w', rd_broken = False\<rparr> = (ms, None)"
proof -
  have fits: "\<forall>m \<in> set ms. msg_fits m" using assms(1) by (simp add: msg_fits_def MAX_PAYLOAD_SIZE_eq)
  obtain rnds w' where "length rnds = length ms" "write_msgs ms w = (Inr (), w')"
    "wr_bytes w' = concat (map2 to_bytes rnds ms)"
    using write_msgs_bytes [OF fits assms(2)] assms(3) by auto
  with read_msgs_cells [OF fits, of rnds "Suc (length ms)"] show ?thesis by auto
qed

theorem framing_roundtrip_witness:
  "\<exists>w'. write_msgs [msg_data 1 2 [3], msg_destroy 4] \<lparr>wr_bytes = [], wr_room = None, wr_rnd = of_nat\<rparr> = (Inr (), w') \<and>
    read_msgs 3 \<lparr>rd_bytes = wr_bytes w', rd_broken = False\<rparr> = ([msg_data 1 2 [3], msg_destroy 4], None)"
  using framing_roundtrip [of "[msg_data 1 2 [3], msg_destroy 4]" "\<lparr>wr_bytes = [], wr_room = None, wr_rnd = of_nat\<rparr>"]
  by (simp add: msg_wf_def msg_defs eval_nat_numeral)

text \<open>
  An oversized message is refused before anything is written: the error carries its
  size and the maximum, and the stream and its filler are unchanged.
\<close>

theorem write_to_stream_oversized:
  assumes "497 < length (data m)"
  shows "write_to_stream m w = (Inl (ErrPayloadTooLarge (length (data m)) 497), w)"
  using assms by (simp add: write_to_stream_def MAX_PAYLOAD_SIZE_eq)

theorem write_to_stream_oversized_witness:
  "fst (write_to_stream (msg_data 1 1 (replicate 498 0))
     \<lparr>wr_bytes = [], wr_room = None, wr_rnd = of_nat\<rparr>) = Inl (ErrPayloadTooLarge 498 497)"
  using write_to_stream_oversized [of "msg_data 1 1 (replicate 498 0)"] by (simp add: msg_defs)

end
