(* ===== verification/Tor_Crypto.thy ===== *)
theory Tor_Crypto
  imports Tor_Types
begin

text \<open>
  Cryptography (\<open>common/src/crypto.rs\<close>, \<open>common/src/tls.rs\<close>,
  \<open>relay-node/src/core/keypair.rs\<close>). The primitives of the external crates (AES-128-CTR
  keystream, SHA-256, HMAC-SHA-256, X25519) are the fields of a record \<open>prims\<close> that every
  definition takes as its first argument; what the sources rely on (output sizes, agreement
  of the two Diffie-Hellman computations) are the predicates \<open>prims_wf\<close> and \<open>dh_agrees\<close>.
  Random secrets are arguments.
\<close>

section \<open>The primitives\<close>

record prims =
  aes_ctr :: "bytes \<Rightarrow> bytes \<Rightarrow> nat \<Rightarrow> byte"  \<comment> \<open>key, IV, position in the keystream\<close>
  sha256_fn :: "bytes \<Rightarrow> bytes"
  hmac_fn :: "bytes \<Rightarrow> bytes \<Rightarrow> bytes"            \<comment> \<open>key, data\<close>
  dh_fn :: "bytes \<Rightarrow> bytes \<Rightarrow> bytes"              \<comment> \<open>secret, their public key\<close>
  dh_pub :: "bytes \<Rightarrow> bytes"                      \<comment> \<open>public key of a secret\<close>

definition prims_wf :: "prims \<Rightarrow> bool" where
  "prims_wf P = ((\<forall>d. length (sha256_fn P d) = 32) \<and> (\<forall>k d. length (hmac_fn P k d) = 32) \<and>
     (\<forall>s. length s = 32 \<longrightarrow> length (dh_pub P s) = 32) \<and>
     (\<forall>s p. length s = 32 \<longrightarrow> length p = 32 \<longrightarrow> length (dh_fn P s p) = 32))"

definition dh_agrees :: "prims \<Rightarrow> bool" where
  "dh_agrees P = (\<forall>a b. length a = 32 \<longrightarrow> length b = 32 \<longrightarrow> dh_fn P a (dh_pub P b) = dh_fn P b (dh_pub P a))"

text \<open>A concrete instance of the parameter, for the witnesses.\<close>

definition pad32 :: "bytes \<Rightarrow> bytes" where
  "pad32 d = take 32 (d @ replicate 32 0)"

definition toy_prims :: prims where
  "toy_prims = \<lparr>aes_ctr = (\<lambda>k iv i. foldr (+) k (of_nat i)),
     sha256_fn = (\<lambda>d. pad32 (rev d)), hmac_fn = (\<lambda>k d. pad32 (foldr (+) d (foldr (+) k 1) # d)),
     dh_fn = (\<lambda>s p. map2 (+) s p), dh_pub = (\<lambda>s. s)\<rparr>"

lemma length_pad32 [simp]: "length (pad32 d) = 32"
  by (simp add: pad32_def)

lemma toy_prims_ok [simp]: "prims_wf toy_prims" "dh_agrees toy_prims"
proof -
  have "map2 (+) a b = map2 (+) b a" for a b :: bytes
    by (induction a b rule: list_induct2') (auto simp: add.commute)
  then show "dh_agrees toy_prims" by (simp add: dh_agrees_def toy_prims_def)
qed (simp add: prims_wf_def toy_prims_def)

section \<open>Stream ciphers\<close>

text \<open>A stateful stream cipher: what the circuit code relies on.\<close>

locale stream_cipher =
  fixes apply_ks :: "'s \<Rightarrow> bytes \<Rightarrow> bytes \<times> 's"
  assumes ks_length: "length (fst (apply_ks s d)) = length d"
    and ks_state: "length d = length e \<Longrightarrow> snd (apply_ks s d) = snd (apply_ks s e)"
    and ks_involution: "fst (apply_ks s (fst (apply_ks s d))) = d"
begin

text \<open>Two ends in the same state stay in the same state and understand each other.\<close>

lemma sync: "apply_ks s d = (c, s') \<Longrightarrow> apply_ks s c = (d, s')"
  by (metis ks_length ks_state ks_involution fst_conv snd_conv prod.collapse)

lemma apply_inject: "length d = length e \<Longrightarrow> fst (apply_ks s d) = fst (apply_ks s e) \<Longrightarrow> d = e"
  by (metis ks_involution)

end

text \<open>
  The trait \<open>StatefulCipher\<close>: two stream ciphers on one state, neither of which disturbs
  the keystream of the other.
\<close>

locale stateful_cipher = fw: stream_cipher fwd + bw: stream_cipher bwd
  for fwd bwd :: "'s \<Rightarrow> bytes \<Rightarrow> bytes \<times> 's" +
  assumes indep_bwd: "fst (bwd (snd (fwd s d)) e) = fst (bwd s e)"
    and indep_fwd: "fst (fwd (snd (bwd s d)) e) = fst (fwd s e)"
    and comm: "snd (bwd (snd (fwd s d)) e) = snd (fwd (snd (bwd s e)) d)"
begin

text \<open>The two directions may interleave in any order.\<close>

lemma swap: "bwd (snd (fwd s d)) e = (fst (bwd s e), snd (fwd (snd (bwd s e)) d))"
  by (metis indep_bwd comm prod.collapse)

end

record ctr_cipher =
  ctr_key :: bytes
  ctr_iv :: bytes
  ctr_pos :: nat

definition ctr_new :: "bytes \<Rightarrow> bytes \<Rightarrow> ctr_cipher" where
  "ctr_new k iv = \<lparr>ctr_key = k, ctr_iv = iv, ctr_pos = 0\<rparr>"

definition ctr_stream :: "prims \<Rightarrow> ctr_cipher \<Rightarrow> nat \<Rightarrow> bytes" where
  "ctr_stream P c n = map (\<lambda>i. aes_ctr P (ctr_key c) (ctr_iv c) (ctr_pos c + i)) [0..<n]"

definition apply_keystream :: "prims \<Rightarrow> ctr_cipher \<Rightarrow> bytes \<Rightarrow> bytes \<times> ctr_cipher" where
  "apply_keystream P c d = (map2 (XOR) d (ctr_stream P c (length d)), c\<lparr>ctr_pos := ctr_pos c + length d\<rparr>)"

record session_key =
  sk_forward :: bytes
  sk_backward :: bytes

definition sk_wf :: "session_key \<Rightarrow> bool" where
  "sk_wf k = (length (sk_forward k) = 16 \<and> length (sk_backward k) = 16)"

definition sk_new :: "bytes \<Rightarrow> bytes \<Rightarrow> session_key" where
  "sk_new f b = \<lparr>sk_forward = f, sk_backward = b\<rparr>"

definition sk_from_shared :: "bytes \<Rightarrow> session_key" where
  "sk_from_shared s = sk_new (take 16 s) (take 16 (drop 16 s))"

definition sk_to_bytes :: "session_key \<Rightarrow> bytes" where
  "sk_to_bytes k = put_range (put_range (replicate 32 0) 0 (sk_forward k)) 16 (sk_backward k)"

definition sk_from_bytes :: "bytes \<Rightarrow> session_key" where
  "sk_from_bytes s = sk_new (take 16 s) (take 16 (drop 16 s))"

definition sk_zero :: session_key where
  "sk_zero = sk_new (replicate 16 0) (replicate 16 0)"

definition derive_session_key :: "bytes \<Rightarrow> session_key" where
  "derive_session_key s = sk_from_shared s"

record cipher_pair =
  cp_forward :: ctr_cipher
  cp_backward :: ctr_cipher

definition cipher_pair_new :: "session_key \<Rightarrow> cipher_pair" where
  "cipher_pair_new k =
     (let zero_iv = replicate 16 0 in
      \<lparr>cp_forward = ctr_new (sk_forward k) zero_iv, cp_backward = ctr_new (sk_backward k) zero_iv\<rparr>)"

definition apply_forward :: "prims \<Rightarrow> cipher_pair \<Rightarrow> bytes \<Rightarrow> bytes \<times> cipher_pair" where
  "apply_forward P c d =
     (let (d', f) = apply_keystream P (cp_forward c) d in (d', c\<lparr>cp_forward := f\<rparr>))"

definition apply_backward :: "prims \<Rightarrow> cipher_pair \<Rightarrow> bytes \<Rightarrow> bytes \<times> cipher_pair" where
  "apply_backward P c d =
     (let (d', b) = apply_keystream P (cp_backward c) d in (d', c\<lparr>cp_backward := b\<rparr>))"

lemma length_ctr_stream [simp]: "length (ctr_stream P c n) = n"
  by (simp add: ctr_stream_def)

lemma map2_xor_twice: "length k = length d \<Longrightarrow> map2 (XOR) (map2 (XOR) d k) k = (d :: bytes)"
  by (induction d k rule: list_induct2') (auto simp: xor.assoc)

interpretation ctr: stream_cipher "apply_keystream P" for P
  by unfold_locales (auto simp: apply_keystream_def map2_xor_twice)

interpretation pair: stateful_cipher "apply_forward P" "apply_backward P" for P
  by unfold_locales
    (auto simp: apply_forward_def apply_backward_def split_beta ctr.ks_length ctr.ks_involution
      cong: ctr.ks_state intro: ctr.ks_state)

section \<open>One-shot encryption\<close>

text \<open>\<open>aes_encrypt\<close> with its random IV as an argument, and \<open>aes_decrypt\<close>.\<close>

definition aes_encrypt :: "prims \<Rightarrow> bytes \<Rightarrow> bytes \<Rightarrow> bytes \<Rightarrow> bytes" where
  "aes_encrypt P iv d key = iv @ fst (apply_keystream P (ctr_new key iv) d)"

definition aes_decrypt :: "prims \<Rightarrow> bytes \<Rightarrow> bytes \<Rightarrow> any_error + bytes" where
  "aes_decrypt P d key =
     (if length d < 16
      then Inl (Msg (''Invalid ciphertext: length '' @ show_nat (length d) @ '' is too short (min 16)''))
      else case get_range d 0 16 of
        None \<Rightarrow> Inl (Msg ''Invalid ciphertext: missing IV (expected 16 bytes)'')
      | Some iv \<Rightarrow> (case get_range d 16 (length d) of
          None \<Rightarrow> Inl (Msg ''Invalid ciphertext: missing encrypted data'')
        | Some ct \<Rightarrow> Inr (fst (apply_keystream P (ctr_new key iv) ct))))"

section \<open>Running digest\<close>

text \<open>The hash state is what it has absorbed.\<close>

record running_digest =
  rd_absorbed :: bytes

definition running_digest_new :: running_digest where
  "running_digest_new = \<lparr>rd_absorbed = []\<rparr>"

definition rd_update :: "prims \<Rightarrow> running_digest \<Rightarrow> u16 \<Rightarrow> byte \<Rightarrow> bytes \<Rightarrow> bytes \<times> running_digest" where
  "rd_update P r sid cmd d =
     (let st = rd_absorbed r @ be16 sid;
          st = st @ [cmd];
          st = st @ d;
          tag = (case get_range (sha256_fn P st) 0 4 of None \<Rightarrow> [0, 0, 0, 0] | Some t \<Rightarrow> t)
      in (tag, \<lparr>rd_absorbed = st\<rparr>))"

definition rd_verify ::
  "prims \<Rightarrow> running_digest \<Rightarrow> u16 \<Rightarrow> byte \<Rightarrow> bytes \<Rightarrow> bytes \<Rightarrow> bool \<times> running_digest"
where
  "rd_verify P r sid cmd d expected =
     (let (computed, r') = rd_update P r sid cmd d in (computed = expected, r'))"

lemma length_rd_update [simp]: "length (fst (rd_update P r sid cmd d)) = 4"
  by (auto simp: rd_update_def Let_def get_range_def)

text \<open>
  A sender and a receiver whose digests agree: the tag of the sender verifies, and
  afterwards the digests agree again.
\<close>

lemma rd_verify_update:
  "rd_update P r sid cmd d = (tag, r') \<Longrightarrow> rd_verify P r sid cmd d tag = (True, r')"
  by (simp add: rd_verify_def)

section \<open>The ntor handshake\<close>

definition str_bytes :: "string \<Rightarrow> bytes" where
  "str_bytes s = map (\<lambda>c. of_char c) s"

definition PROTOID :: bytes where "PROTOID = str_bytes ''ntor-curve25519-sha256-1''"
definition t_key :: bytes where "t_key = PROTOID @ str_bytes '':key_extract''"
definition t_verify :: bytes where "t_verify = PROTOID @ str_bytes '':verify''"
definition t_mac :: bytes where "t_mac = PROTOID @ str_bytes '':mac''"
definition m_expand :: bytes where "m_expand = PROTOID @ str_bytes '':key_expand''"

text \<open>\<open>new_from_slice\<close> of HMAC takes keys of every length, so the fallback is never taken.\<close>

definition hmac_sha256 :: "prims \<Rightarrow> bytes \<Rightarrow> bytes \<Rightarrow> bytes" where
  "hmac_sha256 P key d = hmac_fn P key d"

definition raw_dh_static :: "prims \<Rightarrow> bytes \<Rightarrow> bytes \<Rightarrow> bytes" where
  "raw_dh_static P s p = dh_fn P s p"

definition build_secret_input :: "bytes \<Rightarrow> bytes \<Rightarrow> bytes \<Rightarrow> bytes \<Rightarrow> bytes \<Rightarrow> bytes" where
  "build_secret_input exp1 exp2 server_static_pub client_ephemeral_pub server_ephemeral_pub =
     exp1 @ exp2 @ server_static_pub @ client_ephemeral_pub @ server_ephemeral_pub @ PROTOID"

definition expand_key_seed :: "prims \<Rightarrow> bytes \<Rightarrow> session_key" where
  "expand_key_seed P key_seed =
     (let km = hmac_sha256 P m_expand key_seed in sk_new (take 16 km) (drop 16 km))"

text \<open>\<open>ntor_server\<close> with its fresh secret \<open>y\<close>: (ephemeral public key, AUTH, session key).\<close>

definition ntor_server :: "prims \<Rightarrow> bytes \<Rightarrow> bytes \<Rightarrow> bytes \<Rightarrow> bytes \<Rightarrow> bytes \<times> bytes \<times> session_key" where
  "ntor_server P y static_secret static_public client_ephemeral_pub =
     (let y_pub = dh_pub P y;
          exp1 = raw_dh_static P y client_ephemeral_pub;
          exp2 = raw_dh_static P static_secret client_ephemeral_pub;
          secret_input = build_secret_input exp1 exp2 static_public client_ephemeral_pub y_pub;
          key_seed = hmac_sha256 P t_key secret_input;
          verify = hmac_sha256 P t_verify secret_input;
          auth_input = verify @ static_public @ y_pub @ client_ephemeral_pub @ PROTOID @ str_bytes ''Server'';
          auth = hmac_sha256 P t_mac auth_input
      in (y_pub, auth, expand_key_seed P key_seed))"

definition ntor_client_finish_raw ::
  "prims \<Rightarrow> bytes \<Rightarrow> bytes \<Rightarrow> bytes \<Rightarrow> bytes \<Rightarrow> bytes \<Rightarrow> tor_error + session_key"
where
  "ntor_client_finish_raw P secret client_ephemeral_pub server_static_pub server_ephemeral_pub auth =
     (let exp1 = raw_dh_static P secret server_ephemeral_pub;
          exp2 = raw_dh_static P secret server_static_pub;
          secret_input = build_secret_input exp1 exp2 server_static_pub client_ephemeral_pub server_ephemeral_pub;
          key_seed = hmac_sha256 P t_key secret_input;
          verify = hmac_sha256 P t_verify secret_input;
          auth_input = verify @ server_static_pub @ server_ephemeral_pub @ client_ephemeral_pub
            @ PROTOID @ str_bytes ''Server'';
          expected_auth = hmac_sha256 P t_mac auth_input
      in if auth \<noteq> expected_auth then Inl ErrHandshakeAuthFailed
         else Inr (expand_key_seed P key_seed))"

section \<open>Key pairs\<close>

record key_pair =
  kp_public :: public_key
  kp_secret :: bytes

definition kp_wf :: "prims \<Rightarrow> key_pair \<Rightarrow> bool" where
  "kp_wf P kp = (length (kp_secret kp) = 32 \<and> pk_bytes (kp_public kp) = dh_pub P (kp_secret kp))"

text \<open>\<open>KeyPair::generate\<close> and \<open>NtorEphemeralKeyPair::generate\<close> on the random secret they draw.\<close>

definition kp_generate :: "prims \<Rightarrow> bytes \<Rightarrow> key_pair" where
  "kp_generate P s = \<lparr>kp_public = \<lparr>pk_bytes = dh_pub P s\<rparr>, kp_secret = s\<rparr>"

definition kp_from_secret_bytes :: "prims \<Rightarrow> bytes \<Rightarrow> key_pair" where
  "kp_from_secret_bytes P s = \<lparr>kp_public = \<lparr>pk_bytes = dh_pub P s\<rparr>, kp_secret = s\<rparr>"

definition kp_ntor_server_handshake :: "prims \<Rightarrow> bytes \<Rightarrow> key_pair \<Rightarrow> bytes \<Rightarrow> bytes \<times> bytes \<times> session_key" where
  "kp_ntor_server_handshake P y kp client_pub =
     ntor_server P y (kp_secret kp) (pk_bytes (kp_public kp)) client_pub"

text \<open>\<open>EphemeralKeyPair::diffie_hellman\<close>: the shared secret, hashed.\<close>

definition ephemeral_diffie_hellman :: "prims \<Rightarrow> key_pair \<Rightarrow> bytes \<Rightarrow> bytes" where
  "ephemeral_diffie_hellman P kp their_public = sha256_fn P (dh_fn P (kp_secret kp) their_public)"

section \<open>TLS certificates\<close>

definition compute_cert_fingerprint :: "prims \<Rightarrow> bytes \<Rightarrow> string" where
  "compute_cert_fingerprint P der = concat (map hex2 (sha256_fn P der))"

definition eq_ignore_ascii_case :: "string \<Rightarrow> string \<Rightarrow> bool" where
  "eq_ignore_ascii_case a b = (to_lower a = to_lower b)"

text \<open>\<open>FingerprintVerifier\<close>: only the end-entity certificate counts.\<close>

definition verify_server_cert :: "prims \<Rightarrow> string \<Rightarrow> bytes \<Rightarrow> bytes list \<Rightarrow> string + unit" where
  "verify_server_cert P expected end_entity intermediates =
     (let actual = compute_cert_fingerprint P end_entity in
      if eq_ignore_ascii_case actual expected then Inr ()
      else Inl (''Certificate fingerprint mismatch: expected '' @ expected @ '', got '' @ actual))"

definition verify_tls12_signature :: "bytes \<Rightarrow> bytes \<Rightarrow> bytes \<Rightarrow> string + unit" where
  "verify_tls12_signature message cert dss = Inr ()"

definition verify_tls13_signature :: "bytes \<Rightarrow> bytes \<Rightarrow> bytes \<Rightarrow> string + unit" where
  "verify_tls13_signature message cert dss = Inr ()"

definition server_name_from_addr :: "socket_addr \<Rightarrow> ip_addr" where
  "server_name_from_addr a = sa_ip a"

section \<open>Properties\<close>

text \<open>A sequence of uses of a cipher pair; \<open>True\<close> marks the forward direction.\<close>

fun run_pair :: "prims \<Rightarrow> cipher_pair \<Rightarrow> (bool \<times> bytes) list \<Rightarrow> bytes list \<times> cipher_pair" where
  "run_pair P c [] = ([], c)"
| "run_pair P c ((fwd, d) # ops) =
     (let (d', c') = (if fwd then apply_forward P c d else apply_backward P c d);
          (ds, c'') = run_pair P c' ops
      in (d' # ds, c''))"

lemma run_pair_sync:
  "run_pair P c ops = (outs, c') \<Longrightarrow> run_pair P c (zip (map fst ops) outs) = (map snd ops, c')"
proof (induction ops arbitrary: c outs c')
  case (Cons op ops)
  obtain fwd d where op: "op = (fwd, d)" by force
  obtain d1 c1 where 1: "(if fwd then apply_forward P c d else apply_backward P c d) = (d1, c1)" by force
  obtain ds c2 where 2: "run_pair P c1 ops = (ds, c2)" by force
  from Cons.prems 1 2 have outs: "outs = d1 # ds" "c' = c2" by (auto simp: op Let_def)
  have "(if fwd then apply_forward P c d1 else apply_backward P c d1) = (d, c1)"
    using 1 pair.fw.sync [of P c d d1 c1] pair.bw.sync [of P c d d1 c1] by (cases fwd) simp_all
  with Cons.IH [OF 2] show ?case by (simp add: op outs)
qed simp

lemma run_pair_lengths:
  "run_pair P c ops = (outs, c') \<Longrightarrow> map length outs = map (\<lambda>op. length (snd op)) ops"
proof (induction ops arbitrary: c outs c')
  case (Cons op ops)
  obtain fwd d where op: "op = (fwd, d)" by force
  obtain d1 c1 where 1: "(if fwd then apply_forward P c d else apply_backward P c d) = (d1, c1)" by force
  obtain ds c2 where 2: "run_pair P c1 ops = (ds, c2)" by force
  from Cons.prems 1 2 have outs: "outs = d1 # ds" "c' = c2" by (auto simp: op Let_def)
  have "length d1 = length d"
    using 1 pair.fw.ks_length [of P c d] pair.bw.ks_length [of P c d] by (auto split: if_splits)
  with Cons.IH [of c1 ds] 2 outs show ?case by (simp add: op)
qed simp

text \<open>
  Two ends that hold the same cipher pair stay synchronized: when one applies any
  interleaving of forward and backward operations and the other applies the same
  directions to the results, the other recovers every plaintext, and both end in the same
  state. Every result has the length of its input.
\<close>

theorem cipher_pair_sync:
  assumes "run_pair P c ops = (outs, c')"
  shows "run_pair P c (zip (map fst ops) outs) = (map snd ops, c') \<and>
    map length outs = map (\<lambda>op. length (snd op)) ops"
proof
  show "run_pair P c (zip (map fst ops) outs) = (map snd ops, c')" using assms by (rule run_pair_sync)
  show "map length outs = map (\<lambda>op. length (snd op)) ops" using assms by (rule run_pair_lengths)
qed

theorem cipher_pair_sync_witness:
  "run_pair toy_prims (cipher_pair_new sk_zero)
     (zip [True, False, True] (fst (run_pair toy_prims (cipher_pair_new sk_zero) [(True, [1, 2]), (False, [3]), (True, [4])])))
   = ([[1, 2], [3], [4]],
      snd (run_pair toy_prims (cipher_pair_new sk_zero) [(True, [1, 2]), (False, [3]), (True, [4])]))"
  using cipher_pair_sync [of toy_prims "cipher_pair_new sk_zero" "[(True, [1, 2]), (False, [3]), (True, [4])]"
    "fst (run_pair toy_prims (cipher_pair_new sk_zero) [(True, [1, 2]), (False, [3]), (True, [4])])"
    "snd (run_pair toy_prims (cipher_pair_new sk_zero) [(True, [1, 2]), (False, [3]), (True, [4])])"]
  by simp

text \<open>The handshake as a contract between its two sides.\<close>

locale ntor_handshaker =
  fixes server :: "bytes \<Rightarrow> bytes \<Rightarrow> bytes \<Rightarrow> bytes \<Rightarrow> bytes \<times> bytes \<times> session_key"
    and client :: "bytes \<Rightarrow> bytes \<Rightarrow> bytes \<Rightarrow> bytes \<Rightarrow> bytes \<Rightarrow> tor_error + session_key"
    and pub :: "bytes \<Rightarrow> bytes"
    and agree :: bool
  assumes complete: "agree \<Longrightarrow> length x = 32 \<Longrightarrow> length b = 32 \<Longrightarrow> length y = 32 \<Longrightarrow>
      server y b (pub b) (pub x) = (y_pub, auth, k) \<Longrightarrow> client x (pub x) (pub b) y_pub auth = Inr k"
    and rejects: "client x x_pub b_pub y_pub auth = Inr k \<Longrightarrow> auth' \<noteq> auth \<Longrightarrow>
      client x x_pub b_pub y_pub auth' = Inl ErrHandshakeAuthFailed"
begin

text \<open>Exactly one AUTH value makes the client accept, and it then holds the server's key.\<close>

lemma accepts_exactly:
  assumes "agree" "length x = 32" "length b = 32" "length y = 32"
    and "server y b (pub b) (pub x) = (y_pub, auth, k)"
  shows "client x (pub x) (pub b) y_pub a = (if a = auth then Inr k else Inl ErrHandshakeAuthFailed)"
  using complete [OF assms] rejects by auto

end

interpretation ntor: ntor_handshaker "ntor_server P" "ntor_client_finish_raw P" "dh_pub P" "dh_agrees P" for P
proof
  fix x b y y_pub auth :: bytes and k
  assume "dh_agrees P" "length x = 32" "length b = 32" "length y = 32"
    and s: "ntor_server P y b (dh_pub P b) (dh_pub P x) = (y_pub, auth, k)"
  then have dh: "dh_fn P y (dh_pub P x) = dh_fn P x (dh_pub P y)"
    "dh_fn P b (dh_pub P x) = dh_fn P x (dh_pub P b)"
    by (auto simp: dh_agrees_def)
  show "ntor_client_finish_raw P x (dh_pub P x) (dh_pub P b) y_pub auth = Inr k"
    using s by (auto simp: ntor_server_def ntor_client_finish_raw_def raw_dh_static_def Let_def dh)
qed (auto simp: ntor_client_finish_raw_def Let_def split: if_splits)

lemma ntor_agreement:
  assumes "prims_wf P" "dh_agrees P" "kp_wf P relay" "kp_wf P client" "length y = 32"
    and "kp_ntor_server_handshake P y relay (pk_bytes (kp_public client)) = (y_pub, auth, k)"
  shows "ntor_client_finish_raw P (kp_secret client) (pk_bytes (kp_public client))
      (pk_bytes (kp_public relay)) y_pub a = (if a = auth then Inr k else Inl ErrHandshakeAuthFailed) \<and>
    sk_wf k \<and> length y_pub = 32 \<and> length auth = 32"
proof -
  have "ntor_server P y (kp_secret relay) (dh_pub P (kp_secret relay)) (dh_pub P (kp_secret client)) = (y_pub, auth, k)"
    using assms by (simp add: kp_ntor_server_handshake_def kp_wf_def)
  from ntor.accepts_exactly [OF assms(2) _ _ assms(5) this] this assms show ?thesis
    by (auto simp: kp_wf_def prims_wf_def ntor_server_def Let_def hmac_sha256_def expand_key_seed_def
        sk_wf_def sk_new_def)
qed

text \<open>
  C15. Handshake: when the client knows the relay's static public key, the relay's answer to
  the client's ephemeral key makes the client derive the relay's session key, of two
  16-byte halves; every other AUTH value is rejected with \<open>HandshakeAuthFailed\<close>.
\<close>

theorem ntor_handshake_agreement:
  assumes "prims_wf P" "dh_agrees P" "kp_wf P relay" "kp_wf P client" "length y = 32"
    and "kp_ntor_server_handshake P y relay (pk_bytes (kp_public client)) = (y_pub, auth, k)"
  shows "ntor_client_finish_raw P (kp_secret client) (pk_bytes (kp_public client))
      (pk_bytes (kp_public relay)) y_pub a = (if a = auth then Inr k else Inl ErrHandshakeAuthFailed) \<and>
    sk_wf k \<and> length y_pub = 32 \<and> length auth = 32"
  using ntor_agreement [OF assms] .

theorem ntor_handshake_agreement_witness:
  "let relay = kp_generate toy_prims (replicate 32 3); client = kp_generate toy_prims (replicate 32 5);
       (y_pub, auth, k) = kp_ntor_server_handshake toy_prims (replicate 32 9) relay (pk_bytes (kp_public client))
   in ntor_client_finish_raw toy_prims (kp_secret client) (pk_bytes (kp_public client))
        (pk_bytes (kp_public relay)) y_pub auth = Inr k"
proof -
  have wf: "kp_wf toy_prims (kp_generate toy_prims (replicate 32 n))" for n
    by (simp add: kp_wf_def kp_generate_def)
  show ?thesis
    unfolding Let_def split_beta
    using ntor_handshake_agreement [OF toy_prims_ok wf wf, of "replicate 32 9" 3 5] by (metis length_replicate prod.collapse)
qed

text \<open>
  The TLS verifier accepts a certificate exactly when the SHA-256 fingerprint of its DER
  bytes is the expected one up to letter case; the other certificates presented do not
  matter, and a refused certificate is reported with both fingerprints. (The handshake
  signature is never checked: \<open>tls_signature_unchecked\<close>.)
\<close>

theorem fingerprint_verifier:
  "verify_server_cert P expected der chain =
     (if to_lower (compute_cert_fingerprint P der) = to_lower expected then Inr ()
      else Inl (''Certificate fingerprint mismatch: expected '' @ expected @ '', got '' @ compute_cert_fingerprint P der)) \<and>
   verify_server_cert P (compute_cert_fingerprint P der) der chain = Inr ()"
  by (simp add: verify_server_cert_def eq_ignore_ascii_case_def Let_def)

lemma hex2_inject: "hex2 a = hex2 b \<Longrightarrow> a = b"
  using from_str_hex2 [of a] from_str_hex2 [of b] by (simp add: word_unat_eq_iff)

lemma concat_hex2_inject: "concat (map hex2 as) = concat (map hex2 bs) \<Longrightarrow> as = bs"
proof (induction as arbitrary: bs)
  case Nil
  then show ?case by (cases bs) (auto simp: hex2_def)
next
  case (Cons a as)
  then obtain b bs' where bs: "bs = b # bs'" by (cases bs) (auto simp: hex2_def)
  have "length (hex2 a) = length (hex2 b)" by (simp add: hex2_def)
  with Cons.prems have "hex2 a = hex2 b" "concat (map hex2 as) = concat (map hex2 bs')"
    by (simp_all add: bs)
  with Cons.IH show ?case by (simp add: bs hex2_inject)
qed

lemma tls_signature_unchecked:
  "verify_tls12_signature m c d = Inr () \<and> verify_tls13_signature m c d = Inr ()"
  by (simp add: verify_tls12_signature_def verify_tls13_signature_def)

lemma sk_bytes_roundtrip:
  "sk_wf k \<Longrightarrow> length (sk_to_bytes k) = 32 \<and> sk_from_bytes (sk_to_bytes k) = k"
  by (cases k) (simp add: sk_wf_def sk_to_bytes_def sk_from_bytes_def sk_new_def put_range_def)

text \<open>
  One-shot encryption: the ciphertext is the 16-byte IV and as many bytes as the
  plaintext, and decrypting it with the same key gives the plaintext back; anything shorter
  than an IV is an error.
\<close>

theorem aes_roundtrip:
  assumes "length iv = 16"
  shows "length (aes_encrypt P iv d key) = 16 + length d \<and> aes_decrypt P (aes_encrypt P iv d key) key = Inr d \<and>
    (length c < 16 \<longrightarrow> \<not> is_ok (aes_decrypt P c key))"
proof -
  let ?ct = "fst (apply_keystream P (ctr_new key iv) d)"
  have len: "length ?ct = length d" by (rule ctr.ks_length)
  then have "get_range (iv @ ?ct) 0 16 = Some iv" "get_range (iv @ ?ct) 16 (16 + length d) = Some ?ct"
    using assms by (simp_all add: get_range_def)
  with assms len show ?thesis
    by (simp add: aes_encrypt_def aes_decrypt_def ctr.ks_involution)
qed

theorem aes_roundtrip_witness:
  "aes_decrypt toy_prims (aes_encrypt toy_prims (replicate 16 1) [1, 2, 3] [9]) [9] = Inr [1, 2, 3]"
  using aes_roundtrip [of "replicate 16 1" toy_prims "[1, 2, 3]" "[9]" "[]"] by simp

end
