(* ===== verification/Tor_Metrics.thy ===== *)
theory Tor_Metrics
  imports Tor_Protocol
begin

text \<open>
  Metrics shared by the services (\<open>common/src/metrics.rs\<close>) and those of the relay
  (\<open>relay-node/src/core/metrics.rs\<close>): the bounded event buffer, the text of byte counts,
  durations and events, and the counters, which wrap at 64 bits like \<open>fetch_add\<close>. Times
  are natural numbers of nanoseconds. Text with characters outside ASCII is given by its
  UTF-8 bytes.
\<close>

section \<open>The event buffer\<close>

record 'e tui_event =
  ev_elapsed :: nat
  ev_kind :: 'e

record 'e event_buffer =
  eb_events :: "'e tui_event list"
  eb_capacity :: nat
  eb_start_time :: nat

definition eb_new :: "nat \<Rightarrow> nat \<Rightarrow> 'e event_buffer" where
  "eb_new now cap = \<lparr>eb_events = [], eb_capacity = cap, eb_start_time = now\<rparr>"

text \<open>\<open>pop_front\<close> of an empty deque does nothing, as \<open>tl\<close>.\<close>

definition eb_push :: "nat \<Rightarrow> 'e \<Rightarrow> 'e event_buffer \<Rightarrow> 'e event_buffer" where
  "eb_push now kind b =
     (let elapsed = now - eb_start_time b;
          evs = (if eb_capacity b \<le> length (eb_events b) then tl (eb_events b) else eb_events b)
      in b\<lparr>eb_events := evs @ [\<lparr>ev_elapsed = elapsed, ev_kind = kind\<rparr>]\<rparr>)"

definition eb_snapshot :: "('e tui_event \<Rightarrow> 't) \<Rightarrow> 'e event_buffer \<Rightarrow> 't list" where
  "eb_snapshot f b = map f (eb_events b)"

definition eb_len :: "'e event_buffer \<Rightarrow> nat" where
  "eb_len b = length (eb_events b)"

definition eb_is_empty :: "'e event_buffer \<Rightarrow> bool" where
  "eb_is_empty b = (eb_len b = 0)"

section \<open>Text\<close>

datatype direction = Forward | Backward

fun show_direction :: "direction \<Rightarrow> string" where
  "show_direction Forward = ''fwd''"
| "show_direction Backward = ''bwd''"

text \<open>Division rounded to the nearest, ties to even.\<close>

definition round_div :: "nat \<Rightarrow> nat \<Rightarrow> nat" where
  "round_div n d =
     (let q = n div d; r = n mod d in
      if d < 2 * r \<or> (2 * r = d \<and> odd q) then q + 1 else q)"

text \<open>
  The value of \<open>n as f64\<close> (53 significant bits): for a 64-bit \<open>n\<close> at most eleven low bits
  are rounded away. \<open>{:.1}\<close> then prints the exact value of the quotient by a power of two
  rounded to one decimal.
\<close>

fun f64_of :: "nat \<Rightarrow> nat \<Rightarrow> nat" where
  "f64_of 0 n = n"
| "f64_of (Suc k) n = (if 2 ^ (53 + k) \<le> n then round_div n (2 ^ Suc k) * 2 ^ Suc k else f64_of k n)"

definition show_tenths :: "nat \<Rightarrow> nat \<Rightarrow> string" where
  "show_tenths n unit =
     (let t = round_div (f64_of 11 n * 10) unit in show_nat (t div 10) @ ''.'' @ show_nat (t mod 10))"

definition format_bytes :: "u64 \<Rightarrow> string" where
  "format_bytes bs =
     (let KB = 1024; MB = 1024 * KB; GB = 1024 * MB in
      if GB \<le> bs then show_tenths (unat bs) (unat GB) @ '' GB''
      else if MB \<le> bs then show_tenths (unat bs) (unat MB) @ '' MB''
      else if KB \<le> bs then show_tenths (unat bs) (unat KB) @ '' KB''
      else show_nat (unat bs) @ '' B'')"

definition as_secs :: "nat \<Rightarrow> nat" where
  "as_secs d = d div 1000000000"

definition format_duration :: "nat \<Rightarrow> string" where
  "format_duration d =
     (let secs = as_secs d in
      if secs < 60 then show_nat secs @ ''s''
      else if secs < 3600 then show_nat (secs div 60) @ ''m'' @ show_nat (secs mod 60) @ ''s''
      else show_nat (secs div 3600) @ ''h'' @ show_nat ((secs mod 3600) div 60) @ ''m'')"

text \<open>\<open>{:02}\<close>.\<close>

definition pad2 :: "nat \<Rightarrow> string" where
  "pad2 n = (if n < 10 then ''0'' @ show_nat n else show_nat n)"

definition format_timestamp :: "nat \<Rightarrow> string" where
  "format_timestamp d =
     (let secs = as_secs d; h = secs div 3600; m = (secs mod 3600) div 60; s = secs mod 60
      in ''+'' @ show_nat h @ '':'' @ pad2 m @ '':'' @ pad2 s)"

section \<open>Relay metrics\<close>

datatype relay_event =
    ConnectionAccepted string
  | ConnectionClosed string
  | CircuitCreated u32
  | CircuitExtended u32 string
  | CircuitDestroyed u32
  | RelayForward u32 message_command nat
  | RelayBackward u32 message_command nat
  | StreamOpened u32 u16 string
  | StreamClosed u32 u16
  | StreamData u32 u16 nat direction
  | ErrorEvent string

record relay_metrics =
  rm_connections_accepted :: u64
  rm_circuits_created :: u64
  rm_circuits_destroyed :: u64
  rm_bytes_forwarded :: u64
  rm_bytes_received :: u64
  rm_streams_opened :: u64
  rm_events :: "relay_event event_buffer"
  rm_start_time :: nat

definition EVENT_BUFFER_CAPACITY :: nat where "EVENT_BUFFER_CAPACITY = 200"

definition relay_metrics_new :: "nat \<Rightarrow> relay_metrics" where
  "relay_metrics_new now = \<lparr>rm_connections_accepted = 0, rm_circuits_created = 0,
     rm_circuits_destroyed = 0, rm_bytes_forwarded = 0, rm_bytes_received = 0, rm_streams_opened = 0,
     rm_events = eb_new now EVENT_BUFFER_CAPACITY, rm_start_time = now\<rparr>"

definition rm_push_event :: "nat \<Rightarrow> relay_event \<Rightarrow> relay_metrics \<Rightarrow> relay_metrics" where
  "rm_push_event now k m = m\<lparr>rm_events := eb_push now k (rm_events m)\<rparr>"

definition rm_uptime :: "nat \<Rightarrow> relay_metrics \<Rightarrow> nat" where
  "rm_uptime now m = now - rm_start_time m"

definition arrow_left :: string where "arrow_left = [CHR 0xE2, CHR 0x86, CHR 0x90]"
definition arrow_right :: string where "arrow_right = [CHR 0xE2, CHR 0x86, CHR 0x92]"
definition arrow_both :: string where "arrow_both = [CHR 0xE2, CHR 0x86, CHR 0x94]"
definition em_dash :: string where "em_dash = [CHR 0xE2, CHR 0x80, CHR 0x94]"
definition gear_sign :: string where "gear_sign = [CHR 0xE2, CHR 0x9A, CHR 0x99]"
definition ballot_x :: string where "ballot_x = [CHR 0xE2, CHR 0x9C, CHR 0x97]"

definition show_u32 :: "u32 \<Rightarrow> string" where "show_u32 w = show_nat (unat w)"
definition show_u16 :: "u16 \<Rightarrow> string" where "show_u16 w = show_nat (unat w)"

fun format_event_string :: "relay_event \<Rightarrow> string" where
  "format_event_string (ConnectionAccepted peer) = arrow_left @ '' ACCEPT    from '' @ peer"
| "format_event_string (ConnectionClosed peer) = em_dash @ '' CLOSED    conn from '' @ peer"
| "format_event_string (CircuitCreated c) = gear_sign @ '' CREATE    cid='' @ show_u32 c"
| "format_event_string (CircuitExtended c hop) =
     arrow_right @ '' EXTEND    cid='' @ show_u32 c @ '' '' @ arrow_right @ '' '' @ hop"
| "format_event_string (CircuitDestroyed c) = ballot_x @ '' DESTROY   cid='' @ show_u32 c"
| "format_event_string (RelayForward c cmd n) =
     arrow_right @ '' RELAY'' @ arrow_right @ ''    cid='' @ show_u32 c @ '' '' @ show_command cmd @ '' ['' @
     format_bytes (word_of_nat n) @ '']''"
| "format_event_string (RelayBackward c cmd n) =
     arrow_left @ '' RELAY'' @ arrow_left @ ''    cid='' @ show_u32 c @ '' '' @ show_command cmd @ '' ['' @
     format_bytes (word_of_nat n) @ '']''"
| "format_event_string (StreamOpened c s d) =
     arrow_right @ '' STREAM    cid='' @ show_u32 c @ '' sid='' @ show_u16 s @ '' '' @ arrow_right @ '' '' @ d"
| "format_event_string (StreamClosed c s) =
     em_dash @ '' END       cid='' @ show_u32 c @ '' sid='' @ show_u16 s"
| "format_event_string (StreamData c s n dir) =
     arrow_both @ '' DATA      cid='' @ show_u32 c @ '' sid='' @ show_u16 s @ '' ['' @ format_bytes (word_of_nat n) @ '']''"
| "format_event_string (ErrorEvent m) = ballot_x @ '' ERROR     '' @ m"

text \<open>\<open>event_snapshot\<close>: the twenty newest events, newest first, for the heartbeat.\<close>

definition rm_event_snapshot :: "relay_metrics \<Rightarrow> string list" where
  "rm_event_snapshot m =
     take 20 (rev (eb_snapshot (\<lambda>e. ''['' @ format_timestamp (ev_elapsed e) @ ''] '' @ format_event_string (ev_kind e))
       (rm_events m)))"

section \<open>Properties\<close>

fun eb_push_all :: "(nat \<times> 'e) list \<Rightarrow> 'e event_buffer \<Rightarrow> 'e event_buffer" where
  "eb_push_all [] b = b"
| "eb_push_all ((now, k) # ks) b = eb_push_all ks (eb_push now k b)"

lemma eb_push_fields [simp]:
  "eb_capacity (eb_push now k b) = eb_capacity b" "eb_start_time (eb_push now k b) = eb_start_time b"
  by (simp_all add: eb_push_def Let_def)

lemma eb_push_suffix:
  assumes "0 < eb_capacity b" "eb_events b = drop (length xs - eb_capacity b) xs"
  shows "eb_events (eb_push now k b) =
    drop (length (xs @ [\<lparr>ev_elapsed = now - eb_start_time b, ev_kind = k\<rparr>]) - eb_capacity b)
      (xs @ [\<lparr>ev_elapsed = now - eb_start_time b, ev_kind = k\<rparr>])"
  using assms by (cases "eb_capacity b \<le> length xs")
    (auto simp: eb_push_def Let_def tl_drop drop_Suc [symmetric] Suc_diff_le)

lemma eb_push_all_suffix:
  "0 < eb_capacity b \<Longrightarrow> eb_events b = drop (length xs - eb_capacity b) xs \<Longrightarrow>
   eb_events (eb_push_all ks b) =
     (let all = xs @ map (\<lambda>(now, k). \<lparr>ev_elapsed = now - eb_start_time b, ev_kind = k\<rparr>) ks
      in drop (length all - eb_capacity b) all)"
proof (induction ks arbitrary: b xs)
  case (Cons p ks)
  obtain now k where p: "p = (now, k)" by force
  show ?case
    using Cons.IH [of "eb_push now k b" "xs @ [\<lparr>ev_elapsed = now - eb_start_time b, ev_kind = k\<rparr>]"]
      Cons.prems eb_push_suffix [OF Cons.prems, of now k]
    by (simp add: p Let_def)
qed (simp add: Let_def)

text \<open>
  The event buffer is a ring: after any pushes it holds exactly the newest events, as many
  as fit its capacity, in the order they were pushed, each with its time since the start;
  the heartbeat snapshot of the relay never has more than twenty lines.
\<close>

theorem event_buffer_ring:
  assumes "0 < cap"
  shows "(let all = map (\<lambda>(now, k). \<lparr>ev_elapsed = now - t, ev_kind = k\<rparr>) ks;
              b = eb_push_all ks (eb_new t cap)
          in eb_events b = drop (length all - cap) all \<and> eb_len b = min cap (length ks)) \<and>
    length (rm_event_snapshot m) \<le> 20"
  using eb_push_all_suffix [of "eb_new t cap" "[]" ks] assms
  by (auto simp: Let_def eb_new_def eb_len_def rm_event_snapshot_def)

theorem event_buffer_ring_witness:
  "eb_events (eb_push_all [(5, ''a''), (6, ''b''), (9, ''c'')] (eb_new 4 2)) =
     [\<lparr>ev_elapsed = 2, ev_kind = ''b''\<rparr>, \<lparr>ev_elapsed = 5, ev_kind = ''c''\<rparr>]"
  using event_buffer_ring [of 2 4 "[(5, ''a''), (6, ''b''), (9, ''c'')]"] by (simp add: Let_def)

text \<open>Below \<open>2^53\<close> the conversion to \<open>f64\<close> is exact; the samples are those of the unit tests.\<close>

lemma f64_of_small: "n < 2 ^ 53 \<Longrightarrow> f64_of k n = n"
proof (induction k)
  case (Suc k)
  have "(2 :: nat) ^ 53 \<le> 2 ^ (53 + k)" by (rule power_increasing) auto
  with Suc.prems have "\<not> 2 ^ (53 + k) \<le> n" by linarith
  with Suc show ?case by simp
qed simp

lemma format_bytes_samples:
  "format_bytes 512 = ''512 B''" "format_bytes 1536 = ''1.5 KB''" "format_bytes 1048576 = ''1.0 MB''"
  by (simp_all add: format_bytes_def show_tenths_def round_div_def Let_def f64_of_small show_nat.simps digit_char_def char_of_def bit_0)

lemma format_time_samples:
  "format_duration 150000000000 = ''2m30s''" "format_timestamp 3912000000000 = ''+1:05:12''"
  by (simp_all add: format_duration_def format_timestamp_def as_secs_def pad2_def Let_def show_nat.simps digit_char_def char_of_def bit_0)

end
