(* ===== verification/Onion_Keys.thy ===== *)
theory Onion_Keys
  imports Tor_Crypto
begin

text \<open>
  The onion layers of the client (\<open>tor-client/src/core/crypto_engine.rs\<close>): one cipher pair
  per hop, entry first, and the two running digests it shares with the exit. The layering
  lemmas are proved once for any \<open>stream_cipher\<close>: applying the layers from the innermost
  out and peeling them from the outermost in gives the data back and leaves both ends in
  the same state, over any number of hops.
\<close>

section \<open>Layers\<close>

text \<open>Apply one cipher after the other, in list order.\<close>

fun apply_each :: "('s \<Rightarrow> bytes \<Rightarrow> bytes \<times> 's) \<Rightarrow> 's list \<Rightarrow> bytes \<Rightarrow> bytes \<times> 's list" where
  "apply_each ap [] d = (d, [])"
| "apply_each ap (c # cs) d =
     (let (d1, c1) = ap c d; (d2, cs1) = apply_each ap cs d1 in (d2, c1 # cs1))"

lemma apply_each_append:
  "apply_each ap (as @ bs) d =
     (let (d1, as1) = apply_each ap as d; (d2, bs1) = apply_each ap bs d1 in (d2, as1 @ bs1))"
  by (induction ap as d rule: apply_each.induct) (auto simp: Let_def split: prod.splits)

lemma length_apply_each [simp]: "length (snd (apply_each ap cs d)) = length cs"
  by (induction ap cs d rule: apply_each.induct) (auto simp: Let_def split: prod.splits)

context stream_cipher
begin

lemma each_length: "length (fst (apply_each apply_ks cs d)) = length d"
proof (induction cs arbitrary: d)
  case (Cons c cs)
  obtain d1 c1 where "apply_ks c d = (d1, c1)" by force
  then show ?case using Cons.IH [of d1] ks_length [of c d] by (auto simp: Let_def split: prod.splits)
qed simp

text \<open>The states after a pass depend on the length of the data only.\<close>

lemma each_state: "length d = length e \<Longrightarrow> snd (apply_each apply_ks cs d) = snd (apply_each apply_ks cs e)"
proof (induction cs arbitrary: d e)
  case (Cons c cs)
  have "length (fst (apply_ks c d)) = length (fst (apply_ks c e))" using Cons.prems by (simp add: ks_length)
  from Cons.IH [OF this] ks_state [OF Cons.prems, of c] show ?case by (simp add: Let_def split_beta)
qed simp

lemma peel_layers:
  assumes "apply_each apply_ks (rev cs) d = (c, cs')"
  shows "apply_each apply_ks cs c = (d, rev cs')"
  using assms
proof (induction cs arbitrary: d c cs')
  case (Cons x xs)
  obtain d1 ys where inner: "apply_each apply_ks (rev xs) d = (d1, ys)" by force
  obtain d2 x1 where outer: "apply_ks x d1 = (d2, x1)" by force
  from Cons.prems inner outer have "c = d2" "cs' = ys @ [x1]"
    by (auto simp: apply_each_append Let_def)
  with Cons.IH [OF inner] sync [OF outer] show ?case by (simp add: Let_def)
qed simp

text \<open>The same, in the direction in which the hops add their layers one after the other.\<close>

lemma peel_layers_rev:
  assumes "apply_each apply_ks cs d = (c, cs')"
  shows "apply_each apply_ks (rev cs) c = (d, rev cs')"
  using peel_layers [of "rev cs" d c cs'] assms by simp

end

section \<open>The keys of a circuit\<close>

record onion_keys =
  ok_session_keys :: "session_key list"
  ok_ciphers :: "cipher_pair list"
  ok_forward_digest :: running_digest
  ok_backward_digest :: running_digest

definition onion_keys_new :: "session_key list \<Rightarrow> cipher_pair list \<Rightarrow> onion_keys" where
  "onion_keys_new ks cs = \<lparr>ok_session_keys = ks, ok_ciphers = cs,
     ok_forward_digest = running_digest_new, ok_backward_digest = running_digest_new\<rparr>"

definition onion_encrypt :: "prims \<Rightarrow> onion_keys \<Rightarrow> bytes \<Rightarrow> bytes \<times> onion_keys" where
  "onion_encrypt P k d =
     (let (d', cs) = apply_each (apply_forward P) (rev (ok_ciphers k)) d in (d', k\<lparr>ok_ciphers := rev cs\<rparr>))"

definition onion_decrypt :: "prims \<Rightarrow> onion_keys \<Rightarrow> bytes \<Rightarrow> bytes \<times> onion_keys" where
  "onion_decrypt P k d =
     (let (d', cs) = apply_each (apply_backward P) (ok_ciphers k) d in (d', k\<lparr>ok_ciphers := cs\<rparr>))"

text \<open>
  What the hops do to the data of a cell: forward, each peels its layer with its own copy of
  the cipher, entry first; backward, each adds its layer, exit first.
\<close>

definition hops_forward :: "prims \<Rightarrow> cipher_pair list \<Rightarrow> bytes \<Rightarrow> bytes \<times> cipher_pair list" where
  "hops_forward P cs d = apply_each (apply_forward P) cs d"

definition hops_backward :: "prims \<Rightarrow> cipher_pair list \<Rightarrow> bytes \<Rightarrow> bytes \<times> cipher_pair list" where
  "hops_backward P cs d = (let (d', cs') = apply_each (apply_backward P) (rev cs) d in (d', rev cs'))"

lemma onion_forward:
  assumes "onion_encrypt P k d = (c, k')"
  shows "hops_forward P (ok_ciphers k) c = (d, ok_ciphers k') \<and> length c = length d"
proof -
  obtain cs where a: "apply_each (apply_forward P) (rev (ok_ciphers k)) d = (c, cs)"
    "ok_ciphers k' = rev cs"
    using assms by (auto simp: onion_encrypt_def split: prod.splits)
  with pair.fw.peel_layers [OF a(1)] pair.fw.each_length [of P "rev (ok_ciphers k)" d] show ?thesis
    by (simp add: hops_forward_def)
qed

lemma onion_backward:
  assumes "hops_backward P (ok_ciphers k) d = (c, cs)"
  shows "onion_decrypt P k c = (d, k\<lparr>ok_ciphers := cs\<rparr>) \<and> length c = length d"
proof -
  obtain cs' where a: "apply_each (apply_backward P) (rev (ok_ciphers k)) d = (c, cs')" "cs = rev cs'"
    using assms by (auto simp: hops_backward_def split: prod.splits)
  with pair.bw.peel_layers [OF a(1)] pair.bw.each_length [of P "rev (ok_ciphers k)" d] show ?thesis
    by (simp add: onion_decrypt_def)
qed

text \<open>
  C33. Onion routing over any number of hops: what the client wraps, the hops peel one layer
  each to the plaintext, and what the hops wrap on the way back, the client peels to the
  plaintext; lengths never change, and after each cell the client's ciphers are again those
  of the hops, so the next cell works the same way.
\<close>

theorem onion_layers_sync:
  assumes "hops = ok_ciphers k"
  shows "(let (c, k1) = onion_encrypt P k d; (p, hops1) = hops_forward P hops c
          in p = d \<and> length c = length d \<and> hops1 = ok_ciphers k1) \<and>
    (let (c, hops2) = hops_backward P hops d; (p, k2) = onion_decrypt P k c
     in p = d \<and> length c = length d \<and> hops2 = ok_ciphers k2)"
proof -
  obtain c k1 where f: "onion_encrypt P k d = (c, k1)" by force
  obtain c2 hops2 where b: "hops_backward P (ok_ciphers k) d = (c2, hops2)" by force
  show ?thesis using onion_forward [OF f] onion_backward [OF b] f b assms by simp
qed

theorem onion_layers_sync_witness:
  "let k = onion_keys_new [sk_zero] (map cipher_pair_new [sk_zero, sk_new [1] [2], sk_new [3] [4]])
   in fst (hops_forward toy_prims (ok_ciphers k) (fst (onion_encrypt toy_prims k [7, 8, 9]))) = [7, 8, 9]"
  using onion_layers_sync [OF refl, of toy_prims
    "onion_keys_new [sk_zero] (map cipher_pair_new [sk_zero, sk_new [1] [2], sk_new [3] [4]])" "[7, 8, 9]"]
  by (auto simp: Let_def split: prod.splits)

end
