(* ===== verification/Dir_Registry.thy ===== *)
theory Dir_Registry
  imports Tor_Types
begin

text \<open>
  The node registry of the discovery service (\<open>discovery/src/core/registry.rs\<close>,
  \<open>store.rs\<close>, \<open>api/error.rs\<close>): registration, heartbeats, removal, stale cleanup,
  statistics and the bandwidth-weighted choice of a path. Instants and durations are
  natural numbers of nanoseconds, the clock is an argument. The random generator is a
  function \<open>rr\<close>: \<open>rr r n\<close> is the draw \<open>random_range(0..n)\<close> in state \<open>r\<close> and the next
  state. Sums of bandwidths wrap at 64 bits, as in a release build.
\<close>

section \<open>State\<close>

datatype registry_error =
    NodeNotFound string
  | InsufficientNodes string
  | NodeAlreadyExists string
  | InvalidNode string

record node_entry =
  descriptor :: node_descriptor
  registered_at :: nat
  last_heartbeat :: nat
  ne_metrics :: "node_metrics option"

definition node_entry_new :: "node_descriptor \<Rightarrow> nat \<Rightarrow> nat \<Rightarrow> node_entry" where
  "node_entry_new d reg seen = \<lparr>descriptor = d, registered_at = reg, last_heartbeat = seen, ne_metrics = None\<rparr>"

record registry_stats =
  total_nodes :: nat
  entry_count :: nat
  middle_count :: nat
  exit_count :: nat
  oldest_node_age_secs :: "nat option"
  newest_node_age_secs :: "nat option"

record node_registry =
  nodes :: "(string, node_entry) hmap"
  allow_same_ip :: bool

definition registry_new :: "bool \<Rightarrow> node_registry" where
  "registry_new same_ip = \<lparr>nodes = [], allow_same_ip = same_ip\<rparr>"

section \<open>Operations\<close>

definition register_node :: "nat \<Rightarrow> node_descriptor \<Rightarrow> node_registry \<Rightarrow> node_registry" where
  "register_node now d reg =
     (let id = node_id d; addr = address d;
          ns = hm_retain (\<lambda>i e. i = id \<or> address (descriptor e) \<noteq> addr) (nodes reg)
      in if \<not> hm_contains ns id
         then reg\<lparr>nodes := hm_insert id (node_entry_new d now now) ns\<rparr>
         else (case hm_get ns id of
             None \<Rightarrow> reg\<lparr>nodes := ns\<rparr>
           | Some e \<Rightarrow> reg\<lparr>nodes := hm_insert id (e\<lparr>descriptor := d, last_heartbeat := now\<rparr>) ns\<rparr>))"

definition get_all_nodes :: "node_registry \<Rightarrow> node_descriptor list" where
  "get_all_nodes reg = map descriptor (hm_values (nodes reg))"

definition get_all_entries :: "node_registry \<Rightarrow> node_entry list" where
  "get_all_entries reg = hm_values (nodes reg)"

definition get_nodes_by_type :: "node_type \<Rightarrow> node_registry \<Rightarrow> node_descriptor list" where
  "get_nodes_by_type t reg =
     map descriptor (filter (\<lambda>e. node_type (descriptor e) = t) (hm_values (nodes reg)))"

definition update_heartbeat :: "nat \<Rightarrow> string \<Rightarrow> node_registry \<Rightarrow> (registry_error + unit) \<times> node_registry" where
  "update_heartbeat now i reg =
     (case hm_get (nodes reg) i of
        None \<Rightarrow> (Inl (NodeNotFound i), reg)
      | Some e \<Rightarrow> (Inr (), reg\<lparr>nodes := hm_insert i (e\<lparr>last_heartbeat := now\<rparr>) (nodes reg)\<rparr>))"

definition update_heartbeat_with_metrics ::
  "nat \<Rightarrow> string \<Rightarrow> node_metrics \<Rightarrow> node_registry \<Rightarrow> (registry_error + unit) \<times> node_registry"
where
  "update_heartbeat_with_metrics now i m reg =
     (case hm_get (nodes reg) i of
        None \<Rightarrow> (Inl (NodeNotFound i), reg)
      | Some e \<Rightarrow> (Inr (), reg\<lparr>nodes := hm_insert i (e\<lparr>last_heartbeat := now, ne_metrics := Some m\<rparr>) (nodes reg)\<rparr>))"

definition remove_node :: "string \<Rightarrow> node_registry \<Rightarrow> (registry_error + unit) \<times> node_registry" where
  "remove_node i reg =
     (case hm_get (nodes reg) i of
        None \<Rightarrow> (Inl (NodeNotFound i), reg)
      | Some e \<Rightarrow> (Inr (), reg\<lparr>nodes := hm_remove i (nodes reg)\<rparr>))"

text \<open>\<open>duration_since\<close> saturates at zero, as subtraction of naturals does.\<close>

definition cleanup_stale_nodes :: "nat \<Rightarrow> nat \<Rightarrow> node_registry \<Rightarrow> nat \<times> node_registry" where
  "cleanup_stale_nodes now timeout reg =
     (let before = length (nodes reg);
          ns = hm_retain (\<lambda>i e. \<not> timeout < now - last_heartbeat e) (nodes reg)
      in (before - length ns, reg\<lparr>nodes := ns\<rparr>))"

definition is_ready :: "node_registry \<Rightarrow> bool" where
  "is_ready reg = (get_nodes_by_type Entry reg \<noteq> [] \<and> get_nodes_by_type Middle reg \<noteq> [] \<and>
     get_nodes_by_type Exit reg \<noteq> [])"

definition secs :: "nat \<Rightarrow> nat" where
  "secs d = d div 1000000000"

text \<open>One turn of the loop of \<open>get_stats\<close> over the counters and the two registrations.\<close>

definition stats_turn ::
  "node_entry \<Rightarrow> (nat \<times> nat \<times> nat) \<times> nat option \<times> nat option \<Rightarrow> (nat \<times> nat \<times> nat) \<times> nat option \<times> nat option"
where
  "stats_turn e st =
     (let ((en, mi, ex), oldest, newest) = st;
          counts = (case node_type (descriptor e) of
              Entry \<Rightarrow> (en + 1, mi, ex) | Middle \<Rightarrow> (en, mi + 1, ex) | Exit \<Rightarrow> (en, mi, ex + 1));
          oldest' = (case oldest of None \<Rightarrow> Some (registered_at e)
              | Some t \<Rightarrow> if registered_at e < t then Some (registered_at e) else oldest);
          newest' = (case newest of None \<Rightarrow> Some (registered_at e)
              | Some t \<Rightarrow> if t < registered_at e then Some (registered_at e) else newest)
      in (counts, oldest', newest'))"

definition get_stats :: "nat \<Rightarrow> node_registry \<Rightarrow> registry_stats" where
  "get_stats now reg =
     (let ((en, mi, ex), oldest, newest) = fold stats_turn (hm_values (nodes reg)) ((0, 0, 0), None, None)
      in \<lparr>total_nodes = length (nodes reg), entry_count = en, middle_count = mi, exit_count = ex,
          oldest_node_age_secs = map_option (\<lambda>t. secs (now - t)) oldest,
          newest_node_age_secs = map_option (\<lambda>t. secs (now - t)) newest\<rparr>)"

section \<open>Choosing a path\<close>

type_synonym 'r draw = "'r \<Rightarrow> nat \<Rightarrow> nat \<times> 'r"

definition draw_ok :: "'r draw \<Rightarrow> bool" where
  "draw_ok rr = (\<forall>r n. 0 < n \<longrightarrow> fst (rr r n) < n)"

text \<open>The subtraction loop: the index whose share of the bandwidth contains the draw.\<close>

fun weighted_scan :: "nat \<Rightarrow> node_descriptor list \<Rightarrow> u64 \<Rightarrow> nat option" where
  "weighted_scan i [] w = None"
| "weighted_scan i (n # ns) w =
     (if w < bandwidth n then Some i else weighted_scan (Suc i) ns (w - bandwidth n))"

definition select_weighted_index :: "'r draw \<Rightarrow> 'r \<Rightarrow> node_descriptor list \<Rightarrow> (registry_error + nat) \<times> 'r" where
  "select_weighted_index rr r ns =
     (if ns = [] then (Inl (InsufficientNodes ''Empty node list''), r)
      else let total = sum_list (map bandwidth ns) in
        if total = 0 then (let (i, r') = rr r (length ns) in (Inr i, r'))
        else let (w, r') = rr r (unat total) in
          (case weighted_scan 0 ns (word_of_nat w) of
             Some i \<Rightarrow> (Inr i, r')
           | None \<Rightarrow> (Inr (length ns - 1), r')))"

definition select_weighted_node :: "'r draw \<Rightarrow> 'r \<Rightarrow> node_descriptor list \<Rightarrow> (registry_error + node_descriptor) \<times> 'r" where
  "select_weighted_node rr r ns =
     (case select_weighted_index rr r ns of
        (Inl e, r') \<Rightarrow> (Inl e, r')
      | (Inr i, r') \<Rightarrow> (case get_at ns i of
            None \<Rightarrow> (Inl (InsufficientNodes ''Empty node list''), r')
          | Some n \<Rightarrow> (Inr n, r')))"

text \<open>The exclusion sets: an address counts unless it is a loopback or sharing is allowed.\<close>

definition node_ip :: "node_descriptor \<Rightarrow> ip_addr" where
  "node_ip n = sa_ip (address n)"

definition exclude_ip :: "bool \<Rightarrow> node_descriptor \<Rightarrow> ip_addr list \<Rightarrow> ip_addr list" where
  "exclude_ip same_ip n ips =
     (if \<not> same_ip \<and> \<not> is_loopback (node_ip n) then List.insert (node_ip n) ips else ips)"

definition exclude_op :: "node_descriptor \<Rightarrow> string list \<Rightarrow> string list" where
  "exclude_op n ops = (case operator_id n of None \<Rightarrow> ops | Some op \<Rightarrow> List.insert op ops)"

definition middle_ok :: "bool \<Rightarrow> ip_addr list \<Rightarrow> string list \<Rightarrow> node_descriptor \<Rightarrow> bool" where
  "middle_ok same_ip ips ops n =
     ((same_ip \<or> is_loopback (node_ip n) \<or> node_ip n \<notin> set ips) \<and>
      (case operator_id n of None \<Rightarrow> True | Some op \<Rightarrow> op \<notin> set ops))"

text \<open>\<open>Vec::remove(idx)\<close>.\<close>

definition remove_at :: "nat \<Rightarrow> 'a list \<Rightarrow> 'a list" where
  "remove_at i xs = take i xs @ drop (Suc i) xs"

text \<open>The middle loop; the first number is the slots that remain.\<close>

fun pick_middles ::
  "'r draw \<Rightarrow> bool \<Rightarrow> nat \<Rightarrow> node_descriptor list \<Rightarrow> ip_addr list \<Rightarrow> string list \<Rightarrow> 'r
   \<Rightarrow> (registry_error + node_descriptor list) \<times> 'r"
where
  "pick_middles rr same_ip 0 avail ips ops r = (Inr [], r)"
| "pick_middles rr same_ip (Suc slots) avail ips ops r =
     (let avail = filter (middle_ok same_ip ips ops) avail in
      if length avail < Suc slots
      then (Inl (InsufficientNodes (''Not enough unique-IP/operator middle nodes: need '' @
              show_nat (Suc slots) @ '' more, '' @ show_nat (length avail) @ '' remain'')), r)
      else case select_weighted_index rr r avail of
        (Inl e, r) \<Rightarrow> (Inl e, r)
      | (Inr idx, r) \<Rightarrow>
          let node = avail ! idx;
              avail = remove_at idx avail;
              ips = exclude_ip same_ip node ips;
              ops = exclude_op node ops
          in case pick_middles rr same_ip slots avail ips ops r of
               (Inl e, r) \<Rightarrow> (Inl e, r)
             | (Inr ms, r) \<Rightarrow> (Inr (node # ms), r))"

text \<open>The checks before the first draw.\<close>

definition path_precheck :: "node_registry \<Rightarrow> nat \<Rightarrow> registry_error option" where
  "path_precheck reg count =
     (if count < 3
      then Some (InsufficientNodes (''hop count must be >= 3, got '' @ show_nat count))
      else if get_nodes_by_type Entry reg = [] then Some (InsufficientNodes ''No entry nodes available'')
      else if get_nodes_by_type Middle reg = [] then Some (InsufficientNodes ''No middle nodes available'')
      else if length (get_nodes_by_type Middle reg) < count - 2
      then Some (InsufficientNodes (''Need '' @ show_nat (count - 2) @ '' unique middle nodes for a '' @
             show_nat count @ ''-hop circuit, only '' @ show_nat (length (get_nodes_by_type Middle reg)) @ '' registered''))
      else if get_nodes_by_type Exit reg = [] then Some (InsufficientNodes ''No exit nodes available'')
      else None)"

text \<open>The exit is drawn first, then the entry, then the middles; the path is in hop order.\<close>

definition get_random_path ::
  "'r draw \<Rightarrow> node_registry \<Rightarrow> nat \<Rightarrow> 'r \<Rightarrow> (registry_error + node_descriptor list) \<times> 'r"
where
  "get_random_path rr reg count r =
     (case path_precheck reg count of Some e \<Rightarrow> (Inl e, r) | None \<Rightarrow>
      let same_ip = allow_same_ip reg in
      case select_weighted_node rr r (get_nodes_by_type Exit reg) of (Inl e, r) \<Rightarrow> (Inl e, r)
      | (Inr exit_node, r) \<Rightarrow>
      let ips = exclude_ip same_ip exit_node [];
          ops = exclude_op exit_node []
      in case select_weighted_node rr r (get_nodes_by_type Entry reg) of (Inl e, r) \<Rightarrow> (Inl e, r)
      | (Inr entry_node, r) \<Rightarrow>
      if \<not> same_ip \<and> \<not> is_loopback (node_ip entry_node) \<and> node_ip entry_node \<in> set ips
      then (Inl (InsufficientNodes ''entry and exit share the same IP address''), r)
      else if (case operator_id entry_node of None \<Rightarrow> False | Some op \<Rightarrow> op \<in> set ops)
      then (Inl (InsufficientNodes ''entry and exit share the same operator_id''), r)
      else let ops = exclude_op entry_node ops;
               ips = exclude_ip same_ip entry_node ips
           in case pick_middles rr same_ip (count - 2) (get_nodes_by_type Middle reg) ips ops r of
                (Inl e, r) \<Rightarrow> (Inl e, r)
              | (Inr ms, r) \<Rightarrow> (Inr (entry_node # ms @ [exit_node]), r))"

section \<open>The registry invariant\<close>

text \<open>
  Keys are the node ids of their descriptors, no address is registered twice, and no
  heartbeat lies before the registration or in the future.
\<close>

definition reg_inv :: "nat \<Rightarrow> node_registry \<Rightarrow> bool" where
  "reg_inv now reg =
     (hm_wf (nodes reg) \<and>
      (\<forall>i e. hm_get (nodes reg) i = Some e \<longrightarrow> node_id (descriptor e) = i \<and>
         registered_at e \<le> last_heartbeat e \<and> last_heartbeat e \<le> now) \<and>
      (\<forall>i j e f. hm_get (nodes reg) i = Some e \<longrightarrow> hm_get (nodes reg) j = Some f \<longrightarrow>
         address (descriptor e) = address (descriptor f) \<longrightarrow> i = j))"

definition reg_lookup :: "node_registry \<Rightarrow> string \<Rightarrow> node_descriptor option" where
  "reg_lookup reg i = map_option descriptor (hm_get (nodes reg) i)"

lemma reg_invD:
  assumes "reg_inv now reg"
  shows "hm_wf (nodes reg)"
    and "hm_get (nodes reg) i = Some e \<Longrightarrow> node_id (descriptor e) = i"
    and "hm_get (nodes reg) i = Some e \<Longrightarrow> registered_at e \<le> last_heartbeat e \<and> last_heartbeat e \<le> now"
    and "hm_get (nodes reg) i = Some e \<Longrightarrow> hm_get (nodes reg) j = Some f \<Longrightarrow>
      address (descriptor e) = address (descriptor f) \<Longrightarrow> i = j"
  using assms unfolding reg_inv_def by blast+

lemma reg_inv_new [simp]: "reg_inv now (registry_new b)"
  by (simp add: reg_inv_def registry_new_def)

text \<open>What a lookup finds after a registration.\<close>

lemma get_register:
  assumes "hm_wf (nodes reg)"
  shows "hm_get (nodes (register_node now d reg)) i =
    (if i = node_id d
     then Some (case hm_get (nodes reg) i of None \<Rightarrow> node_entry_new d now now
                | Some e \<Rightarrow> e\<lparr>descriptor := d, last_heartbeat := now\<rparr>)
     else case hm_get (nodes reg) i of None \<Rightarrow> None
          | Some e \<Rightarrow> if address (descriptor e) = address d then None else Some e)"
proof -
  let ?ns = "hm_retain (\<lambda>i e. i = node_id d \<or> address (descriptor e) \<noteq> address d) (nodes reg)"
  have g: "hm_get ?ns j = (case hm_get (nodes reg) j of None \<Rightarrow> None
      | Some e \<Rightarrow> if j = node_id d \<or> address (descriptor e) \<noteq> address d then Some e else None)" for j
    by (rule hm_get_retain [OF assms])
  show ?thesis
    by (cases "hm_get (nodes reg) (node_id d)")
      (auto simp: register_node_def Let_def hm_contains_def g split: option.splits)
qed

lemma wf_register: "hm_wf (nodes reg) \<Longrightarrow> hm_wf (nodes (register_node now d reg))"
  by (auto simp: register_node_def Let_def split: option.splits)

lemma get_register_cases:
  assumes inv: "reg_inv t reg" and "t \<le> now"
    and "hm_get (nodes (register_node now d reg)) i = Some e"
  obtains "i = node_id d" "descriptor e = d" "registered_at e \<le> now" "last_heartbeat e = now"
  | "i \<noteq> node_id d" "hm_get (nodes reg) i = Some e" "address (descriptor e) \<noteq> address d"
proof (cases "i = node_id d")
  case True
  have "descriptor e = d \<and> registered_at e \<le> now \<and> last_heartbeat e = now"
  proof (cases "hm_get (nodes reg) i")
    case None
    with assms(3) True show ?thesis by (auto simp: get_register [OF reg_invD(1) [OF inv]] node_entry_new_def)
  next
    case (Some f)
    with reg_invD(3) [OF inv Some] assms(2,3) True show ?thesis
      by (auto simp: get_register [OF reg_invD(1) [OF inv]])
  qed
  with True that(1) show ?thesis by blast
next
  case False
  with assms(3) that(2) show ?thesis
    by (auto simp: get_register [OF reg_invD(1) [OF inv]] split: option.splits if_splits)
qed

lemma reg_inv_register:
  assumes "reg_inv t reg" "t \<le> now"
  shows "reg_inv now (register_node now d reg)"
  unfolding reg_inv_def
proof (intro conjI allI impI)
  note inv = reg_invD [OF assms(1)]
  show "hm_wf (nodes (register_node now d reg))" by (rule wf_register [OF inv(1)])
  fix i e assume e: "hm_get (nodes (register_node now d reg)) i = Some e"
  have "node_id (descriptor e) = i \<and> registered_at e \<le> last_heartbeat e \<and> last_heartbeat e \<le> now"
    by (rule get_register_cases [OF assms e]) (use inv(2,3) [of i e] assms(2) in auto)
  then show "node_id (descriptor e) = i" "registered_at e \<le> last_heartbeat e" "last_heartbeat e \<le> now"
    by auto
  fix j f assume f: "hm_get (nodes (register_node now d reg)) j = Some f"
    and eq: "address (descriptor e) = address (descriptor f)"
  show "i = j"
  proof (rule get_register_cases [OF assms e])
    assume i: "i = node_id d" "descriptor e = d"
    show ?thesis by (rule get_register_cases [OF assms f]) (use i eq in auto)
  next
    assume i: "i \<noteq> node_id d" "hm_get (nodes reg) i = Some e" "address (descriptor e) \<noteq> address d"
    show ?thesis by (rule get_register_cases [OF assms f]) (use i eq inv(4) [of i e j f] in auto)
  qed
qed

lemma reg_inv_later: "reg_inv t reg \<Longrightarrow> t \<le> now \<Longrightarrow> reg_inv now reg"
  unfolding reg_inv_def by (meson order_trans)

text \<open>An update of one entry that keeps its descriptor and its registration.\<close>

lemma reg_inv_touch:
  assumes "reg_inv t reg" "t \<le> now" "hm_get (nodes reg) i = Some e"
    and "descriptor e' = descriptor e" "registered_at e' = registered_at e" "last_heartbeat e' = now"
  shows "reg_inv now (reg\<lparr>nodes := hm_insert i e' (nodes reg)\<rparr>)"
  unfolding reg_inv_def
proof (intro conjI allI impI)
  note inv = reg_invD [OF assms(1)]
  let ?m = "nodes (reg\<lparr>nodes := hm_insert i e' (nodes reg)\<rparr>)"
  show "hm_wf ?m" using inv(1) by simp
  fix k g assume g: "hm_get ?m k = Some g"
  show "node_id (descriptor g) = k" using g inv(2) assms by (auto split: if_splits)
  show "registered_at g \<le> last_heartbeat g" "last_heartbeat g \<le> now"
    using g inv(3) [of k] inv(3) [OF assms(3)] assms by (force split: if_splits)+
  fix l h assume h: "hm_get ?m l = Some h" "address (descriptor g) = address (descriptor h)"
  show "k = l" using g h inv(4) assms by (force split: if_splits)
qed

text \<open>Dropping entries keeps the invariant.\<close>

lemma reg_inv_shrink:
  assumes "reg_inv t reg" "t \<le> now" "hm_wf m" "\<And>k e. hm_get m k = Some e \<Longrightarrow> hm_get (nodes reg) k = Some e"
  shows "reg_inv now (reg\<lparr>nodes := m\<rparr>)"
  unfolding reg_inv_def using assms(3) assms(2)
  by (auto dest!: assms(4) dest: reg_invD(2,3,4) [OF assms(1)] intro: order_trans)

lemma reg_inv_heartbeat:
  "reg_inv t reg \<Longrightarrow> t \<le> now \<Longrightarrow> reg_inv now (snd (update_heartbeat_with_metrics now i m reg))"
  "reg_inv t reg \<Longrightarrow> t \<le> now \<Longrightarrow> reg_inv now (snd (update_heartbeat now i reg))"
  by (auto simp: update_heartbeat_with_metrics_def update_heartbeat_def split: option.splits
      intro!: reg_inv_touch intro: reg_inv_later)

lemma reg_inv_remove: "reg_inv t reg \<Longrightarrow> t \<le> now \<Longrightarrow> reg_inv now (snd (remove_node i reg))"
  by (auto simp: remove_node_def split: option.splits if_splits
      intro!: reg_inv_shrink intro: reg_inv_later dest: reg_invD(1))

lemma get_cleanup:
  assumes "hm_wf (nodes reg)"
  shows "hm_get (nodes (snd (cleanup_stale_nodes now timeout reg))) i =
    (case hm_get (nodes reg) i of None \<Rightarrow> None
     | Some e \<Rightarrow> if timeout < now - last_heartbeat e then None else Some e)"
  using hm_get_retain [OF assms, of "\<lambda>i e. \<not> timeout < now - last_heartbeat e" i]
  by (simp add: cleanup_stale_nodes_def Let_def split: option.splits)

lemma reg_inv_cleanup:
  "reg_inv t reg \<Longrightarrow> t \<le> now \<Longrightarrow> reg_inv now (snd (cleanup_stale_nodes now timeout reg))"
  unfolding cleanup_stale_nodes_def Let_def snd_conv
  by (rule reg_inv_shrink)
    (auto simp: hm_get_retain reg_invD(1) split: option.splits if_splits)

section \<open>The store contract\<close>

text \<open>
  \<open>NodeStore\<close>: what the handlers of the service rely on, whatever the backend. A store is
  read through \<open>lookup\<close>; \<open>inv t s\<close> says the store is well formed at time \<open>t\<close>.
\<close>

locale node_store =
  fixes lookup :: "'s \<Rightarrow> string \<Rightarrow> node_descriptor option"
    and register :: "nat \<Rightarrow> node_descriptor \<Rightarrow> 's \<Rightarrow> 's"
    and heartbeat :: "nat \<Rightarrow> string \<Rightarrow> node_metrics \<Rightarrow> 's \<Rightarrow> (registry_error + unit) \<times> 's"
    and remove :: "string \<Rightarrow> 's \<Rightarrow> (registry_error + unit) \<times> 's"
    and cleanup :: "nat \<Rightarrow> nat \<Rightarrow> 's \<Rightarrow> nat \<times> 's"
    and inv :: "nat \<Rightarrow> 's \<Rightarrow> bool"
  assumes inv_register: "inv t s \<Longrightarrow> t \<le> now \<Longrightarrow> inv now (register now d s)"
    and inv_heartbeat: "inv t s \<Longrightarrow> t \<le> now \<Longrightarrow> inv now (snd (heartbeat now i m s))"
    and inv_remove: "inv t s \<Longrightarrow> t \<le> now \<Longrightarrow> inv now (snd (remove i s))"
    and inv_cleanup: "inv t s \<Longrightarrow> t \<le> now \<Longrightarrow> inv now (snd (cleanup now timeout s))"
    and inv_id: "inv t s \<Longrightarrow> lookup s i = Some d \<Longrightarrow> node_id d = i"
    and inv_address: "inv t s \<Longrightarrow> lookup s i = Some d \<Longrightarrow> lookup s j = Some e \<Longrightarrow>
      address d = address e \<Longrightarrow> i = j"
    and lookup_register: "inv t s \<Longrightarrow> lookup (register now d s) i =
      (if i = node_id d then Some d
       else case lookup s i of None \<Rightarrow> None | Some e \<Rightarrow> if address e = address d then None else Some e)"
    and heartbeat_result: "fst (heartbeat now i m s) = (if lookup s i = None then Inl (NodeNotFound i) else Inr ())"
    and lookup_heartbeat: "lookup (snd (heartbeat now i m s)) j = lookup s j"
    and remove_result: "fst (remove i s) = (if lookup s i = None then Inl (NodeNotFound i) else Inr ())"
    and lookup_remove: "lookup (snd (remove i s)) j = (if j = i then None else lookup s j)"
    and lookup_cleanup: "inv t s \<Longrightarrow> lookup (snd (cleanup now timeout s)) i = Some d \<Longrightarrow> lookup s i = Some d"
    and cleanup_fresh: "inv t s \<Longrightarrow> later - now \<le> timeout \<Longrightarrow>
      lookup (snd (cleanup later timeout (register now d s))) (node_id d) = Some d"
    and cleanup_alive: "inv t s \<Longrightarrow> lookup s i = Some d \<Longrightarrow> later - now \<le> timeout \<Longrightarrow>
      lookup (snd (cleanup later timeout (snd (heartbeat now i m s)))) i = Some d"
begin

text \<open>A node that registers again under another id at its old address replaces its old entry.\<close>

lemma reregister_moves:
  assumes "inv t s" "t \<le> t1" "t1 \<le> t2" "address d = address e" "node_id d \<noteq> node_id e"
  shows "lookup (register t2 e (register t1 d s)) (node_id d) = None \<and>
    lookup (register t2 e (register t1 d s)) (node_id e) = Some e"
  using inv_register [OF assms(1,2), of d] assms(4,5) lookup_register [OF assms(1)]
  by (simp add: lookup_register)

lemma register_remove:
  "inv t s \<Longrightarrow> t \<le> now \<Longrightarrow> fst (remove (node_id d) (register now d s)) = Inr () \<and>
     lookup (snd (remove (node_id d) (register now d s))) (node_id d) = None"
  by (simp add: remove_result lookup_remove lookup_register)

lemma removed_heartbeat_fails:
  "fst (heartbeat now i m (snd (remove i s))) = Inl (NodeNotFound i)"
  by (simp add: heartbeat_result lookup_remove)

end

interpretation registry: node_store reg_lookup register_node update_heartbeat_with_metrics remove_node
  cleanup_stale_nodes reg_inv
proof
  fix t s now d i m timeout e j later
  show "reg_inv t s \<Longrightarrow> t \<le> now \<Longrightarrow> reg_inv now (register_node now d s)" by (rule reg_inv_register)
  show "reg_inv t s \<Longrightarrow> t \<le> now \<Longrightarrow> reg_inv now (snd (update_heartbeat_with_metrics now i m s))"
    by (rule reg_inv_heartbeat)
  show "reg_inv t s \<Longrightarrow> t \<le> now \<Longrightarrow> reg_inv now (snd (remove_node i s))" by (rule reg_inv_remove)
  show "reg_inv t s \<Longrightarrow> t \<le> now \<Longrightarrow> reg_inv now (snd (cleanup_stale_nodes now timeout s))"
    by (rule reg_inv_cleanup)
  show "reg_inv t s \<Longrightarrow> reg_lookup s i = Some d \<Longrightarrow> node_id d = i"
    by (auto simp: reg_lookup_def dest: reg_invD(2))
  show "reg_inv t s \<Longrightarrow> reg_lookup s i = Some d \<Longrightarrow> reg_lookup s j = Some e \<Longrightarrow> address d = address e \<Longrightarrow> i = j"
    by (auto simp: reg_lookup_def dest: reg_invD(4))
  show "reg_inv t s \<Longrightarrow> reg_lookup (register_node now d s) i =
    (if i = node_id d then Some d
     else case reg_lookup s i of None \<Rightarrow> None | Some e \<Rightarrow> if address e = address d then None else Some e)"
    by (auto simp: reg_lookup_def get_register reg_invD(1) node_entry_new_def split: option.splits)
  show "fst (update_heartbeat_with_metrics now i m s) =
      (if reg_lookup s i = None then Inl (NodeNotFound i) else Inr ())"
    "reg_lookup (snd (update_heartbeat_with_metrics now i m s)) j = reg_lookup s j"
    by (auto simp: update_heartbeat_with_metrics_def reg_lookup_def split: option.splits)
  show "fst (remove_node i s) = (if reg_lookup s i = None then Inl (NodeNotFound i) else Inr ())"
    "reg_lookup (snd (remove_node i s)) j = (if j = i then None else reg_lookup s j)"
    by (auto simp: remove_node_def reg_lookup_def split: option.splits)
  show "reg_inv t s \<Longrightarrow> reg_lookup (snd (cleanup_stale_nodes now timeout s)) i = Some d \<Longrightarrow> reg_lookup s i = Some d"
    by (auto simp: reg_lookup_def get_cleanup reg_invD(1) split: option.splits if_splits)
  show "reg_inv t s \<Longrightarrow> later - now \<le> timeout \<Longrightarrow>
      reg_lookup (snd (cleanup_stale_nodes later timeout (register_node now d s))) (node_id d) = Some d"
    by (auto simp: reg_lookup_def get_cleanup wf_register get_register reg_invD(1) node_entry_new_def
        split: option.splits)
  show "reg_inv t s \<Longrightarrow> reg_lookup s i = Some d \<Longrightarrow> later - now \<le> timeout \<Longrightarrow>
      reg_lookup (snd (cleanup_stale_nodes later timeout (snd (update_heartbeat_with_metrics now i m s)))) i = Some d"
    by (auto simp: reg_lookup_def get_cleanup update_heartbeat_with_metrics_def reg_invD(1) split: option.splits)
qed

section \<open>Runs of the registry\<close>

text \<open>The steps the service takes on its registry, at non-decreasing times.\<close>

inductive reg_step :: "nat \<times> node_registry \<Rightarrow> nat \<times> node_registry \<Rightarrow> bool" where
  Register: "t \<le> now \<Longrightarrow> reg_step (t, reg) (now, register_node now d reg)"
| Heartbeat: "t \<le> now \<Longrightarrow> reg_step (t, reg) (now, snd (update_heartbeat_with_metrics now i m reg))"
| Plain_heartbeat: "t \<le> now \<Longrightarrow> reg_step (t, reg) (now, snd (update_heartbeat now i reg))"
| Remove: "t \<le> now \<Longrightarrow> reg_step (t, reg) (now, snd (remove_node i reg))"
| Cleanup: "t \<le> now \<Longrightarrow> reg_step (t, reg) (now, snd (cleanup_stale_nodes now timeout reg))"

inductive_cases reg_stepE: "reg_step (t, reg) (now, reg')"

inductive_simps reg_step_iff: "reg_step (t, reg) (now, reg')"

lemma reg_step_inv: "reg_step (t, reg) (now, reg') \<Longrightarrow> reg_inv t reg \<Longrightarrow> t \<le> now \<and> reg_inv now reg'"
  by (erule reg_stepE)
    (auto intro: registry.inv_register registry.inv_heartbeat reg_inv_heartbeat(2) registry.inv_remove
      registry.inv_cleanup)

lemma reg_steps_inv:
  "reg_step\<^sup>*\<^sup>* (t, reg) (now, reg') \<Longrightarrow> reg_inv t reg \<Longrightarrow> t \<le> now \<and> reg_inv now reg'"
proof (induction "(now, reg')" arbitrary: now reg' rule: rtranclp_induct)
  case (step s)
  obtain u r where s: "s = (u, r)" by force
  with step have "t \<le> u \<and> reg_inv u r" by blast
  moreover have "reg_step (u, r) (now, reg')" using step.hyps s by simp
  ultimately show ?case using reg_step_inv by fastforce
qed simp

text \<open>
  In every registry reachable from the empty one by registrations, heartbeats, removals
  and cleanups in any order, a node is stored under its own id, no two registered nodes
  share a socket address, and no heartbeat lies in the future.
\<close>

theorem registry_reachable_unique:
  assumes "reg_step\<^sup>*\<^sup>* (t, registry_new b) (now, reg)"
    and "hm_get (nodes reg) i = Some e" "hm_get (nodes reg) j = Some f"
  shows "node_id (descriptor e) = i \<and> last_heartbeat e \<le> now \<and>
    (address (descriptor e) = address (descriptor f) \<longrightarrow> i = j)"
proof -
  have inv: "reg_inv now reg" using reg_steps_inv [OF assms(1)] by simp
  from reg_invD(2,3) [OF inv assms(2)] reg_invD(4) [OF inv assms(2,3)] show ?thesis by blast
qed

definition sample_node :: "string \<Rightarrow> node_type \<Rightarrow> bytes \<Rightarrow> u64 \<Rightarrow> node_descriptor" where
  "sample_node i t ip bw = nd_new i t (SocketAddr (V4 ip) 9001 0) (pk_new (replicate 32 0)) bw None"

theorem registry_reachable_unique_witness:
  "node_id (descriptor (node_entry_new (sample_node ''a'' Entry [10, 0, 0, 1] 5) 3 3)) = ''a''"
proof -
  let ?d = "sample_node ''a'' Entry [10, 0, 0, 1] 5"
  have run: "reg_step\<^sup>*\<^sup>* (0, registry_new False) (3, register_node 3 ?d (registry_new False))"
    by (rule r_into_rtranclp) (rule Register, simp)
  have get: "hm_get (nodes (register_node 3 ?d (registry_new False))) ''a'' = Some (node_entry_new ?d 3 3)"
    by (simp add: get_register registry_new_def sample_node_def nd_new_def)
  from registry_reachable_unique [OF run get get] show ?thesis by blast
qed

text \<open>
  A registration makes exactly its own descriptor current: looking up its id gives it, an
  older entry at the same address under another id is gone, and every other entry is as
  before; a node registered or heard from within the timeout survives a cleanup.
\<close>

theorem register_node_effect:
  assumes "reg_inv t reg" "later - now \<le> timeout"
  shows "reg_lookup (register_node now d reg) i =
      (if i = node_id d then Some d
       else case reg_lookup reg i of None \<Rightarrow> None | Some e \<Rightarrow> if address e = address d then None else Some e) \<and>
    reg_lookup (snd (cleanup_stale_nodes later timeout (register_node now d reg))) (node_id d) = Some d"
  using registry.lookup_register [OF assms(1)] registry.cleanup_fresh [OF assms] by blast

theorem register_node_effect_witness:
  "reg_lookup (register_node 3 (sample_node ''a'' Entry [10, 0, 0, 1] 5) (registry_new False)) ''a'' =
     Some (sample_node ''a'' Entry [10, 0, 0, 1] 5)"
  using register_node_effect [of 0 "registry_new False" 5 3 10 "sample_node ''a'' Entry [10, 0, 0, 1] 5" "''a''"]
  by (simp add: sample_node_def nd_new_def)

text \<open>
  Heartbeat, removal and cleanup: an unknown id is \<open>NodeNotFound\<close> and changes nothing; a
  known one succeeds, a heartbeat keeping every descriptor and a removal deleting exactly that
  node; cleanup deletes exactly the nodes silent for longer than the timeout and returns their
  number.
\<close>

theorem registry_maintenance:
  assumes "hm_wf (nodes reg)"
  shows "(reg_lookup reg i = None \<longrightarrow>
      update_heartbeat_with_metrics now i m reg = (Inl (NodeNotFound i), reg) \<and>
      remove_node i reg = (Inl (NodeNotFound i), reg)) \<and>
    (reg_lookup reg i \<noteq> None \<longrightarrow>
      fst (update_heartbeat_with_metrics now i m reg) = Inr () \<and> fst (remove_node i reg) = Inr ()) \<and>
    reg_lookup (snd (update_heartbeat_with_metrics now i m reg)) j = reg_lookup reg j \<and>
    reg_lookup (snd (remove_node i reg)) j = (if j = i then None else reg_lookup reg j) \<and>
    hm_get (nodes (snd (cleanup_stale_nodes now timeout reg))) j =
      (case hm_get (nodes reg) j of None \<Rightarrow> None
       | Some e \<Rightarrow> if timeout < now - last_heartbeat e then None else Some e) \<and>
    fst (cleanup_stale_nodes now timeout reg) =
      length (filter (\<lambda>e. timeout < now - last_heartbeat e) (get_all_entries reg))"
proof -
  have len: "length (filter p xs) + length (filter (\<lambda>x. \<not> p x) xs) = length xs" for p and xs :: "'x list"
    by (rule sum_length_filter_compl)
  have "fst (cleanup_stale_nodes now timeout reg) =
      length (filter (\<lambda>e. timeout < now - last_heartbeat e) (get_all_entries reg))"
    using len [of "\<lambda>kv. timeout < now - last_heartbeat (snd kv)" "nodes reg"]
    by (simp add: cleanup_stale_nodes_def Let_def hm_retain_def get_all_entries_def hm_values_def
        filter_map o_def case_prod_unfold)
  then show ?thesis
    using get_cleanup [OF assms]
    by (auto simp: reg_lookup_def update_heartbeat_with_metrics_def remove_node_def split: option.splits)
qed

theorem registry_maintenance_witness:
  "remove_node ''x'' (registry_new False) = (Inl (NodeNotFound ''x''), registry_new False)"
  using registry_maintenance [of "registry_new False" "''x''"] by (simp add: reg_lookup_def registry_new_def)

section \<open>Statistics\<close>

definition count_type :: "node_type \<Rightarrow> node_entry list \<Rightarrow> nat" where
  "count_type t es = length (filter (\<lambda>e. node_type (descriptor e) = t) es)"

lemma stats_turn_eq:
  "stats_turn e ((a, b, c), o1, n1) =
     ((a + count_type Entry [e], b + count_type Middle [e], c + count_type Exit [e]),
      Some (case o1 of None \<Rightarrow> registered_at e | Some t \<Rightarrow> min t (registered_at e)),
      Some (case n1 of None \<Rightarrow> registered_at e | Some t \<Rightarrow> max t (registered_at e)))"
  by (cases "node_type (descriptor e)") (auto simp: stats_turn_def count_type_def split: option.splits)

lemma count_type_Cons: "count_type t (e # es) = count_type t [e] + count_type t es"
  by (simp add: count_type_def)

lemma stats_fold:
  "fold stats_turn es ((a, b, c), o1, n1) =
     ((a + count_type Entry es, b + count_type Middle es, c + count_type Exit es),
      (case o1 of None \<Rightarrow> if es = [] then None else Some (Min (registered_at ` set es))
       | Some t \<Rightarrow> Some (Min (insert t (registered_at ` set es)))),
      (case n1 of None \<Rightarrow> if es = [] then None else Some (Max (registered_at ` set es))
       | Some t \<Rightarrow> Some (Max (insert t (registered_at ` set es)))))"
proof (induction es arbitrary: a b c o1 n1)
  case Nil
  then show ?case by (simp add: count_type_def split: option.splits)
next
  case (Cons e es)
  let ?R = "registered_at ` set es"
  have mn: "Min (insert t (insert u ?R)) = Min (insert (min t u) ?R)" for t u
    by (cases "?R = {}") (simp_all add: Min_insert min.assoc)
  have mx: "Max (insert t (insert u ?R)) = Max (insert (max t u) ?R)" for t u
    by (cases "?R = {}") (simp_all add: Max_insert max.assoc)
  show ?case
    by (simp add: stats_turn_eq Cons.IH count_type_Cons [of _ e es] mn mx split: option.splits)
qed

text \<open>
  The statistics count every registered node under exactly one type, and the ages are
  those of the first and of the last registration, absent exactly when there is no node.
\<close>

theorem get_stats_correct:
  "total_nodes (get_stats now reg) = length (get_all_nodes reg) \<and>
   entry_count (get_stats now reg) = length (get_nodes_by_type Entry reg) \<and>
   middle_count (get_stats now reg) = length (get_nodes_by_type Middle reg) \<and>
   exit_count (get_stats now reg) = length (get_nodes_by_type Exit reg) \<and>
   total_nodes (get_stats now reg) = entry_count (get_stats now reg) + middle_count (get_stats now reg)
     + exit_count (get_stats now reg) \<and>
   oldest_node_age_secs (get_stats now reg) =
     (if nodes reg = [] then None else Some (secs (now - Min (registered_at ` set (get_all_entries reg))))) \<and>
   newest_node_age_secs (get_stats now reg) =
     (if nodes reg = [] then None else Some (secs (now - Max (registered_at ` set (get_all_entries reg)))))"
proof -
  have split: "length es = count_type Entry es + count_type Middle es + count_type Exit es" for es
  proof (induction es)
    case (Cons e es)
    then show ?case by (cases "node_type (descriptor e)") (simp_all add: count_type_def)
  qed (simp add: count_type_def)
  have "length (nodes reg) = length (hm_values (nodes reg))" by (simp add: hm_values_def)
  then show ?thesis
    using split [of "hm_values (nodes reg)"]
    by (auto simp: get_stats_def stats_fold get_all_nodes_def get_nodes_by_type_def get_all_entries_def
        count_type_def hm_values_def)
qed

section \<open>Bandwidth weights\<close>

definition bw_sum :: "node_descriptor list \<Rightarrow> nat" where
  "bw_sum ns = sum_list (map (\<lambda>n. unat (bandwidth n)) ns)"

lemma weighted_scan_Some:
  "weighted_scan k ns w = Some i \<Longrightarrow> k \<le> i \<and> i < k + length ns"
  by (induction k ns w rule: weighted_scan.induct) (auto split: if_splits)

text \<open>The scan stops at the node whose share of \<open>[0, total)\<close> contains the draw.\<close>

lemma weighted_scan_share:
  "i < length ns \<Longrightarrow>
   weighted_scan k ns w = Some (k + i) \<longleftrightarrow> bw_sum (take i ns) \<le> unat w \<and> unat w < bw_sum (take (Suc i) ns)"
proof (induction ns arbitrary: k i w)
  case (Cons n ns)
  show ?case
  proof (cases "w < bandwidth n")
    case True
    then show ?thesis by (cases i) (auto simp: bw_sum_def word_less_nat_alt)
  next
    case False
    then have le: "bandwidth n \<le> w" by simp
    then have sub: "unat (w - bandwidth n) = unat w - unat (bandwidth n)" by (rule unat_sub)
    have nle: "unat (bandwidth n) \<le> unat w" using le by (simp add: word_le_nat_alt)
    show ?thesis
    proof (cases i)
      case 0
      have "weighted_scan k (n # ns) w \<noteq> Some k"
        using False weighted_scan_Some [of "Suc k" ns "w - bandwidth n" k] by auto
      with 0 nle show ?thesis by (simp add: bw_sum_def)
    next
      case (Suc j)
      with Cons.prems Cons.IH [of j "Suc k" "w - bandwidth n"] False sub nle show ?thesis
        by (auto simp: bw_sum_def)
    qed
  qed
qed simp

lemma bw_sum_take_mono: "bw_sum (take i ns) \<le> bw_sum ns"
  by (induction ns arbitrary: i) (auto simp: bw_sum_def take_Cons split: nat.splits)

lemma bw_sum_take_Suc: "i < length ns \<Longrightarrow> bw_sum (take (Suc i) ns) = bw_sum (take i ns) + unat (bandwidth (ns ! i))"
  by (simp add: bw_sum_def take_Suc_conv_app_nth)

lemma sum_list_bw: "bw_sum ns < 2 ^ 64 \<Longrightarrow> unat (sum_list (map bandwidth ns)) = bw_sum ns"
proof (induction ns)
  case (Cons n ns)
  then have "unat (sum_list (map bandwidth ns)) = bw_sum ns" by (simp add: bw_sum_def)
  with Cons.prems show ?case by (simp add: bw_sum_def unat_word_ariths)
qed (simp add: bw_sum_def)

lemma select_weighted_draw:
  assumes "0 < bw_sum ns" "bw_sum ns < 2 ^ 64" "fst (rr r (bw_sum ns)) = w" "w < bw_sum ns" "i < length ns"
  shows "fst (select_weighted_index rr r ns) = Inr i \<longleftrightarrow>
    bw_sum (take i ns) \<le> w \<and> w < bw_sum (take (Suc i) ns)"
proof -
  have ne: "ns \<noteq> []" using assms(5) by auto
  have tot: "unat (sum_list (map bandwidth ns)) = bw_sum ns" using assms(2) by (rule sum_list_bw)
  then have nz: "sum_list (map bandwidth ns) \<noteq> 0" using assms(1) by (metis less_irrefl unat_0)
  have w: "unat (word_of_nat w :: u64) = w" using assms(2,4) by (simp add: unat_of_nat)
  have share: "weighted_scan 0 ns (word_of_nat w) = Some k \<longleftrightarrow>
      bw_sum (take k ns) \<le> w \<and> w < bw_sum (take (Suc k) ns)" if "k < length ns" for k
    using weighted_scan_share [OF that, of 0 "word_of_nat w"] w by simp
  have "weighted_scan 0 ns (word_of_nat w) \<noteq> None"
  proof
    assume none: "weighted_scan 0 ns (word_of_nat w) = None"
    have "w < bw_sum (take (length ns) ns)" using assms(4) by simp
    define k where "k = (LEAST k. w < bw_sum (take k ns))"
    have k: "w < bw_sum (take k ns)" "k \<le> length ns"
      unfolding k_def using assms(4) by (auto intro: LeastI [of _ "length ns"] Least_le)
    have "k \<noteq> 0" using k(1) by (cases k) (simp_all add: bw_sum_def)
    then obtain j where j: "k = Suc j" by (cases k) auto
    then have "\<not> w < bw_sum (take j ns)" using not_less_Least [of j "\<lambda>k. w < bw_sum (take k ns)"] k_def by auto
    with share [of j] j k none show False by auto
  qed
  then obtain k where k: "weighted_scan 0 ns (word_of_nat w) = Some k" by blast
  have "fst (select_weighted_index rr r ns) = Inr k"
    using ne nz k assms(3) tot by (auto simp: select_weighted_index_def Let_def split: prod.splits)
  with k share [OF assms(5)] show ?thesis by auto
qed

text \<open>
  C34. Selection is weighted by bandwidth: of the \<open>total\<close> equally likely draws, exactly as many
  choose node \<open>i\<close> as its bandwidth, provided the bandwidths sum to less than \<open>2^64\<close> (the sum
  is a wrapping 64-bit addition in the code).
\<close>

theorem weighted_selection:
  assumes "i < length ns" "0 < bw_sum ns" "bw_sum ns < 2 ^ 64"
  shows "card {w. w < bw_sum ns \<and> fst (select_weighted_index (\<lambda>r n. (w, r)) r ns) = Inr i} =
    unat (bandwidth (ns ! i))"
proof -
  have "{w. w < bw_sum ns \<and> fst (select_weighted_index (\<lambda>r n. (w, r)) r ns) = Inr i} =
      {bw_sum (take i ns)..<bw_sum (take (Suc i) ns)}"
    using assms select_weighted_draw [OF assms(2,3) _ _ assms(1), of "\<lambda>r n. (w, r)" r w for w]
      bw_sum_take_mono [of "Suc i" ns]
    by auto
  then show ?thesis using bw_sum_take_Suc [OF assms(1)] by simp
qed

theorem weighted_selection_witness:
  "card {w. w < 5 \<and> fst (select_weighted_index (\<lambda>r n. (w, r)) () [sample_node ''a'' Entry [10, 0, 0, 1] 2,
     sample_node ''b'' Entry [10, 0, 0, 2] 3]) = Inr 1} = 3"
  using weighted_selection [of 1 "[sample_node ''a'' Entry [10, 0, 0, 1] 2, sample_node ''b'' Entry [10, 0, 0, 2] 3]" "()"]
  by (simp add: bw_sum_def sample_node_def nd_new_def)

text \<open>The selection never leaves the list, whatever the draw wraps to.\<close>

lemma select_weighted_index_lt:
  assumes "draw_ok rr" "select_weighted_index rr r ns = (Inr i, r')"
  shows "i < length ns"
proof -
  have "ns \<noteq> []" using assms(2) by (auto simp: select_weighted_index_def)
  then have "fst (rr r (length ns)) < length ns" using assms(1) by (auto simp: draw_ok_def)
  with assms(2) \<open>ns \<noteq> []\<close> show ?thesis
    by (auto simp: select_weighted_index_def Let_def split: if_splits prod.splits option.splits
        dest: weighted_scan_Some)
qed

lemma select_weighted_index_ok:
  "ns \<noteq> [] \<Longrightarrow> \<exists>i r'. select_weighted_index rr r ns = (Inr i, r')"
  by (auto simp: select_weighted_index_def Let_def split: prod.splits option.splits)

lemma select_weighted_node_in:
  "select_weighted_node rr r ns = (Inr n, r') \<Longrightarrow> n \<in> set ns"
  by (auto simp: select_weighted_node_def get_at_def split: sum.splits prod.splits if_splits)

lemma select_weighted_node_ok:
  "draw_ok rr \<Longrightarrow> ns \<noteq> [] \<Longrightarrow> \<exists>n r'. select_weighted_node rr r ns = (Inr n, r')"
  using select_weighted_index_ok [of ns rr r] select_weighted_index_lt [of rr r ns]
  by (auto simp: select_weighted_node_def get_at_def)

section \<open>What a path guarantees\<close>

text \<open>The addresses and operators that must not repeat along a path.\<close>

definition ip_keys :: "bool \<Rightarrow> node_descriptor list \<Rightarrow> ip_addr list" where
  "ip_keys same_ip ns = (if same_ip then [] else filter (\<lambda>ip. \<not> is_loopback ip) (map node_ip ns))"

fun op_keys :: "node_descriptor list \<Rightarrow> string list" where
  "op_keys [] = []"
| "op_keys (n # ns) = (case operator_id n of None \<Rightarrow> op_keys ns | Some op \<Rightarrow> op # op_keys ns)"

lemma op_keys_append [simp]: "op_keys (ms @ ns) = op_keys ms @ op_keys ns"
  by (induction ms) (auto split: option.splits)

lemma ip_keys_simps [simp]:
  "ip_keys s [] = []"
  "ip_keys s (ms @ ns) = ip_keys s ms @ ip_keys s ns"
  "ip_keys s (n # ns) = (if s \<or> is_loopback (node_ip n) then [] else [node_ip n]) @ ip_keys s ns"
  by (auto simp: ip_keys_def)

lemma set_exclude [simp]:
  "set (exclude_ip s n ips) = set (ip_keys s [n]) \<union> set ips"
  "set (exclude_op n ops) = set (op_keys [n]) \<union> set ops"
  by (auto simp: exclude_ip_def exclude_op_def split: option.splits)

lemma middle_ok_iff:
  "middle_ok s ips ops n \<longleftrightarrow> set (ip_keys s [n]) \<inter> set ips = {} \<and> set (op_keys [n]) \<inter> set ops = {}"
  by (auto simp: middle_ok_def split: option.splits)

lemma set_remove_at: "set (remove_at i xs) \<subseteq> set xs"
  by (auto simp: remove_at_def dest: in_set_takeD in_set_dropD)

lemma remove_at_distinct:
  "distinct xs \<Longrightarrow> i < length xs \<Longrightarrow> distinct (remove_at i xs) \<and> xs ! i \<notin> set (remove_at i xs)"
  using id_take_nth_drop [of i xs] distinct_append [of "take i xs" "xs ! i # drop (Suc i) xs"]
  by (auto simp: remove_at_def)

lemma length_remove_at: "i < length xs \<Longrightarrow> length (remove_at i xs) = length xs - 1"
  by (simp add: remove_at_def)

text \<open>The middle loop picks that many nodes, free of conflicts with what is excluded and with each other.\<close>

lemma pick_middles_sound:
  assumes "draw_ok rr" "pick_middles rr s k avail ips ops r = (Inr ms, r')"
  shows "length ms = k \<and> set ms \<subseteq> set avail \<and> (distinct avail \<longrightarrow> distinct ms) \<and>
    distinct (ip_keys s ms) \<and> set (ip_keys s ms) \<inter> set ips = {} \<and>
    distinct (op_keys ms) \<and> set (op_keys ms) \<inter> set ops = {}"
  using assms(2)
proof (induction k arbitrary: avail ips ops r ms)
  case (Suc k)
  define av where "av = filter (middle_ok s ips ops) avail"
  obtain idx r1 where sel: "select_weighted_index rr r av = (Inr idx, r1)"
    and rest: "\<exists>ms'. pick_middles rr s k (remove_at idx av) (exclude_ip s (av ! idx) ips)
      (exclude_op (av ! idx) ops) r1 = (Inr ms', r') \<and> ms = av ! idx # ms'"
    using Suc.prems by (auto simp: Let_def av_def [symmetric] split: if_splits sum.splits prod.splits)
  from rest obtain ms' where ms': "pick_middles rr s k (remove_at idx av) (exclude_ip s (av ! idx) ips)
      (exclude_op (av ! idx) ops) r1 = (Inr ms', r')" and ms: "ms = av ! idx # ms'" by blast
  have idx: "idx < length av" using select_weighted_index_lt [OF assms(1) sel] .
  then have "av ! idx \<in> set av" by simp
  then have n: "av ! idx \<in> set avail" "middle_ok s ips ops (av ! idx)" by (auto simp: av_def)
  note IH = Suc.IH [OF ms']
  have sub: "set (remove_at idx av) \<subseteq> set avail" using set_remove_at [of idx av] by (auto simp: av_def)
  have dist: "distinct avail \<Longrightarrow> distinct ms"
    using IH remove_at_distinct [of av idx] idx by (auto simp: ms av_def)
  have "length ms = Suc k" "set ms \<subseteq> set avail" using IH sub n(1) by (auto simp: ms)
  moreover have "distinct (ip_keys s ms)" "set (ip_keys s ms) \<inter> set ips = {}"
    using IH n(2) by (auto simp: ms middle_ok_iff)
  moreover have "distinct (op_keys ms)" "set (op_keys ms) \<inter> set ops = {}"
    using IH n(2) by (auto simp: ms middle_ok_iff split: option.splits)
  ultimately show ?case using dist by blast
qed simp

lemma nodes_by_type:
  "n \<in> set (get_nodes_by_type t reg) \<Longrightarrow> n \<in> set (get_all_nodes reg) \<and> node_type n = t"
  by (auto simp: get_nodes_by_type_def get_all_nodes_def)

lemma distinct_by_type:
  assumes "reg_inv now reg"
  shows "distinct (map node_id (get_nodes_by_type t reg))"
proof -
  have key: "node_id (descriptor e) = k" if "(k, e) \<in> set (nodes reg)" for k e
    using that reg_invD(1,2) [OF assms] by (simp add: hm_get_in_set)
  have "map node_id (get_nodes_by_type t reg) = map fst (filter (\<lambda>kv. node_type (descriptor (snd kv)) = t) (nodes reg))"
    by (auto simp: get_nodes_by_type_def hm_values_def filter_map o_def intro!: key)
  moreover have "distinct (map fst (nodes reg))" using reg_invD(1) [OF assms] by (simp add: hm_wf_def)
  ultimately show ?thesis by (simp add: distinct_map_filter)
qed

lemma distinct_mapD: "distinct (map f xs) \<Longrightarrow> distinct xs"
  by (simp add: distinct_map)

lemma get_random_path_sound:
  assumes "draw_ok rr" "reg_inv now reg" "get_random_path rr reg count r = (Inr path, r')"
  shows "3 \<le> count \<and> length path = count \<and>
    node_type (hd path) = Entry \<and> node_type (last path) = Exit \<and>
    (\<forall>n \<in> set (butlast (tl path)). node_type n = Middle) \<and>
    set path \<subseteq> set (get_all_nodes reg) \<and> distinct path \<and>
    distinct (ip_keys (allow_same_ip reg) path) \<and> distinct (op_keys path)"
proof -
  let ?s = "allow_same_ip reg"
  obtain ex en ms r1 r2 where pre: "path_precheck reg count = None"
    and ex: "select_weighted_node rr r (get_nodes_by_type Exit reg) = (Inr ex, r1)"
    and en: "select_weighted_node rr r1 (get_nodes_by_type Entry reg) = (Inr en, r2)"
    and ip: "\<not> (\<not> ?s \<and> \<not> is_loopback (node_ip en) \<and> node_ip en \<in> set (exclude_ip ?s ex []))"
    and op: "\<not> (case operator_id en of None \<Rightarrow> False | Some op \<Rightarrow> op \<in> set (exclude_op ex []))"
    and mid: "pick_middles rr ?s (count - 2) (get_nodes_by_type Middle reg)
      (exclude_ip ?s en (exclude_ip ?s ex [])) (exclude_op en (exclude_op ex [])) r2 = (Inr ms, r')"
    and path: "path = en # ms @ [ex]"
    using assms(3)
    by (auto simp: get_random_path_def Let_def split: option.splits prod.splits sum.splits if_splits)
  have count: "3 \<le> count" using pre by (auto simp: path_precheck_def split: if_splits)
  note sound = pick_middles_sound [OF assms(1) mid]
  have types: "node_type ex = Exit" "node_type en = Entry" "\<forall>n \<in> set ms. node_type n = Middle"
    using select_weighted_node_in [OF ex] select_weighted_node_in [OF en] sound nodes_by_type by blast+
  have reg: "set path \<subseteq> set (get_all_nodes reg)"
    using select_weighted_node_in [OF ex] select_weighted_node_in [OF en] sound nodes_by_type
    by (auto simp: path)
  have "distinct ms" using sound distinct_mapD [OF distinct_by_type [OF assms(2)]] by blast
  with types have dist: "distinct path" by (auto simp: path)
  have "set (ip_keys ?s [en]) \<inter> set (ip_keys ?s [ex]) = {}" using ip by auto
  with sound have ips: "distinct (ip_keys ?s path)" by (auto simp: path)
  have "set (op_keys [en]) \<inter> set (op_keys [ex]) = {}" using op by (auto split: option.splits)
  with sound have ops: "distinct (op_keys path)" by (auto simp: path split: option.splits)
  show ?thesis using count sound types reg dist ips ops by (auto simp: path)
qed

text \<open>
  C16. A path handed to a client has the requested number of hops (at least three): an entry
  node, middles, an exit, all of them registered and all different; unless the service runs
  with shared addresses allowed, no two hops share a non-loopback IP address; no two hops
  share an operator.
\<close>

theorem random_path_sound:
  assumes "draw_ok rr" "reg_inv now reg" "get_random_path rr reg count r = (Inr path, r')"
  shows "3 \<le> count \<and> length path = count \<and>
    node_type (hd path) = Entry \<and> node_type (last path) = Exit \<and>
    (\<forall>n \<in> set (butlast (tl path)). node_type n = Middle) \<and>
    set path \<subseteq> set (get_all_nodes reg) \<and> distinct path \<and>
    distinct (ip_keys (allow_same_ip reg) path) \<and> distinct (op_keys path)"
  using get_random_path_sound [OF assms] .

text \<open>A registry of one node of each type on three addresses, for the witnesses.\<close>

definition sample_registry :: node_registry where
  "sample_registry =
     register_node 3 (sample_node ''e'' Entry [10, 0, 0, 1] 5)
       (register_node 2 (sample_node ''m'' Middle [10, 0, 0, 2] 5)
         (register_node 1 (sample_node ''x'' Exit [10, 0, 0, 3] 5) (registry_new False)))"

lemma sample_registry_inv: "reg_inv 3 sample_registry"
  unfolding sample_registry_def
  by (rule reg_inv_register [of 2], rule reg_inv_register [of 1], rule reg_inv_register [of 0]) simp_all

lemma sample_path:
  "get_random_path (\<lambda>r n. (0, r)) sample_registry 3 () =
     (Inr [sample_node ''e'' Entry [10, 0, 0, 1] 5, sample_node ''m'' Middle [10, 0, 0, 2] 5,
        sample_node ''x'' Exit [10, 0, 0, 3] 5], ())"
  by code_simp

theorem random_path_sound_witness:
  "node_type (hd (projr (fst (get_random_path (\<lambda>r n. (0, r)) sample_registry 3 ())))) = Entry"
proof -
  have "draw_ok (\<lambda>(r :: unit) n. (0, r))" by (simp add: draw_ok_def)
  from random_path_sound [OF this sample_registry_inv sample_path] show ?thesis
    unfolding sample_path fst_conv sum.sel by blast
qed

text \<open>Selecting middles succeeds when nothing can conflict and there are enough of them.\<close>

lemma pick_middles_complete:
  assumes "draw_ok rr" "\<forall>n \<in> set avail. operator_id n = None" "k \<le> length avail"
  shows "\<exists>ms r'. pick_middles rr True k avail ips ops r = (Inr ms, r')"
  using assms(2,3)
proof (induction k arbitrary: avail ips ops r)
  case (Suc k)
  have av: "filter (middle_ok True ips ops) avail = avail"
    using Suc.prems(1) by (auto simp: filter_id_conv middle_ok_def)
  obtain i r1 where sel: "select_weighted_index rr r avail = (Inr i, r1)"
    using select_weighted_index_ok [of avail rr r] Suc.prems(2) by (cases avail) auto
  have i: "i < length avail" using select_weighted_index_lt [OF assms(1) sel] .
  have "\<forall>n \<in> set (remove_at i avail). operator_id n = None" using Suc.prems(1) set_remove_at [of i avail] by blast
  moreover have "k \<le> length (remove_at i avail)" using Suc.prems(2) i by (simp add: length_remove_at)
  ultimately obtain ms r2 where "pick_middles rr True k (remove_at i avail)
      (exclude_ip True (avail ! i) ips) (exclude_op (avail ! i) ops) r1 = (Inr ms, r2)"
    using Suc.IH by blast
  with sel av Suc.prems(2) show ?case by (simp add: Let_def not_less)
qed simp

text \<open>
  C22. With shared addresses allowed and no operator tags, a path is found exactly when the
  hop count is at least three and there are an entry, an exit and enough middles; in
  particular a ready registry always yields a three-hop path.
\<close>

theorem random_path_complete:
  assumes "draw_ok rr" "allow_same_ip reg" "\<forall>n \<in> set (get_all_nodes reg). operator_id n = None"
  shows "is_ok (fst (get_random_path rr reg count r)) \<longleftrightarrow>
      3 \<le> count \<and> is_ready reg \<and> count - 2 \<le> length (get_nodes_by_type Middle reg)"
proof (cases "path_precheck reg count")
  case (Some e)
  then have "fst (get_random_path rr reg count r) = Inl e" by (simp add: get_random_path_def)
  moreover have "\<not> (3 \<le> count \<and> is_ready reg \<and> count - 2 \<le> length (get_nodes_by_type Middle reg))"
    using Some by (auto simp: path_precheck_def is_ready_def)
  ultimately show ?thesis by simp
next
  case None
  then have pre: "3 \<le> count" "is_ready reg" "count - 2 \<le> length (get_nodes_by_type Middle reg)"
    by (auto simp: path_precheck_def is_ready_def split: if_splits)
  then have ne: "get_nodes_by_type Exit reg \<noteq> []" "get_nodes_by_type Entry reg \<noteq> []"
    by (auto simp: is_ready_def)
  obtain ex r1 where ex: "select_weighted_node rr r (get_nodes_by_type Exit reg) = (Inr ex, r1)"
    using select_weighted_node_ok [OF assms(1) ne(1)] by blast
  obtain en r2 where en: "select_weighted_node rr r1 (get_nodes_by_type Entry reg) = (Inr en, r2)"
    using select_weighted_node_ok [OF assms(1) ne(2)] by blast
  have "operator_id en = None" using select_weighted_node_in [OF en] nodes_by_type assms(3) by blast
  moreover have "\<forall>n \<in> set (get_nodes_by_type Middle reg). operator_id n = None"
    using nodes_by_type assms(3) by blast
  then obtain ms r3 where "pick_middles rr True (count - 2) (get_nodes_by_type Middle reg)
      (exclude_ip True en (exclude_ip True ex [])) (exclude_op en (exclude_op ex [])) r2 = (Inr ms, r3)"
    using pick_middles_complete [OF assms(1) _ pre(3)] by blast
  ultimately have "fst (get_random_path rr reg count r) = Inr (en # ms @ [ex])"
    using None ex en assms(2) by (simp add: get_random_path_def Let_def)
  with pre show ?thesis by simp
qed

theorem random_path_complete_witness:
  "is_ok (fst (get_random_path (\<lambda>r n. (0, r)) (sample_registry\<lparr>allow_same_ip := True\<rparr>) 3 ()))"
proof -
  have "is_ready (sample_registry\<lparr>allow_same_ip := True\<rparr>)"
    "length (get_nodes_by_type Middle (sample_registry\<lparr>allow_same_ip := True\<rparr>)) = 1"
    "\<forall>n \<in> set (get_all_nodes (sample_registry\<lparr>allow_same_ip := True\<rparr>)). operator_id n = None"
    by code_simp+
  then show ?thesis
    using random_path_complete [of "\<lambda>r n. (0, r)" "sample_registry\<lparr>allow_same_ip := True\<rparr>" 3 "()"]
    by (simp add: draw_ok_def)
qed

text \<open>
  The entry is drawn without regard to the exit: a conflict is reported as missing nodes even
  when another draw would have found a path.
\<close>

lemma random_path_spurious_error:
  "let reg = register_node 4 ((sample_node ''e2'' Entry [10, 0, 0, 3] 5)\<lparr>address := SocketAddr (V4 [10, 0, 0, 3]) 9 0\<rparr>)
         sample_registry
   in fst (get_random_path (\<lambda>r n. (if n = 10 then 7 else 0, r)) reg 3 ()) =
        Inl (InsufficientNodes ''entry and exit share the same IP address'') \<and>
      is_ok (fst (get_random_path (\<lambda>r n. (0, r)) reg 3 ()))"
  by code_simp

end
