(* ===== verification/Relay_Context.thy ===== *)
theory Relay_Context
  imports Tor_Metrics Onion_Keys
begin

text \<open>
  What the circuit handlers of a relay share (\<open>relay-node/src/circuit/handler.rs\<close>): the
  circuit context with its cipher pair, the connection to the next hop, and the world a
  handler runs in. The network is a function from addresses to peers; a peer presents a
  certificate and answers what it has received. Reading its answer may take longer than the
  handshake timeout.
\<close>

section \<open>UTF-8\<close>

definition is_cont :: "byte \<Rightarrow> bool" where
  "is_cont b = (0x80 \<le> b \<and> b \<le> 0xBF)"

text \<open>\<open>std::str::from_utf8\<close>: well-formed UTF-8 without surrogates and overlong forms.\<close>

fun utf8_ok :: "bytes \<Rightarrow> bool" where
  "utf8_ok [] = True"
| "utf8_ok (a # r1) =
     (if a < 0x80 then utf8_ok r1
      else case r1 of [] \<Rightarrow> False | b # r2 \<Rightarrow>
        if 0xC2 \<le> a \<and> a \<le> 0xDF then is_cont b \<and> utf8_ok r2
        else case r2 of [] \<Rightarrow> False | c # r3 \<Rightarrow>
          if 0xE0 \<le> a \<and> a \<le> 0xEF
          then (if a = 0xE0 then 0xA0 \<le> b \<and> b \<le> 0xBF
                else if a = 0xED then 0x80 \<le> b \<and> b \<le> 0x9F else is_cont b) \<and> is_cont c \<and> utf8_ok r3
          else case r3 of [] \<Rightarrow> False | d # r4 \<Rightarrow>
            0xF0 \<le> a \<and> a \<le> 0xF4 \<and>
            (if a = 0xF0 then 0x90 \<le> b \<and> b \<le> 0xBF
             else if a = 0xF4 then 0x80 \<le> b \<and> b \<le> 0x8F else is_cont b) \<and>
            is_cont c \<and> is_cont d \<and> utf8_ok r4)"

definition bytes_str :: "bytes \<Rightarrow> string" where
  "bytes_str bs = map (\<lambda>b. char_of (unat b)) bs"

definition from_utf8 :: "bytes \<Rightarrow> any_error + string" where
  "from_utf8 bs = (if utf8_ok bs then Inr (bytes_str bs) else Inl Utf8Err)"

lemma unat_of_char: "unat (of_char c :: byte) = of_char c"
proof -
  have "(of_char c :: byte) = word_of_nat (of_char c)" by (metis of_nat_of_char)
  then show ?thesis by (simp add: unat_of_nat)
qed

lemma bytes_str_str_bytes [simp]: "bytes_str (str_bytes s) = s"
  by (simp add: bytes_str_def str_bytes_def unat_of_char o_def)

lemma length_str_bytes [simp]: "length (str_bytes s) = length s"
  by (simp add: str_bytes_def)

lemma utf8_ok_ascii: "\<forall>b \<in> set bs. b < 0x80 \<Longrightarrow> utf8_ok bs"
  by (induction bs) auto

section \<open>Contexts\<close>

datatype circuit_state = Initializing | Active | Closing | Closed

record circuit_context =
  cx_circuit_id :: u32
  cx_state :: circuit_state
  cx_session_key :: "session_key option"
  cx_cipher_pair :: "cipher_pair option"

definition cx_new :: "u32 \<Rightarrow> circuit_context" where
  "cx_new c = \<lparr>cx_circuit_id = c, cx_state = Initializing, cx_session_key = None, cx_cipher_pair = None\<rparr>"

definition cx_activate :: "session_key \<Rightarrow> circuit_context \<Rightarrow> circuit_context" where
  "cx_activate k cx =
     cx\<lparr>cx_cipher_pair := Some (cipher_pair_new k), cx_session_key := Some k, cx_state := Active\<rparr>"

definition cx_close :: "circuit_context \<Rightarrow> circuit_context" where
  "cx_close cx = cx\<lparr>cx_state := Closed, cx_session_key := None, cx_cipher_pair := None\<rparr>"

section \<open>Connections\<close>

record relay_stream =
  rs_read :: reader
  rs_write :: writer

text \<open>\<open>NextHop\<close>: the write half stays, the read half is taken by the background reader.\<close>

record next_hop =
  nh_write :: writer
  nh_read :: "reader option"

definition nh_new :: "relay_stream \<Rightarrow> next_hop" where
  "nh_new s = \<lparr>nh_write = rs_write s, nh_read = Some (rs_read s)\<rparr>"

definition nh_take_read :: "next_hop \<Rightarrow> reader option \<times> next_hop" where
  "nh_take_read h = (nh_read h, h\<lparr>nh_read := None\<rparr>)"

text \<open>
  A peer: its certificate, whether the rest of the TLS handshake succeeds, its write half
  and what it answers to the bytes it has received, or \<open>None\<close> when that takes longer than
  the timeout of the reader.
\<close>

record peer =
  peer_cert :: bytes
  peer_tls_ok :: bool
  peer_write :: writer
  peer_reply :: "bytes \<Rightarrow> reader option"

type_synonym network = "socket_addr \<Rightarrow> peer option"

text \<open>The TLS connector: the fingerprint verifier decides about the certificate.\<close>

definition tls_connect :: "prims \<Rightarrow> string \<Rightarrow> peer \<Rightarrow> bool" where
  "tls_connect P fingerprint p =
     (peer_tls_ok p \<and> is_ok (verify_server_cert P fingerprint (peer_cert p) []))"

text \<open>
  What a handler runs in: primitives, the network of relays, fresh ntor secret, the clock, the
  text of the system's error messages, and the destinations an exit can connect to.
\<close>

record relay_env =
  re_prims :: prims
  re_net :: network
  re_secret :: bytes
  re_now :: nat
  re_os_error :: string
  re_dest :: "string \<Rightarrow> bool"

fun show_error :: "relay_env \<Rightarrow> any_error \<Rightarrow> string" where
  "show_error e (Msg s) = s"
| "show_error e (Tor er) = show_tor_error (re_os_error e) er"
| "show_error e other = re_os_error e"

text \<open>The derived \<open>Debug\<close> form of a command.\<close>

fun debug_command :: "message_command \<Rightarrow> string" where
  "debug_command Padding = ''Padding''"
| "debug_command Create = ''Create''"
| "debug_command Created = ''Created''"
| "debug_command Extend = ''Extend''"
| "debug_command Extended = ''Extended''"
| "debug_command Destroy = ''Destroy''"
| "debug_command Begin = ''Begin''"
| "debug_command Connected = ''Connected''"
| "debug_command Data = ''Data''"
| "debug_command End = ''End''"

text \<open>
  The outcome of a handler: Rust's \<open>Result<Option<Message>>\<close>.
\<close>

type_synonym reply = "any_error + message option"

text \<open>\<open>if let Some(m) = &self.metrics\<close>: the flag says whether the handler has metrics.\<close>

definition with_metrics :: "bool \<Rightarrow> (relay_metrics \<Rightarrow> relay_metrics) \<Rightarrow> relay_metrics \<Rightarrow> relay_metrics" where
  "with_metrics b f m = (if b then f m else m)"

text \<open>\<open>iter().position(|&b| b == 0)\<close>.\<close>

definition position_zero :: "bytes \<Rightarrow> nat option" where
  "position_zero bs = (let n = length (takeWhile (\<lambda>b. b \<noteq> 0) bs) in if n < length bs then Some n else None)"

lemma position_zero_append: "0 \<notin> set as \<Longrightarrow> position_zero (as @ 0 # bs) = Some (length as)"
proof -
  assume "0 \<notin> set as"
  then have "takeWhile (\<lambda>b. b \<noteq> 0) (as @ 0 # bs) = as"
    by (induction as) auto
  then show ?thesis by (simp add: position_zero_def)
qed

lemma cx_activate_fields [simp]:
  "cx_circuit_id (cx_activate k cx) = cx_circuit_id cx" "cx_state (cx_activate k cx) = Active"
  "cx_session_key (cx_activate k cx) = Some k" "cx_cipher_pair (cx_activate k cx) = Some (cipher_pair_new k)"
  by (simp_all add: cx_activate_def)

lemma cx_close_fields [simp]:
  "cx_circuit_id (cx_close cx) = cx_circuit_id cx" "cx_state (cx_close cx) = Closed"
  "cx_session_key (cx_close cx) = None" "cx_cipher_pair (cx_close cx) = None"
  by (simp_all add: cx_close_def)

text \<open>
  Well-formed contexts: a key exactly in the active state. The cipher pair goes with the key
  at the entry and the middle; the exit moves it to the state it shares with its stream tasks.
\<close>

definition cx_wf :: "circuit_context \<Rightarrow> bool" where
  "cx_wf cx = ((cx_session_key cx \<noteq> None) = (cx_state cx = Active) \<and>
     (cx_cipher_pair cx \<noteq> None \<longrightarrow> cx_state cx = Active) \<and> cx_state cx \<noteq> Closing)"

lemma cx_wf_ops [simp]: "cx_wf (cx_new c)" "cx_wf (cx_activate k cx)" "cx_wf (cx_close cx)"
  by (simp_all add: cx_wf_def cx_new_def)

section \<open>The contract of a circuit handler\<close>

text \<open>
  What the dispatch relies on, whatever the role of the relay: \<open>ctx\<close> is the circuit context
  inside the state of the handler.
\<close>

locale handler_contract =
  fixes handle :: "'e \<Rightarrow> message \<Rightarrow> 's \<Rightarrow> reply \<times> 's"
    and ctx :: "'s \<Rightarrow> circuit_context"
    and created :: "'e \<Rightarrow> 's \<Rightarrow> bytes \<Rightarrow> bytes \<times> bytes \<times> session_key"
  assumes destroy: "command m = Destroy \<Longrightarrow>
      fst (handle e m s) = Inr None \<and> ctx (snd (handle e m s)) = cx_close (ctx s)"
    and padding: "command m = Padding \<Longrightarrow> handle e m s = (Inr None, s)"
    and create_short: "command m = Create \<Longrightarrow> length (data m) < 32 \<Longrightarrow>
      handle e m s = (Inl (Msg ''CREATE message too short''), s)"
    and create: "command m = Create \<Longrightarrow> 32 \<le> length (data m) \<Longrightarrow>
      created e s (take 32 (data m)) = (y_pub, auth, k) \<Longrightarrow>
      fst (handle e m s) = Inr (Some (msg_created (cx_circuit_id (ctx s)) (y_pub @ auth))) \<and>
      cx_session_key (ctx (snd (handle e m s))) = Some k"
    and id_preserved: "cx_circuit_id (ctx (snd (handle e m s))) = cx_circuit_id (ctx s)"
    and wf_preserved: "cx_wf (ctx s) \<Longrightarrow> cx_wf (ctx (snd (handle e m s)))"
    and key_preserved: "command m \<notin> {Create, Destroy} \<Longrightarrow>
      cx_session_key (ctx (snd (handle e m s))) = cx_session_key (ctx s)"
begin

text \<open>A run of messages: context well formed, id fixed; only CREATE gives a closed circuit a key.\<close>

fun run :: "'e list \<Rightarrow> message list \<Rightarrow> 's \<Rightarrow> 's" where
  "run (e # es) (m # ms) s = run es ms (snd (handle e m s))"
| "run es ms s = s"

lemma run_wf: "cx_wf (ctx s) \<Longrightarrow> cx_wf (ctx (run es ms s)) \<and> cx_circuit_id (ctx (run es ms s)) = cx_circuit_id (ctx s)"
  by (induction es ms s rule: run.induct) (simp_all add: wf_preserved id_preserved)

lemma closed_stays_closed:
  "cx_wf (ctx s) \<Longrightarrow> cx_session_key (ctx s) = None \<Longrightarrow> \<forall>m \<in> set ms. command m \<noteq> Create \<Longrightarrow>
   cx_session_key (ctx (run es ms s)) = None \<and> cx_state (ctx (run es ms s)) \<noteq> Active"
proof (induction es ms s rule: run.induct)
  case (1 e es m ms s)
  have "cx_session_key (ctx (snd (handle e m s))) = None"
    using 1 key_preserved [of m e s] destroy [of m e s] by (cases "command m = Destroy") auto
  with 1 show ?case by (simp add: wf_preserved)
qed (auto simp: cx_wf_def)

lemma destroyed_run:
  assumes "cx_wf (ctx s)" "command m = Destroy" "\<forall>m \<in> set ms. command m \<noteq> Create"
  shows "cx_session_key (ctx (run (e # es) (m # ms) s)) = None"
  using closed_stays_closed [of "snd (handle e m s)" ms es] assms destroy [of m e s]
  by (simp add: wf_preserved)

end

end
