(* ===== verification/Relay_Entry.thy ===== *)
theory Relay_Entry
  imports Relay_Context
begin

text \<open>
  The entry relay (\<open>relay-node/src/circuit/entry.rs\<close>): CREATE, EXTEND, the forward relay
  that peels one layer, the backward relay that adds one, DESTROY. An operation takes the
  environment, the message and the pair of handler and relay metrics and returns the reply
  and the pair, which is updated also where the reply is an error: the cipher has advanced
  before the payload of an EXTEND is parsed.
\<close>

record entry_handler =
  eh_context :: circuit_context
  eh_keypair :: key_pair
  eh_next_hop :: "next_hop option"
  eh_metrics :: bool

type_synonym entry_state = "entry_handler \<times> relay_metrics"

definition entry_new :: "u32 \<Rightarrow> key_pair \<Rightarrow> entry_handler" where
  "entry_new c kp = \<lparr>eh_context = cx_new c, eh_keypair = kp, eh_next_hop = None, eh_metrics = False\<rparr>"

definition entry_set_metrics :: "entry_handler \<Rightarrow> entry_handler" where
  "entry_set_metrics h = h\<lparr>eh_metrics := True\<rparr>"

definition entry_handle_create :: "relay_env \<Rightarrow> message \<Rightarrow> entry_state \<Rightarrow> reply \<times> entry_state" where
  "entry_handle_create e m st =
     (let (h, mt) = st in
      if length (data m) < 32 then (Inl (Msg ''CREATE message too short''), st)
      else case get_range (data m) 0 32 of
        None \<Rightarrow> (Inl (Msg ''Invalid CREATE data''), st)
      | Some client_public \<Rightarrow>
          let (server_eph_pub, auth, k) =
                kp_ntor_server_handshake (re_prims e) (re_secret e) (eh_keypair h) client_public;
              h = h\<lparr>eh_context := cx_activate k (eh_context h)\<rparr>;
              payload = server_eph_pub @ auth
          in (Inr (Some (msg_created (cx_circuit_id (eh_context h)) payload)), (h, mt)))"

text \<open>The decrypted EXTEND: address, zero byte, ephemeral key, zero byte, fingerprint.\<close>

definition entry_parse_extend :: "bytes \<Rightarrow> any_error + (string \<times> bytes \<times> string)" where
  "entry_parse_extend d =
     (if length d < 33 then Inl (Msg ''EXTEND payload too short'')
      else case position_zero d of
        None \<Rightarrow> Inl (Msg ''EXTEND payload missing address separator'')
      | Some addr_end \<Rightarrow> case get_range d 0 addr_end of
        None \<Rightarrow> Inl (Msg ''Invalid address in EXTEND payload'')
      | Some addr_bytes \<Rightarrow> case from_utf8 addr_bytes of Inl er \<Rightarrow> Inl er
      | Inr addr_str \<Rightarrow>
        let key_start = addr_end + 1; key_end = key_start + 32 in
        if length d < key_end then Inl (Msg ''EXTEND payload too short for ephemeral key'')
        else case get_range d key_start key_end of
          None \<Rightarrow> Inl (Msg ''Invalid ephemeral key in EXTEND payload'')
        | Some client_public \<Rightarrow> case get_at d key_end of
          None \<Rightarrow> Inl (Msg ''EXTEND payload missing fingerprint separator'')
        | Some fp_start \<Rightarrow>
          if fp_start \<noteq> 0 then Inl (Msg ''EXTEND payload missing fingerprint separator'')
          else case get_range d (key_end + 1) (length d) of
            None \<Rightarrow> Inl (Msg ''EXTEND payload missing TLS fingerprint'')
          | Some fp_bytes \<Rightarrow> case from_utf8 fp_bytes of Inl er \<Rightarrow> Inl er
          | Inr fingerprint \<Rightarrow> Inr (addr_str, client_public, fingerprint))"

text \<open>Connect to the next hop, send CREATE, wait for CREATED.\<close>

definition entry_dial ::
  "relay_env \<Rightarrow> u32 \<Rightarrow> string \<Rightarrow> bytes \<Rightarrow> string \<Rightarrow> any_error + (message \<times> relay_stream)"
where
  "entry_dial e cid addr_str client_public fingerprint =
     (case parse_socket_addr addr_str of None \<Rightarrow> Inl AddrParse
      | Some addr \<Rightarrow> case re_net e addr of None \<Rightarrow> Inl IoErr
      | Some p \<Rightarrow>
        if \<not> tls_connect (re_prims e) fingerprint p then Inl IoErr
        else case write_to_stream (msg_create cid client_public) (peer_write p) of
          (Inl er, w) \<Rightarrow> Inl (Tor er)
        | (Inr _, w) \<Rightarrow> case peer_reply p (wr_bytes w) of
            None \<Rightarrow> Inl (Msg (''Timed out waiting for CREATED from '' @ addr_str))
          | Some rd \<Rightarrow> case from_stream rd of
              (Inl er, rd) \<Rightarrow> Inl (Msg (''Error reading CREATED from '' @ addr_str @ '': '' @ show_error e er))
            | (Inr None, rd) \<Rightarrow> Inl (Msg (''Next hop closed connection waiting for CREATED from '' @ addr_str))
            | (Inr (Some cm), rd) \<Rightarrow>
                if command cm \<noteq> Created
                then Inl (Msg (''Expected CREATED from next hop, got '' @ debug_command (command cm)))
                else Inr (cm, \<lparr>rs_read = rd, rs_write = w\<rparr>))"

definition entry_handle_extend :: "relay_env \<Rightarrow> message \<Rightarrow> entry_state \<Rightarrow> reply \<times> entry_state" where
  "entry_handle_extend e m st =
     (let (h, mt) = st; cid = cx_circuit_id (eh_context h) in
      case cx_cipher_pair (eh_context h) of
        None \<Rightarrow> (Inl (Msg ''Circuit not yet established''), st)
      | Some cp \<Rightarrow>
        let (decrypted, cp) = apply_forward (re_prims e) cp (data m);
            h = h\<lparr>eh_context := (eh_context h)\<lparr>cx_cipher_pair := Some cp\<rparr>\<rparr>
        in case entry_parse_extend decrypted of Inl er \<Rightarrow> (Inl er, (h, mt))
        | Inr (addr_str, client_public, fingerprint) \<Rightarrow>
          case entry_dial e cid addr_str client_public fingerprint of Inl er \<Rightarrow> (Inl er, (h, mt))
          | Inr (created_msg, stream) \<Rightarrow>
            let h = h\<lparr>eh_next_hop := Some (nh_new stream)\<rparr>;
                mt = with_metrics (eh_metrics h) (rm_push_event (re_now e) (CircuitExtended cid addr_str)) mt;
                response = msg_extended cid (data created_msg);
                (encrypted, cp) = apply_backward (re_prims e) cp (data response);
                h = h\<lparr>eh_context := (eh_context h)\<lparr>cx_cipher_pair := Some cp\<rparr>\<rparr>
            in (Inr (Some (msg_extended cid encrypted)), (h, mt)))"

definition entry_handle_relay :: "relay_env \<Rightarrow> message \<Rightarrow> entry_state \<Rightarrow> reply \<times> entry_state" where
  "entry_handle_relay e m st =
     (let (h, mt) = st in
      case cx_cipher_pair (eh_context h) of
        None \<Rightarrow> (Inl (Msg ''Circuit not yet established''), st)
      | Some cp \<Rightarrow>
        let (decrypted, cp) = apply_forward (re_prims e) cp (data m);
            h = h\<lparr>eh_context := (eh_context h)\<lparr>cx_cipher_pair := Some cp\<rparr>\<rparr>
        in case eh_next_hop h of
          None \<Rightarrow> (Inr None, (h, mt))
        | Some hop \<Rightarrow>
            let fm = (msg_new (circuit_id m) (stream_id m) (command m) decrypted)\<lparr>digest := digest m\<rparr>
            in case write_to_stream fm (nh_write hop) of
                 (Inl er, w) \<Rightarrow> (Inl (Tor er), (h\<lparr>eh_next_hop := Some (hop\<lparr>nh_write := w\<rparr>)\<rparr>, mt))
               | (Inr _, w) \<Rightarrow> (Inr None, (h\<lparr>eh_next_hop := Some (hop\<lparr>nh_write := w\<rparr>)\<rparr>, mt)))"

definition entry_handle_backward_relay :: "relay_env \<Rightarrow> message \<Rightarrow> entry_state \<Rightarrow> reply \<times> entry_state" where
  "entry_handle_backward_relay e m st =
     (let (h, mt) = st in
      case cx_cipher_pair (eh_context h) of
        None \<Rightarrow> (Inl (Msg ''No session key established''), st)
      | Some cp \<Rightarrow>
        let (encrypted, cp) = apply_backward (re_prims e) cp (data m);
            h = h\<lparr>eh_context := (eh_context h)\<lparr>cx_cipher_pair := Some cp\<rparr>\<rparr>;
            response = (msg_new (circuit_id m) (stream_id m) (command m) encrypted)\<lparr>digest := digest m\<rparr>
        in (Inr (Some response), (h, mt)))"

definition entry_close :: "entry_handler \<Rightarrow> entry_handler" where
  "entry_close h = h\<lparr>eh_context := cx_close (eh_context h), eh_next_hop := None\<rparr>"

definition entry_handle_message :: "relay_env \<Rightarrow> message \<Rightarrow> entry_state \<Rightarrow> reply \<times> entry_state" where
  "entry_handle_message e m st =
     (case command m of
        Create \<Rightarrow> entry_handle_create e m st
      | Extend \<Rightarrow> if eh_next_hop (fst st) \<noteq> None then entry_handle_relay e m st else entry_handle_extend e m st
      | Data \<Rightarrow> entry_handle_relay e m st
      | Begin \<Rightarrow> entry_handle_relay e m st
      | End \<Rightarrow> entry_handle_relay e m st
      | Connected \<Rightarrow> entry_handle_relay e m st
      | Destroy \<Rightarrow> (Inr None, (entry_close (fst st), snd st))
      | Padding \<Rightarrow> (Inr None, st)
      | _ \<Rightarrow> (Inl (Msg (''Unexpected command: '' @ debug_command (command m))), st))"

text \<open>The accessors \<open>circuit_id\<close>, \<open>state\<close> and \<open>session_key\<close>.\<close>

definition entry_circuit_id :: "entry_handler \<Rightarrow> u32" where
  "entry_circuit_id h = cx_circuit_id (eh_context h)"

definition entry_state_of :: "entry_handler \<Rightarrow> circuit_state" where
  "entry_state_of h = cx_state (eh_context h)"

definition entry_session_key :: "entry_handler \<Rightarrow> session_key option" where
  "entry_session_key h = cx_session_key (eh_context h)"

lemmas entry_defs = entry_handle_create_def entry_handle_extend_def entry_handle_relay_def
  entry_handle_message_def entry_close_def

section \<open>Frames\<close>

lemma entry_relay_frame:
  "entry_handle_relay e m st = (r, st') \<Longrightarrow>
   cx_circuit_id (eh_context (fst st')) = cx_circuit_id (eh_context (fst st)) \<and>
   cx_state (eh_context (fst st')) = cx_state (eh_context (fst st)) \<and>
   cx_session_key (eh_context (fst st')) = cx_session_key (eh_context (fst st)) \<and>
   (cx_cipher_pair (eh_context (fst st')) = None) = (cx_cipher_pair (eh_context (fst st)) = None)"
  by (auto simp: entry_handle_relay_def Let_def split: prod.splits option.splits sum.splits)

lemma entry_extend_frame:
  "entry_handle_extend e m st = (r, st') \<Longrightarrow>
   cx_circuit_id (eh_context (fst st')) = cx_circuit_id (eh_context (fst st)) \<and>
   cx_state (eh_context (fst st')) = cx_state (eh_context (fst st)) \<and>
   cx_session_key (eh_context (fst st')) = cx_session_key (eh_context (fst st)) \<and>
   (cx_cipher_pair (eh_context (fst st')) = None) = (cx_cipher_pair (eh_context (fst st)) = None)"
  by (auto simp: entry_handle_extend_def Let_def split: prod.splits option.splits sum.splits)

section \<open>The contract\<close>

lemma entry_create_ok:
  assumes "32 \<le> length (data m)"
    and "kp_ntor_server_handshake (re_prims e) (re_secret e) (eh_keypair h) (take 32 (data m)) = (y_pub, auth, k)"
  shows "entry_handle_create e m (h, mt) =
    (Inr (Some (msg_created (cx_circuit_id (eh_context h)) (y_pub @ auth))),
     (h\<lparr>eh_context := cx_activate k (eh_context h)\<rparr>, mt))"
  using assms by (simp add: entry_handle_create_def get_range_def)

lemma entry_create_short:
  "length (data m) < 32 \<Longrightarrow> entry_handle_create e m st = (Inl (Msg ''CREATE message too short''), st)"
  by (cases st) (simp add: entry_handle_create_def)

lemma entry_create_cases:
  "(length (data m) < 32 \<and> entry_handle_create e m st = (Inl (Msg ''CREATE message too short''), st)) \<or>
   (\<exists>k r. entry_handle_create e m st = (r, ((fst st)\<lparr>eh_context := cx_activate k (eh_context (fst st))\<rparr>, snd st)))"
proof (cases "length (data m) < 32")
  case False
  obtain y_pub auth k where "kp_ntor_server_handshake (re_prims e) (re_secret e) (eh_keypair (fst st))
      (take 32 (data m)) = (y_pub, auth, k)" by (metis prod_cases3)
  from entry_create_ok [OF _ this] False show ?thesis by (cases st) auto
qed (simp add: entry_create_short)

lemma entry_message_context:
  assumes "entry_handle_message e m st = (r, st')"
  shows "cx_circuit_id (eh_context (fst st')) = cx_circuit_id (eh_context (fst st))"
    and "cx_wf (eh_context (fst st)) \<Longrightarrow> cx_wf (eh_context (fst st'))"
    and "command m \<notin> {Create, Destroy} \<Longrightarrow>
      cx_session_key (eh_context (fst st')) = cx_session_key (eh_context (fst st))"
proof -
  note frames = entry_relay_frame [of e m st r st'] entry_extend_frame [of e m st r st']
  note create = entry_create_cases [of m e st]
  show "cx_circuit_id (eh_context (fst st')) = cx_circuit_id (eh_context (fst st))"
    using assms frames create
    by (auto simp: entry_handle_message_def entry_close_def split: message_command.splits if_splits)
  show "cx_wf (eh_context (fst st)) \<Longrightarrow> cx_wf (eh_context (fst st'))"
    using assms frames create
    by (auto simp: entry_handle_message_def entry_close_def cx_wf_def split: message_command.splits if_splits)
  show "command m \<notin> {Create, Destroy} \<Longrightarrow>
      cx_session_key (eh_context (fst st')) = cx_session_key (eh_context (fst st))"
    using assms frames
    by (auto simp: entry_handle_message_def split: message_command.splits if_splits)
qed

interpretation entry: handler_contract entry_handle_message "\<lambda>st. eh_context (fst st)"
  "\<lambda>e st pk. kp_ntor_server_handshake (re_prims e) (re_secret e) (eh_keypair (fst st)) pk"
proof
  fix e m s y_pub auth k
  show "command m = Destroy \<Longrightarrow> fst (entry_handle_message e m s) = Inr None \<and>
      eh_context (fst (snd (entry_handle_message e m s))) = cx_close (eh_context (fst s))"
    by (simp add: entry_handle_message_def entry_close_def)
  show "command m = Padding \<Longrightarrow> entry_handle_message e m s = (Inr None, s)"
    by (simp add: entry_handle_message_def)
  show "command m = Create \<Longrightarrow> length (data m) < 32 \<Longrightarrow>
      entry_handle_message e m s = (Inl (Msg ''CREATE message too short''), s)"
    by (simp add: entry_handle_message_def entry_create_short)
  show "command m = Create \<Longrightarrow> 32 \<le> length (data m) \<Longrightarrow>
      kp_ntor_server_handshake (re_prims e) (re_secret e) (eh_keypair (fst s)) (take 32 (data m)) = (y_pub, auth, k) \<Longrightarrow>
      fst (entry_handle_message e m s) = Inr (Some (msg_created (cx_circuit_id (eh_context (fst s))) (y_pub @ auth))) \<and>
      cx_session_key (eh_context (fst (snd (entry_handle_message e m s)))) = Some k"
    by (cases s) (simp add: entry_handle_message_def entry_create_ok)
  note ctx = entry_message_context [of e m s "fst (entry_handle_message e m s)" "snd (entry_handle_message e m s)"]
  show "cx_circuit_id (eh_context (fst (snd (entry_handle_message e m s)))) = cx_circuit_id (eh_context (fst s))"
    using ctx(1) by simp
  show "cx_wf (eh_context (fst s)) \<Longrightarrow> cx_wf (eh_context (fst (snd (entry_handle_message e m s))))"
    using ctx(2) by simp
  show "command m \<notin> {Create, Destroy} \<Longrightarrow> cx_session_key (eh_context (fst (snd (entry_handle_message e m s)))) =
      cx_session_key (eh_context (fst s))"
    using ctx(3) by simp
qed

section \<open>What the entry forwards\<close>

text \<open>The commands the entry passes on once the circuit is extended.\<close>

definition relayed_command :: "message_command \<Rightarrow> bool" where
  "relayed_command c = (c \<in> {Extend, Data, Begin, End, Connected})"

lemma entry_dispatch_relay:
  "relayed_command (command m) \<Longrightarrow> eh_next_hop (fst st) \<noteq> None \<Longrightarrow>
   entry_handle_message e m st = entry_handle_relay e m st"
  by (auto simp: relayed_command_def entry_handle_message_def)

lemma entry_relay_step:
  assumes "cx_cipher_pair (eh_context h) = Some cp" "eh_next_hop h = Some hop"
    and "apply_forward (re_prims e) cp (data m) = (d, cp')" "length d \<le> MAX_PAYLOAD_SIZE"
    and "wr_room (nh_write hop) = None" "msg_wf m"
  shows "entry_handle_relay e m (h, mt) =
    (Inr None,
     (h\<lparr>eh_context := (eh_context h)\<lparr>cx_cipher_pair := Some cp'\<rparr>,
        eh_next_hop := Some (hop\<lparr>nh_write := (nh_write hop)
          \<lparr>wr_bytes := wr_bytes (nh_write hop) @ to_bytes (wr_rnd (nh_write hop)) (m\<lparr>data := d\<rparr>),
           wr_rnd := (\<lambda>i. wr_rnd (nh_write hop) (i + CELL_SIZE))\<rparr>\<rparr>)\<rparr>, mt))"
proof -
  have fm: "(msg_new (circuit_id m) (stream_id m) (command m) d)\<lparr>digest := digest m\<rparr> = m\<lparr>data := d\<rparr>"
    by (simp add: msg_new_def)
  have "msg_fits (m\<lparr>data := d\<rparr>)" using assms(4,6) by (simp add: msg_fits_def msg_wf_def)
  then show ?thesis
    using assms by (simp add: entry_handle_relay_def fm write_to_stream_ok)
qed

text \<open>
  On an established and extended circuit the entry turns every relayed cell into exactly
  one cell to the next hop: circuit, stream, command and digest are untouched, the data has
  lost one forward layer and keeps its length, nothing goes back, and nothing else changes
  but the forward position of the cipher.
\<close>

theorem entry_forwards_one_layer:
  assumes "relayed_command (command m)" "msg_wf m" "length (data m) \<le> 497"
    and "cx_cipher_pair (eh_context h) = Some cp" "eh_next_hop h = Some hop" "wr_room (nh_write hop) = None"
  shows "\<exists>h' w' d.
    entry_handle_message e m (h, mt) = (Inr None, (h', mt)) \<and>
    d = fst (apply_forward (re_prims e) cp (data m)) \<and> length d = length (data m) \<and>
    eh_next_hop h' = Some (hop\<lparr>nh_write := w'\<rparr>) \<and>
    wr_bytes w' = wr_bytes (nh_write hop) @ to_bytes (wr_rnd (nh_write hop)) (m\<lparr>data := d\<rparr>) \<and>
    eh_context h' = (eh_context h)\<lparr>cx_cipher_pair := Some (snd (apply_forward (re_prims e) cp (data m)))\<rparr>"
proof -
  obtain d cp' where d: "apply_forward (re_prims e) cp (data m) = (d, cp')" by force
  have len: "length d = length (data m)"
    using pair.fw.ks_length [of "re_prims e" cp "data m"] d by simp
  define w' where "w' = (nh_write hop)
    \<lparr>wr_bytes := wr_bytes (nh_write hop) @ to_bytes (wr_rnd (nh_write hop)) (m\<lparr>data := d\<rparr>),
      wr_rnd := (\<lambda>i. wr_rnd (nh_write hop) (i + CELL_SIZE))\<rparr>"
  let ?h = "h\<lparr>eh_context := (eh_context h)\<lparr>cx_cipher_pair := Some cp'\<rparr>, eh_next_hop := Some (hop\<lparr>nh_write := w'\<rparr>)\<rparr>"
  have "entry_handle_message e m (h, mt) = (Inr None, (?h, mt))"
    using entry_relay_step [OF assms(4,5) d _ assms(6,2), of mt] len assms(1,3,5)
    by (simp add: entry_dispatch_relay MAX_PAYLOAD_SIZE_eq w'_def)
  then show ?thesis
    by (intro exI [of _ ?h] exI [of _ w'] exI [of _ d]) (simp add: d len w'_def)
qed

definition sample_env :: relay_env where
  "sample_env = \<lparr>re_prims = toy_prims, re_net = (\<lambda>a. None), re_secret = replicate 32 9, re_now = 0,
     re_os_error = ''connection refused'', re_dest = (\<lambda>d. True)\<rparr>"

definition sample_writer :: writer where
  "sample_writer = \<lparr>wr_bytes = [], wr_room = None, wr_rnd = (\<lambda>i. of_nat i)\<rparr>"

definition sample_hop :: next_hop where
  "sample_hop = \<lparr>nh_write = sample_writer, nh_read = None\<rparr>"

definition sample_entry :: entry_handler where
  "sample_entry = \<lparr>eh_context = cx_activate sk_zero (cx_new 7), eh_keypair = kp_generate toy_prims (replicate 32 1),
     eh_next_hop = Some sample_hop, eh_metrics = True\<rparr>"

theorem entry_forwards_one_layer_witness:
  "fst (entry_handle_message sample_env (msg_data 7 1 [1, 2, 3]) (sample_entry, relay_metrics_new 0)) = Inr None"
  using entry_forwards_one_layer [of "msg_data 7 1 [1, 2, 3]" sample_entry "cipher_pair_new sk_zero" sample_hop
    sample_env "relay_metrics_new 0"]
  by (auto simp: relayed_command_def msg_wf_def msg_defs sample_entry_def sample_hop_def sample_writer_def)

end
