(* ===== verification/Relay_Middle.thy ===== *)
theory Relay_Middle
  imports Relay_Entry
begin

text \<open>
  The middle relay (\<open>relay-node/src/circuit/middle.rs\<close>). It differs from the entry in its
  messages, in checking the length of a CREATED, in passing on an EXTENDED that reaches it as
  a message, and in the order in which it reads the address of an EXTEND; the equivalence of
  the two parsers up to the text of the errors is \<open>parse_extend_agree\<close>.
\<close>

record middle_handler =
  mh_context :: circuit_context
  mh_keypair :: key_pair
  mh_next_hop :: "next_hop option"
  mh_metrics :: bool

type_synonym middle_state = "middle_handler \<times> relay_metrics"

definition middle_new :: "u32 \<Rightarrow> key_pair \<Rightarrow> middle_handler" where
  "middle_new c kp = \<lparr>mh_context = cx_new c, mh_keypair = kp, mh_next_hop = None, mh_metrics = False\<rparr>"

definition middle_set_metrics :: "middle_handler \<Rightarrow> middle_handler" where
  "middle_set_metrics h = h\<lparr>mh_metrics := True\<rparr>"

definition middle_handle_create :: "relay_env \<Rightarrow> message \<Rightarrow> middle_state \<Rightarrow> reply \<times> middle_state" where
  "middle_handle_create e m st =
     (let (h, mt) = st in
      if length (data m) < 32 then (Inl (Msg ''CREATE message too short''), st)
      else case get_range (data m) 0 32 of
        None \<Rightarrow> (Inl (Msg ''CREATE message too short''), st)
      | Some client_public \<Rightarrow>
          let (server_eph_pub, auth, k) =
                kp_ntor_server_handshake (re_prims e) (re_secret e) (mh_keypair h) client_public;
              h = h\<lparr>mh_context := cx_activate k (mh_context h)\<rparr>;
              payload = server_eph_pub @ auth
          in (Inr (Some (msg_created (cx_circuit_id (mh_context h)) payload)), (h, mt)))"

text \<open>The decrypted EXTEND: address, zero byte, ephemeral key, zero byte, fingerprint.\<close>

definition middle_parse_extend :: "bytes \<Rightarrow> any_error + (string \<times> bytes \<times> string)" where
  "middle_parse_extend d =
     (if length d < 33 then Inl (Msg ''EXTEND payload too short'')
      else case position_zero d of
        None \<Rightarrow> Inl (Msg ''EXTEND payload missing address separator'')
      | Some addr_end \<Rightarrow> case get_range d 0 addr_end of
        None \<Rightarrow> Inl (Msg ''Invalid address in EXTEND payload'')
      | Some addr_bytes \<Rightarrow> case from_utf8 addr_bytes of Inl er \<Rightarrow> Inl er
      | Inr addr_str \<Rightarrow>
        let key_start = addr_end + 1; key_end = key_start + 32 in
        if length d < key_end then Inl (Msg ''EXTEND payload too short for public key'')
        else case get_range d key_start key_end of
          None \<Rightarrow> Inl (Msg ''Invalid public key in EXTEND payload'')
        | Some client_public \<Rightarrow> case get_at d key_end of
          None \<Rightarrow> Inl (Msg ''EXTEND payload missing fingerprint separator'')
        | Some fp_start \<Rightarrow>
          if fp_start \<noteq> 0 then Inl (Msg ''EXTEND payload missing fingerprint separator'')
          else case get_range d (key_end + 1) (length d) of
            None \<Rightarrow> Inl (Msg ''EXTEND payload missing TLS fingerprint'')
          | Some fp_bytes \<Rightarrow> case from_utf8 fp_bytes of Inl er \<Rightarrow> Inl er
          | Inr fingerprint \<Rightarrow> Inr (addr_str, client_public, fingerprint))"

text \<open>Connect to the next hop, send CREATE, wait for a CREATED that holds a key.\<close>

definition middle_dial ::
  "relay_env \<Rightarrow> u32 \<Rightarrow> socket_addr \<Rightarrow> bytes \<Rightarrow> string \<Rightarrow> any_error + (message \<times> relay_stream)"
where
  "middle_dial e cid addr client_public fingerprint =
     (case re_net e addr of None \<Rightarrow> Inl IoErr
      | Some p \<Rightarrow>
        if \<not> tls_connect (re_prims e) fingerprint p then Inl IoErr
        else case write_to_stream (msg_create cid client_public) (peer_write p) of
          (Inl er, w) \<Rightarrow> Inl (Tor er)
        | (Inr _, w) \<Rightarrow> case peer_reply p (wr_bytes w) of
            None \<Rightarrow> Inl (Msg (''Timed out waiting for CREATED from '' @ show_socket_addr addr))
          | Some rd \<Rightarrow> case from_stream rd of
              (Inl er, rd) \<Rightarrow>
                Inl (Msg (''Error reading CREATED from '' @ show_socket_addr addr @ '': '' @ show_error e er))
            | (Inr None, rd) \<Rightarrow> Inl (Msg (''Connection closed waiting for CREATED from '' @ show_socket_addr addr))
            | (Inr (Some cm), rd) \<Rightarrow>
                if command cm \<noteq> Created
                then Inl (Msg (''Expected CREATED, got '' @ debug_command (command cm)))
                else if length (data cm) < 32 then Inl (Msg ''CREATED response too short'')
                else Inr (cm, \<lparr>rs_read = rd, rs_write = w\<rparr>))"

definition middle_handle_extend :: "relay_env \<Rightarrow> message \<Rightarrow> middle_state \<Rightarrow> reply \<times> middle_state" where
  "middle_handle_extend e m st =
     (let (h, mt) = st; cid = cx_circuit_id (mh_context h) in
      case cx_cipher_pair (mh_context h) of
        None \<Rightarrow> (Inl (Msg ''No cipher pair established for EXTEND''), st)
      | Some cp \<Rightarrow>
        let (decrypted, cp) = apply_forward (re_prims e) cp (data m);
            h = h\<lparr>mh_context := (mh_context h)\<lparr>cx_cipher_pair := Some cp\<rparr>\<rparr>
        in case middle_parse_extend decrypted of Inl er \<Rightarrow> (Inl er, (h, mt))
        | Inr (addr_str, client_public, fingerprint) \<Rightarrow>
          case parse_socket_addr addr_str of None \<Rightarrow> (Inl AddrParse, (h, mt))
          | Some addr \<Rightarrow>
          case middle_dial e cid addr client_public fingerprint of Inl er \<Rightarrow> (Inl er, (h, mt))
          | Inr (created_msg, stream) \<Rightarrow>
            let h = h\<lparr>mh_next_hop := Some (nh_new stream)\<rparr>;
                mt = with_metrics (mh_metrics h)
                  (rm_push_event (re_now e) (CircuitExtended cid (show_socket_addr addr))) mt;
                (encrypted, cp) = apply_backward (re_prims e) cp (data created_msg);
                h = h\<lparr>mh_context := (mh_context h)\<lparr>cx_cipher_pair := Some cp\<rparr>\<rparr>
            in (Inr (Some (msg_extended cid encrypted)), (h, mt)))"

text \<open>An EXTENDED that arrives as a message is checked for a key and handed back.\<close>

definition middle_handle_extended :: "relay_env \<Rightarrow> message \<Rightarrow> middle_state \<Rightarrow> reply \<times> middle_state" where
  "middle_handle_extended e m st =
     (if length (data m) < 32 then (Inl (Msg ''EXTENDED message too short''), st)
      else case get_range (data m) 0 32 of
        None \<Rightarrow> (Inl (Msg ''EXTENDED message too short''), st)
      | Some next_public \<Rightarrow> (Inr (Some m), st))"

definition middle_handle_relay :: "relay_env \<Rightarrow> message \<Rightarrow> middle_state \<Rightarrow> reply \<times> middle_state" where
  "middle_handle_relay e m st =
     (let (h, mt) = st in
      case cx_cipher_pair (mh_context h) of
        None \<Rightarrow> (Inl (Msg ''No cipher pair established''), st)
      | Some cp \<Rightarrow>
        let (decrypted, cp) = apply_forward (re_prims e) cp (data m);
            h = h\<lparr>mh_context := (mh_context h)\<lparr>cx_cipher_pair := Some cp\<rparr>\<rparr>
        in case mh_next_hop h of
          None \<Rightarrow> (Inr None, (h, mt))
        | Some hop \<Rightarrow>
            let fm = (msg_new (circuit_id m) (stream_id m) (command m) decrypted)\<lparr>digest := digest m\<rparr>
            in case write_to_stream fm (nh_write hop) of
                 (Inl er, w) \<Rightarrow> (Inl (Tor er), (h\<lparr>mh_next_hop := Some (hop\<lparr>nh_write := w\<rparr>)\<rparr>, mt))
               | (Inr _, w) \<Rightarrow> (Inr None, (h\<lparr>mh_next_hop := Some (hop\<lparr>nh_write := w\<rparr>)\<rparr>, mt)))"

definition middle_handle_backward_relay :: "relay_env \<Rightarrow> message \<Rightarrow> middle_state \<Rightarrow> reply \<times> middle_state" where
  "middle_handle_backward_relay e m st =
     (let (h, mt) = st in
      case cx_cipher_pair (mh_context h) of
        None \<Rightarrow> (Inl (Msg ''No cipher pair established''), st)
      | Some cp \<Rightarrow>
        let (encrypted, cp) = apply_backward (re_prims e) cp (data m);
            h = h\<lparr>mh_context := (mh_context h)\<lparr>cx_cipher_pair := Some cp\<rparr>\<rparr>;
            response = (msg_new (circuit_id m) (stream_id m) (command m) encrypted)\<lparr>digest := digest m\<rparr>
        in (Inr (Some response), (h, mt)))"

definition middle_close :: "middle_handler \<Rightarrow> middle_handler" where
  "middle_close h = h\<lparr>mh_context := cx_close (mh_context h), mh_next_hop := None\<rparr>"

definition middle_handle_message :: "relay_env \<Rightarrow> message \<Rightarrow> middle_state \<Rightarrow> reply \<times> middle_state" where
  "middle_handle_message e m st =
     (case command m of
        Create \<Rightarrow> middle_handle_create e m st
      | Extend \<Rightarrow> if mh_next_hop (fst st) \<noteq> None then middle_handle_relay e m st else middle_handle_extend e m st
      | Extended \<Rightarrow> middle_handle_extended e m st
      | Data \<Rightarrow> middle_handle_relay e m st
      | Begin \<Rightarrow> middle_handle_relay e m st
      | End \<Rightarrow> middle_handle_relay e m st
      | Connected \<Rightarrow> middle_handle_relay e m st
      | Destroy \<Rightarrow> (Inr None, (middle_close (fst st), snd st))
      | Padding \<Rightarrow> (Inr None, st)
      | _ \<Rightarrow> (Inl (Msg (''Unexpected command: '' @ debug_command (command m))), st))"

text \<open>The accessors \<open>circuit_id\<close>, \<open>state\<close> and \<open>session_key\<close>.\<close>

definition middle_circuit_id :: "middle_handler \<Rightarrow> u32" where
  "middle_circuit_id h = cx_circuit_id (mh_context h)"

definition middle_state_of :: "middle_handler \<Rightarrow> circuit_state" where
  "middle_state_of h = cx_state (mh_context h)"

definition middle_session_key :: "middle_handler \<Rightarrow> session_key option" where
  "middle_session_key h = cx_session_key (mh_context h)"

lemmas middle_defs = middle_handle_extended_def middle_handle_create_def middle_handle_extend_def middle_handle_relay_def
  middle_handle_message_def middle_close_def

section \<open>Frames\<close>

lemma middle_relay_frame:
  "middle_handle_relay e m st = (r, st') \<Longrightarrow>
   cx_circuit_id (mh_context (fst st')) = cx_circuit_id (mh_context (fst st)) \<and>
   cx_state (mh_context (fst st')) = cx_state (mh_context (fst st)) \<and>
   cx_session_key (mh_context (fst st')) = cx_session_key (mh_context (fst st)) \<and>
   (cx_cipher_pair (mh_context (fst st')) = None) = (cx_cipher_pair (mh_context (fst st)) = None)"
  by (auto simp: middle_handle_relay_def Let_def split: prod.splits option.splits sum.splits)

lemma middle_extend_frame:
  "middle_handle_extend e m st = (r, st') \<Longrightarrow>
   cx_circuit_id (mh_context (fst st')) = cx_circuit_id (mh_context (fst st)) \<and>
   cx_state (mh_context (fst st')) = cx_state (mh_context (fst st)) \<and>
   cx_session_key (mh_context (fst st')) = cx_session_key (mh_context (fst st)) \<and>
   (cx_cipher_pair (mh_context (fst st')) = None) = (cx_cipher_pair (mh_context (fst st)) = None)"
  by (auto simp: middle_handle_extend_def Let_def split: prod.splits option.splits sum.splits)

lemma middle_extended_frame: "snd (middle_handle_extended e m st) = st"
  by (auto simp: middle_handle_extended_def get_range_def)

section \<open>The contract\<close>

lemma middle_create_ok:
  assumes "32 \<le> length (data m)"
    and "kp_ntor_server_handshake (re_prims e) (re_secret e) (mh_keypair h) (take 32 (data m)) = (y_pub, auth, k)"
  shows "middle_handle_create e m (h, mt) =
    (Inr (Some (msg_created (cx_circuit_id (mh_context h)) (y_pub @ auth))),
     (h\<lparr>mh_context := cx_activate k (mh_context h)\<rparr>, mt))"
  using assms by (simp add: middle_handle_create_def get_range_def)

lemma middle_create_short:
  "length (data m) < 32 \<Longrightarrow> middle_handle_create e m st = (Inl (Msg ''CREATE message too short''), st)"
  by (cases st) (simp add: middle_handle_create_def)

lemma middle_create_cases:
  "(length (data m) < 32 \<and> middle_handle_create e m st = (Inl (Msg ''CREATE message too short''), st)) \<or>
   (\<exists>k r. middle_handle_create e m st = (r, ((fst st)\<lparr>mh_context := cx_activate k (mh_context (fst st))\<rparr>, snd st)))"
proof (cases "length (data m) < 32")
  case False
  obtain y_pub auth k where "kp_ntor_server_handshake (re_prims e) (re_secret e) (mh_keypair (fst st))
      (take 32 (data m)) = (y_pub, auth, k)" by (metis prod_cases3)
  from middle_create_ok [OF _ this] False show ?thesis by (cases st) auto
qed (simp add: middle_create_short)

lemma middle_message_context:
  assumes "middle_handle_message e m st = (r, st')"
  shows "cx_circuit_id (mh_context (fst st')) = cx_circuit_id (mh_context (fst st))"
    and "cx_wf (mh_context (fst st)) \<Longrightarrow> cx_wf (mh_context (fst st'))"
    and "command m \<notin> {Create, Destroy} \<Longrightarrow>
      cx_session_key (mh_context (fst st')) = cx_session_key (mh_context (fst st))"
proof -
  note frames = middle_relay_frame [of e m st r st'] middle_extend_frame [of e m st r st']
  have ext: "middle_handle_extended e m st = (r, st') \<Longrightarrow> st' = st"
    using middle_extended_frame [of e m st] by simp
  note create = middle_create_cases [of m e st]
  show "cx_circuit_id (mh_context (fst st')) = cx_circuit_id (mh_context (fst st))"
    using assms frames create ext
    by (auto simp: middle_handle_message_def middle_close_def split: message_command.splits if_splits)
  show "cx_wf (mh_context (fst st)) \<Longrightarrow> cx_wf (mh_context (fst st'))"
    using assms frames create ext
    by (auto simp: middle_handle_message_def middle_close_def cx_wf_def split: message_command.splits if_splits)
  show "command m \<notin> {Create, Destroy} \<Longrightarrow>
      cx_session_key (mh_context (fst st')) = cx_session_key (mh_context (fst st))"
    using assms frames ext
    by (auto simp: middle_handle_message_def split: message_command.splits if_splits)
qed

interpretation middle: handler_contract middle_handle_message "\<lambda>st. mh_context (fst st)"
  "\<lambda>e st pk. kp_ntor_server_handshake (re_prims e) (re_secret e) (mh_keypair (fst st)) pk"
proof
  fix e m s y_pub auth k
  show "command m = Destroy \<Longrightarrow> fst (middle_handle_message e m s) = Inr None \<and>
      mh_context (fst (snd (middle_handle_message e m s))) = cx_close (mh_context (fst s))"
    by (simp add: middle_handle_message_def middle_close_def)
  show "command m = Padding \<Longrightarrow> middle_handle_message e m s = (Inr None, s)"
    by (simp add: middle_handle_message_def)
  show "command m = Create \<Longrightarrow> length (data m) < 32 \<Longrightarrow>
      middle_handle_message e m s = (Inl (Msg ''CREATE message too short''), s)"
    by (simp add: middle_handle_message_def middle_create_short)
  show "command m = Create \<Longrightarrow> 32 \<le> length (data m) \<Longrightarrow>
      kp_ntor_server_handshake (re_prims e) (re_secret e) (mh_keypair (fst s)) (take 32 (data m)) = (y_pub, auth, k) \<Longrightarrow>
      fst (middle_handle_message e m s) = Inr (Some (msg_created (cx_circuit_id (mh_context (fst s))) (y_pub @ auth))) \<and>
      cx_session_key (mh_context (fst (snd (middle_handle_message e m s)))) = Some k"
    by (cases s) (simp add: middle_handle_message_def middle_create_ok)
  note ctx = middle_message_context [of e m s "fst (middle_handle_message e m s)" "snd (middle_handle_message e m s)"]
  show "cx_circuit_id (mh_context (fst (snd (middle_handle_message e m s)))) = cx_circuit_id (mh_context (fst s))"
    using ctx(1) by simp
  show "cx_wf (mh_context (fst s)) \<Longrightarrow> cx_wf (mh_context (fst (snd (middle_handle_message e m s))))"
    using ctx(2) by simp
  show "command m \<notin> {Create, Destroy} \<Longrightarrow> cx_session_key (mh_context (fst (snd (middle_handle_message e m s)))) =
      cx_session_key (mh_context (fst s))"
    using ctx(3) by simp
qed

section \<open>What the middle forwards\<close>

lemma middle_dispatch_relay:
  "relayed_command (command m) \<Longrightarrow> mh_next_hop (fst st) \<noteq> None \<Longrightarrow>
   middle_handle_message e m st = middle_handle_relay e m st"
  by (auto simp: relayed_command_def middle_handle_message_def)

lemma middle_relay_step:
  assumes "cx_cipher_pair (mh_context h) = Some cp" "mh_next_hop h = Some hop"
    and "apply_forward (re_prims e) cp (data m) = (d, cp')" "length d \<le> MAX_PAYLOAD_SIZE"
    and "wr_room (nh_write hop) = None" "msg_wf m"
  shows "middle_handle_relay e m (h, mt) =
    (Inr None,
     (h\<lparr>mh_context := (mh_context h)\<lparr>cx_cipher_pair := Some cp'\<rparr>,
        mh_next_hop := Some (hop\<lparr>nh_write := (nh_write hop)
          \<lparr>wr_bytes := wr_bytes (nh_write hop) @ to_bytes (wr_rnd (nh_write hop)) (m\<lparr>data := d\<rparr>),
           wr_rnd := (\<lambda>i. wr_rnd (nh_write hop) (i + CELL_SIZE))\<rparr>\<rparr>)\<rparr>, mt))"
proof -
  have fm: "(msg_new (circuit_id m) (stream_id m) (command m) d)\<lparr>digest := digest m\<rparr> = m\<lparr>data := d\<rparr>"
    by (simp add: msg_new_def)
  have "msg_fits (m\<lparr>data := d\<rparr>)" using assms(4,6) by (simp add: msg_fits_def msg_wf_def)
  then show ?thesis
    using assms by (simp add: middle_handle_relay_def fm write_to_stream_ok)
qed

text \<open>
  On an established and extended circuit the middle turns every relayed cell into exactly
  one cell to the next hop: circuit, stream, command and digest are untouched, the data has
  lost one forward layer and keeps its length, nothing goes back, and nothing else changes
  but the forward position of the cipher.
\<close>

theorem middle_forwards_one_layer:
  assumes "relayed_command (command m)" "msg_wf m" "length (data m) \<le> 497"
    and "cx_cipher_pair (mh_context h) = Some cp" "mh_next_hop h = Some hop" "wr_room (nh_write hop) = None"
  shows "\<exists>h' w' d.
    middle_handle_message e m (h, mt) = (Inr None, (h', mt)) \<and>
    d = fst (apply_forward (re_prims e) cp (data m)) \<and> length d = length (data m) \<and>
    mh_next_hop h' = Some (hop\<lparr>nh_write := w'\<rparr>) \<and>
    wr_bytes w' = wr_bytes (nh_write hop) @ to_bytes (wr_rnd (nh_write hop)) (m\<lparr>data := d\<rparr>) \<and>
    mh_context h' = (mh_context h)\<lparr>cx_cipher_pair := Some (snd (apply_forward (re_prims e) cp (data m)))\<rparr>"
proof -
  obtain d cp' where d: "apply_forward (re_prims e) cp (data m) = (d, cp')" by force
  have len: "length d = length (data m)"
    using pair.fw.ks_length [of "re_prims e" cp "data m"] d by simp
  define w' where "w' = (nh_write hop)
    \<lparr>wr_bytes := wr_bytes (nh_write hop) @ to_bytes (wr_rnd (nh_write hop)) (m\<lparr>data := d\<rparr>),
      wr_rnd := (\<lambda>i. wr_rnd (nh_write hop) (i + CELL_SIZE))\<rparr>"
  let ?h = "h\<lparr>mh_context := (mh_context h)\<lparr>cx_cipher_pair := Some cp'\<rparr>, mh_next_hop := Some (hop\<lparr>nh_write := w'\<rparr>)\<rparr>"
  have "middle_handle_message e m (h, mt) = (Inr None, (?h, mt))"
    using middle_relay_step [OF assms(4,5) d _ assms(6,2), of mt] len assms(1,3,5)
    by (simp add: middle_dispatch_relay MAX_PAYLOAD_SIZE_eq w'_def)
  then show ?thesis
    by (intro exI [of _ ?h] exI [of _ w'] exI [of _ d]) (simp add: d len w'_def)
qed

definition sample_middle :: middle_handler where
  "sample_middle = \<lparr>mh_context = cx_activate sk_zero (cx_new 7), mh_keypair = kp_generate toy_prims (replicate 32 1),
     mh_next_hop = Some sample_hop, mh_metrics = True\<rparr>"

theorem middle_forwards_one_layer_witness:
  "fst (middle_handle_message sample_env (msg_data 7 1 [1, 2, 3]) (sample_middle, relay_metrics_new 0)) = Inr None"
  using middle_forwards_one_layer [of "msg_data 7 1 [1, 2, 3]" sample_middle "cipher_pair_new sk_zero" sample_hop
    sample_env "relay_metrics_new 0"]
  by (auto simp: relayed_command_def msg_wf_def msg_defs sample_middle_def sample_hop_def sample_writer_def)

section \<open>Entry and middle read an EXTEND alike\<close>

lemma parse_extend_agree:
  "(\<forall>r. entry_parse_extend d = Inr r \<longleftrightarrow> middle_parse_extend d = Inr r) \<and>
   is_ok (entry_parse_extend d) = is_ok (middle_parse_extend d)"
  by (auto simp: entry_parse_extend_def middle_parse_extend_def Let_def is_ok_def
      split: option.splits sum.splits if_splits)

end
