(* ===== verification/Relay_Exit.thy ===== *)
theory Relay_Exit
  imports Relay_Entry
begin

text \<open>
  The exit relay (\<open>relay-node/src/circuit/exit.rs\<close>): digest-checked BEGIN, DATA and END, and
  the background task of each stream. The crypto state is shared by the handler and its
  stream tasks (\<open>Arc<Mutex<...>>\<close>), so it lives in a store and is reached by its address, as
  do the tasks and the write halves of the previous hops; a lock makes a block of statements
  one step.
\<close>

section \<open>State\<close>

record exit_crypto =
  ec_cipher :: cipher_pair
  ec_forward_digest :: running_digest
  ec_backward_digest :: running_digest

text \<open>The sender of a stream is the queue of its task.\<close>

record exit_stream =
  es_destination :: string
  es_task :: nat

record exit_handler =
  xh_context :: circuit_context
  xh_keypair :: key_pair
  xh_streams :: "(u16, exit_stream) hmap"
  xh_metrics :: bool
  xh_shared :: "nat option"

text \<open>
  A stream task: what it was spawned with, the queue of data for the destination, whether
  the handler still holds the sender, whether the loop still runs (the receiver goes with
  it), and what it has written to the destination.
\<close>

record exit_task =
  tk_circuit :: u32
  tk_stream :: u16
  tk_crypto :: nat
  tk_writer :: nat
  tk_metrics :: bool
  tk_queue :: "bytes list"
  tk_sender :: bool
  tk_running :: bool
  tk_sent :: bytes

record exit_world =
  xw_cryptos :: "exit_crypto list"
  xw_tasks :: "exit_task list"
  xw_writers :: "writer list"
  xw_rm :: relay_metrics

type_synonym exit_state = "exit_handler \<times> exit_world"

definition exit_new :: "u32 \<Rightarrow> key_pair \<Rightarrow> exit_handler" where
  "exit_new c kp = \<lparr>xh_context = cx_new c, xh_keypair = kp, xh_streams = [], xh_metrics = False, xh_shared = None\<rparr>"

definition exit_set_metrics :: "exit_handler \<Rightarrow> exit_handler" where
  "exit_set_metrics h = h\<lparr>xh_metrics := True\<rparr>"

definition set_crypto :: "nat \<Rightarrow> exit_crypto \<Rightarrow> exit_world \<Rightarrow> exit_world" where
  "set_crypto a c w = w\<lparr>xw_cryptos := (xw_cryptos w)[a := c]\<rparr>"

definition set_task :: "nat \<Rightarrow> exit_task \<Rightarrow> exit_world \<Rightarrow> exit_world" where
  "set_task t tk w = w\<lparr>xw_tasks := (xw_tasks w)[t := tk]\<rparr>"

text \<open>Dropping an \<open>ExitStream\<close> drops the sender its task listens to.\<close>

definition drop_sender :: "exit_stream \<Rightarrow> exit_world \<Rightarrow> exit_world" where
  "drop_sender s w = set_task (es_task s) ((xw_tasks w ! es_task s)\<lparr>tk_sender := False\<rparr>) w"

definition xw_metrics :: "bool \<Rightarrow> (relay_metrics \<Rightarrow> relay_metrics) \<Rightarrow> exit_world \<Rightarrow> exit_world" where
  "xw_metrics b f w = w\<lparr>xw_rm := with_metrics b f (xw_rm w)\<rparr>"

section \<open>Sealing and opening\<close>

text \<open>Under the lock: decrypt one forward layer, then verify the running digest.\<close>

definition exit_open :: "prims \<Rightarrow> message \<Rightarrow> exit_crypto \<Rightarrow> (bool \<times> bytes) \<times> exit_crypto" where
  "exit_open P m c =
     (let (decrypted, cp) = apply_forward P (ec_cipher c) (data m);
          (ok, fd) = rd_verify P (ec_forward_digest c) (stream_id m) (to_u8 (command m)) decrypted (digest m)
      in ((ok, decrypted), c\<lparr>ec_cipher := cp, ec_forward_digest := fd\<rparr>))"

text \<open>Under the lock: digest the plaintext, then add the backward layer.\<close>

definition exit_seal ::
  "prims \<Rightarrow> u32 \<Rightarrow> u16 \<Rightarrow> message_command \<Rightarrow> bytes \<Rightarrow> exit_crypto \<Rightarrow> message \<times> exit_crypto"
where
  "exit_seal P cid sid cmd d c =
     (let (tag, bd) = rd_update P (ec_backward_digest c) sid (to_u8 cmd) d;
          (encrypted, cp) = apply_backward P (ec_cipher c) d
      in ((msg_new cid sid cmd encrypted)\<lparr>digest := tag\<rparr>, c\<lparr>ec_cipher := cp, ec_backward_digest := bd\<rparr>))"

section \<open>Messages\<close>

definition exit_handle_create :: "relay_env \<Rightarrow> message \<Rightarrow> exit_state \<Rightarrow> reply \<times> exit_state" where
  "exit_handle_create e m st =
     (let (h, w) = st in
      if length (data m) < 32 then (Inl (Msg ''CREATE message too short''), st)
      else case get_range (data m) 0 32 of
        None \<Rightarrow> (Inl (Msg ''CREATE message too short''), st)
      | Some client_public \<Rightarrow>
          let (server_eph_pub, auth, k) =
                kp_ntor_server_handshake (re_prims e) (re_secret e) (xh_keypair h) client_public;
              cx = cx_activate k (xh_context h)
          in case cx_cipher_pair cx of
               None \<Rightarrow> (Inl (Msg ''CipherPair not created during activate''), (h\<lparr>xh_context := cx\<rparr>, w))
             | Some cp \<Rightarrow>
                 let h = h\<lparr>xh_context := cx\<lparr>cx_cipher_pair := None\<rparr>, xh_shared := Some (length (xw_cryptos w))\<rparr>;
                     w = w\<lparr>xw_cryptos := xw_cryptos w @ [\<lparr>ec_cipher = cp,
                           ec_forward_digest = running_digest_new, ec_backward_digest = running_digest_new\<rparr>]\<rparr>;
                     payload = server_eph_pub @ auth
                 in (Inr (Some (msg_created (cx_circuit_id (xh_context h)) payload)), (h, w)))"

text \<open>\<open>trim_end_matches('\0')\<close>.\<close>

definition trim_end_nul :: "string \<Rightarrow> string" where
  "trim_end_nul s = rev (dropWhile (\<lambda>c. c = CHR 0x00) (rev s))"

definition exit_spawn_stream_tasks ::
  "exit_handler \<Rightarrow> u16 \<Rightarrow> nat \<Rightarrow> nat \<Rightarrow> exit_world \<Rightarrow> nat \<times> exit_world"
where
  "exit_spawn_stream_tasks h sid a prev w =
     (length (xw_tasks w),
      w\<lparr>xw_tasks := xw_tasks w @ [\<lparr>tk_circuit = cx_circuit_id (xh_context h), tk_stream = sid, tk_crypto = a,
          tk_writer = prev, tk_metrics = xh_metrics h, tk_queue = [], tk_sender = True, tk_running = True,
          tk_sent = []\<rparr>]\<rparr>)"

text \<open>The two arms of the match on the connection to the destination.\<close>

definition exit_begin_connected ::
  "relay_env \<Rightarrow> message \<Rightarrow> string \<Rightarrow> nat \<Rightarrow> nat \<Rightarrow> exit_state \<Rightarrow> reply \<times> exit_state"
where
  "exit_begin_connected e m dest_str a prev st =
     (let (h, w) = st; cid = cx_circuit_id (xh_context h);
          (response, c) = exit_seal (re_prims e) cid (stream_id m) Connected [] (xw_cryptos w ! a);
          w = set_crypto a c w
      in case write_to_stream response (xw_writers w ! prev) of
           (Inl er, wr) \<Rightarrow> (Inl (Tor er), (h, w\<lparr>xw_writers := (xw_writers w)[prev := wr]\<rparr>))
         | (Inr _, wr) \<Rightarrow>
             let w = w\<lparr>xw_writers := (xw_writers w)[prev := wr]\<rparr>;
                 (task, w) = exit_spawn_stream_tasks h (stream_id m) a prev w;
                 w = (case hm_get (xh_streams h) (stream_id m) of None \<Rightarrow> w | Some old \<Rightarrow> drop_sender old w);
                 h = h\<lparr>xh_streams := hm_insert (stream_id m)
                       \<lparr>es_destination = dest_str, es_task = task\<rparr> (xh_streams h)\<rparr>;
                 w = xw_metrics (xh_metrics h)
                       (\<lambda>mt. rm_push_event (re_now e) (StreamOpened cid (stream_id m) dest_str)
                               (mt\<lparr>rm_streams_opened := rm_streams_opened mt + 1\<rparr>)) w
             in (Inr None, (h, w)))"

definition exit_begin_failed :: "relay_env \<Rightarrow> message \<Rightarrow> nat \<Rightarrow> exit_state \<Rightarrow> reply \<times> exit_state" where
  "exit_begin_failed e m a st =
     (let (h, w) = st;
          (response, c) = exit_seal (re_prims e) (cx_circuit_id (xh_context h)) (stream_id m) End
            (str_bytes (''Connection failed: '' @ re_os_error e)) (xw_cryptos w ! a)
      in (Inr (Some response), (h, set_crypto a c w)))"

definition exit_handle_begin :: "relay_env \<Rightarrow> message \<Rightarrow> nat \<Rightarrow> exit_state \<Rightarrow> reply \<times> exit_state" where
  "exit_handle_begin e m prev st =
     (let (h, w) = st in
      case xh_shared h of None \<Rightarrow> (Inl (Msg ''No crypto state established''), st)
      | Some a \<Rightarrow>
        let ((ok, decrypted), c) = exit_open (re_prims e) m (xw_cryptos w ! a);
            w = set_crypto a c w
        in if \<not> ok then (Inl (Msg ''Digest mismatch on BEGIN''), (h, w))
           else case from_utf8 decrypted of
             Inl er \<Rightarrow> (Inl (Msg (''Invalid UTF-8 in destination: '' @ show_error e er)), (h, w))
           | Inr s \<Rightarrow>
               let dest_str = trim_end_nul s
               in if re_dest e dest_str then exit_begin_connected e m dest_str a prev (h, w)
                  else exit_begin_failed e m a (h, w))"

text \<open>An END the handler answers with: sealed at once, written by the main loop later.\<close>

definition exit_end_reply :: "relay_env \<Rightarrow> message \<Rightarrow> bytes \<Rightarrow> nat \<Rightarrow> exit_state \<Rightarrow> reply \<times> exit_state" where
  "exit_end_reply e m reason a st =
     (let (h, w) = st;
          (response, c) = exit_seal (re_prims e) (cx_circuit_id (xh_context h)) (stream_id m) End reason
            (xw_cryptos w ! a)
      in (Inr (Some response), (h, set_crypto a c w)))"

definition exit_handle_data :: "relay_env \<Rightarrow> message \<Rightarrow> exit_state \<Rightarrow> reply \<times> exit_state" where
  "exit_handle_data e m st =
     (let (h, w) = st; cid = cx_circuit_id (xh_context h) in
      case xh_shared h of None \<Rightarrow> (Inl (Msg ''No crypto state established''), st)
      | Some a \<Rightarrow>
        let ((ok, decrypted), c) = exit_open (re_prims e) m (xw_cryptos w ! a);
            w = set_crypto a c w
        in if \<not> ok then (Inl (Msg ''Digest mismatch on DATA''), (h, w))
           else case hm_get (xh_streams h) (stream_id m) of
             Some s \<Rightarrow>
               let tk = xw_tasks w ! es_task s
               in if \<not> tk_running tk then exit_end_reply e m (str_bytes ''Destination closed'') a (h, w)
                  else let w = set_task (es_task s) (tk\<lparr>tk_queue := tk_queue tk @ [decrypted]\<rparr>) w;
                           w = xw_metrics (xh_metrics h)
                             (\<lambda>mt. rm_push_event (re_now e) (StreamData cid (stream_id m) (length decrypted) Forward)
                               (mt\<lparr>rm_bytes_forwarded := rm_bytes_forwarded mt + word_of_nat (length decrypted)\<rparr>)) w
                       in (Inr None, (h, w))
           | None \<Rightarrow> exit_end_reply e m (str_bytes ''Stream not found'') a (h, w))"

definition exit_handle_end :: "relay_env \<Rightarrow> message \<Rightarrow> exit_state \<Rightarrow> reply \<times> exit_state" where
  "exit_handle_end e m st =
     (let (h, w) = st; cid = cx_circuit_id (xh_context h) in
      case xh_shared h of None \<Rightarrow> (Inl (Msg ''No crypto state established''), st)
      | Some a \<Rightarrow>
        let ((ok, decrypted), c) = exit_open (re_prims e) m (xw_cryptos w ! a);
            w = set_crypto a c w
        in if \<not> ok then (Inl (Msg ''Digest mismatch on END''), (h, w))
           else let w = (case hm_get (xh_streams h) (stream_id m) of None \<Rightarrow> w | Some s \<Rightarrow> drop_sender s w);
                    h = h\<lparr>xh_streams := hm_remove (stream_id m) (xh_streams h)\<rparr>;
                    w = xw_metrics (xh_metrics h) (rm_push_event (re_now e) (StreamClosed cid (stream_id m))) w
                in exit_end_reply e m [] a (h, w))"

definition exit_close :: "exit_state \<Rightarrow> exit_state" where
  "exit_close st =
     (let (h, w) = st
      in (h\<lparr>xh_context := cx_close (xh_context h), xh_streams := [], xh_shared := None\<rparr>,
          fold drop_sender (hm_values (xh_streams h)) w))"

text \<open>\<open>prev_hop_write\<close> is the address of the write half of the connection the message came on.\<close>

definition exit_handle_message :: "relay_env \<times> nat option \<Rightarrow> message \<Rightarrow> exit_state \<Rightarrow> reply \<times> exit_state" where
  "exit_handle_message ep m st =
     (let (e, prev) = ep in
      case command m of
        Create \<Rightarrow> exit_handle_create e m st
      | Begin \<Rightarrow> (case prev of None \<Rightarrow> (Inl (Msg ''No prev_hop_write for BEGIN''), st)
                  | Some wr \<Rightarrow> exit_handle_begin e m wr st)
      | Data \<Rightarrow> exit_handle_data e m st
      | End \<Rightarrow> exit_handle_end e m st
      | Destroy \<Rightarrow> (Inr None, exit_close st)
      | Padding \<Rightarrow> (Inr None, st)
      | _ \<Rightarrow> (Inl (Msg (''Unexpected command: '' @ debug_command (command m))), st))"

definition exit_circuit_id :: "exit_handler \<Rightarrow> u32" where
  "exit_circuit_id h = cx_circuit_id (xh_context h)"

definition exit_state_of :: "exit_handler \<Rightarrow> circuit_state" where
  "exit_state_of h = cx_state (xh_context h)"

definition exit_session_key :: "exit_handler \<Rightarrow> session_key option" where
  "exit_session_key h = cx_session_key (xh_context h)"

section \<open>Stream tasks\<close>

text \<open>Seal and write under the lock: one step. The flag says whether the write succeeded.\<close>

definition task_send :: "prims \<Rightarrow> nat \<Rightarrow> message_command \<Rightarrow> bytes \<Rightarrow> exit_world \<Rightarrow> bool \<times> exit_world" where
  "task_send P t cmd d w =
     (let tk = xw_tasks w ! t;
          (msg, c) = exit_seal P (tk_circuit tk) (tk_stream tk) cmd d (xw_cryptos w ! tk_crypto tk);
          w = set_crypto (tk_crypto tk) c w;
          (r, wr) = write_to_stream msg (xw_writers w ! tk_writer tk)
      in (is_ok r, w\<lparr>xw_writers := (xw_writers w)[tk_writer tk := wr]\<rparr>))"

definition task_stop :: "nat \<Rightarrow> exit_world \<Rightarrow> exit_world" where
  "task_stop t w = set_task t ((xw_tasks w ! t)\<lparr>tk_running := False\<rparr>) w"

text \<open>The destination closes: an empty END, then the loop ends.\<close>

definition task_read_eof :: "relay_env \<Rightarrow> nat \<Rightarrow> exit_world \<Rightarrow> exit_world" where
  "task_read_eof e t w =
     (let tk = xw_tasks w ! t;
          (ok, w) = task_send (re_prims e) t End [] w;
          w = xw_metrics (tk_metrics tk) (rm_push_event (re_now e) (StreamClosed (tk_circuit tk) (tk_stream tk))) w
      in task_stop t w)"

text \<open>Data from the destination: one cell per chunk, until a write fails.\<close>

fun task_send_chunks :: "prims \<Rightarrow> nat \<Rightarrow> bytes list \<Rightarrow> exit_world \<Rightarrow> bool \<times> exit_world" where
  "task_send_chunks P t [] w = (True, w)"
| "task_send_chunks P t (ch # chs) w =
     (case task_send P t Data ch w of
        (True, w) \<Rightarrow> task_send_chunks P t chs w
      | (False, w) \<Rightarrow> (False, w))"

definition task_read_data :: "relay_env \<Rightarrow> nat \<Rightarrow> bytes \<Rightarrow> exit_world \<Rightarrow> exit_world" where
  "task_read_data e t buf w =
     (let tk = xw_tasks w ! t in
      case task_send_chunks (re_prims e) t (chunks MAX_PAYLOAD_SIZE buf) w of
        (False, w) \<Rightarrow> task_stop t w
      | (True, w) \<Rightarrow>
          xw_metrics (tk_metrics tk)
            (\<lambda>mt. rm_push_event (re_now e) (StreamData (tk_circuit tk) (tk_stream tk) (length buf) Backward)
               (mt\<lparr>rm_bytes_received := rm_bytes_received mt + word_of_nat (length buf)\<rparr>)) w)"

definition task_read_error :: "relay_env \<Rightarrow> nat \<Rightarrow> exit_world \<Rightarrow> exit_world" where
  "task_read_error e t w =
     (let (ok, w) = task_send (re_prims e) t End (str_bytes (''Read error: '' @ re_os_error e)) w
      in task_stop t w)"

text \<open>
  The receiving arm: write the next queued data to the destination (\<open>dest_ok\<close>: the write
  succeeds), or stop when the sender is gone and the queue is empty; else it waits.
\<close>

definition task_recv :: "bool \<Rightarrow> nat \<Rightarrow> exit_world \<Rightarrow> exit_world" where
  "task_recv dest_ok t w =
     (let tk = xw_tasks w ! t in
      case tk_queue tk of
        d # q \<Rightarrow>
          if dest_ok then set_task t (tk\<lparr>tk_queue := q, tk_sent := tk_sent tk @ d\<rparr>) w
          else set_task t (tk\<lparr>tk_queue := q, tk_running := False\<rparr>) w
      | [] \<Rightarrow> if \<not> tk_sender tk then task_stop t w else w)"

section \<open>Invariants\<close>

text \<open>Addresses in range: crypto state, tasks of the streams, what the tasks refer to.\<close>

definition exit_wf :: "exit_state \<Rightarrow> bool" where
  "exit_wf st =
     (let (h, w) = st in
      cx_wf (xh_context h) \<and> hm_wf (xh_streams h) \<and>
      (\<forall>a. xh_shared h = Some a \<longrightarrow> a < length (xw_cryptos w)) \<and>
      (xh_shared h \<noteq> None) = (cx_session_key (xh_context h) \<noteq> None) \<and>
      (\<forall>sid s. hm_get (xh_streams h) sid = Some s \<longrightarrow> es_task s < length (xw_tasks w) \<and>
         tk_stream (xw_tasks w ! es_task s) = sid))"

lemma set_crypto_fields [simp]:
  "xw_tasks (set_crypto a c w) = xw_tasks w" "xw_writers (set_crypto a c w) = xw_writers w"
  "xw_rm (set_crypto a c w) = xw_rm w" "length (xw_cryptos (set_crypto a c w)) = length (xw_cryptos w)"
  "xw_cryptos (set_crypto a c w) = (xw_cryptos w)[a := c]"
  by (simp_all add: set_crypto_def)

lemma set_task_fields [simp]:
  "xw_cryptos (set_task t tk w) = xw_cryptos w" "xw_writers (set_task t tk w) = xw_writers w"
  "xw_rm (set_task t tk w) = xw_rm w" "xw_tasks (set_task t tk w) = (xw_tasks w)[t := tk]"
  by (simp_all add: set_task_def)

lemma xw_metrics_fields [simp]:
  "xw_cryptos (xw_metrics b f w) = xw_cryptos w" "xw_tasks (xw_metrics b f w) = xw_tasks w"
  "xw_writers (xw_metrics b f w) = xw_writers w"
  by (simp_all add: xw_metrics_def)

lemma update_keeps: "g x = g (xs ! i) \<Longrightarrow> g (xs[i := x] ! t) = g (xs ! t)"
  by (cases "i < length xs"; cases "i = t") (simp_all add: list_update_beyond)

lemma drop_sender_fields [simp]:
  "xw_cryptos (drop_sender s w) = xw_cryptos w" "xw_writers (drop_sender s w) = xw_writers w"
  "length (xw_tasks (drop_sender s w)) = length (xw_tasks w)"
  "t < length (xw_tasks w) \<Longrightarrow> tk_stream (xw_tasks (drop_sender s w) ! t) = tk_stream (xw_tasks w ! t)"
  by (simp_all add: drop_sender_def update_keeps)

lemma drop_senders_cryptos [simp]: "xw_cryptos (fold drop_sender ss w) = xw_cryptos w"
  by (induction ss arbitrary: w) simp_all

lemma exit_open_fields:
  "exit_open P m c = ((ok, d), c') \<Longrightarrow> length d = length (data m) \<and>
     ec_backward_digest c' = ec_backward_digest c \<and> cp_backward (ec_cipher c') = cp_backward (ec_cipher c)"
  using pair.fw.ks_length [of P "ec_cipher c" "data m"]
  by (auto simp: exit_open_def Let_def apply_forward_def split: prod.splits)

lemma exit_end_reply_frame:
  "exit_end_reply e m r a (h, w) = (rep, st') \<Longrightarrow>
   fst st' = h \<and> xw_tasks (snd st') = xw_tasks w \<and> length (xw_cryptos (snd st')) = length (xw_cryptos w) \<and>
   xw_writers (snd st') = xw_writers w"
  by (auto simp: exit_end_reply_def Let_def split: prod.splits)

text \<open>Only CREATE and DESTROY touch the context; the other handlers keep well-formedness.\<close>

lemma exit_data_frame:
  assumes "exit_handle_data e m (h, w) = (r, (h', w'))"
  shows "h' = h \<and> length (xw_cryptos w') = length (xw_cryptos w) \<and> length (xw_tasks w') = length (xw_tasks w) \<and>
    (\<forall>t < length (xw_tasks w). tk_stream (xw_tasks w' ! t) = tk_stream (xw_tasks w ! t))"
  using assms
  by (auto simp: exit_handle_data_def Let_def update_keeps
      split: option.splits prod.splits if_splits dest!: exit_end_reply_frame)

lemma exit_end_frame:
  assumes "exit_handle_end e m (h, w) = (r, (h', w'))"
  shows "xh_context h' = xh_context h \<and> xh_shared h' = xh_shared h \<and>
    (xh_streams h' = xh_streams h \<or> xh_streams h' = hm_remove (stream_id m) (xh_streams h)) \<and>
    length (xw_cryptos w') = length (xw_cryptos w) \<and> length (xw_tasks w') = length (xw_tasks w) \<and>
    (\<forall>t < length (xw_tasks w). tk_stream (xw_tasks w' ! t) = tk_stream (xw_tasks w ! t))"
  using assms
  by (auto simp: exit_handle_end_def Let_def
      split: option.splits prod.splits if_splits dest!: exit_end_reply_frame)

lemma exit_begin_connected_frame:
  assumes "exit_begin_connected e m ds a prev (h, w) = (r, (h', w'))"
  shows "xh_context h' = xh_context h \<and> xh_shared h' = xh_shared h \<and>
    length (xw_cryptos w') = length (xw_cryptos w) \<and> length (xw_tasks w) \<le> length (xw_tasks w') \<and>
    (\<forall>t < length (xw_tasks w). tk_stream (xw_tasks w' ! t) = tk_stream (xw_tasks w ! t)) \<and>
    (xh_streams h' = xh_streams h \<or>
     (\<exists>s. xh_streams h' = hm_insert (stream_id m) s (xh_streams h) \<and> es_task s < length (xw_tasks w') \<and>
        tk_stream (xw_tasks w' ! es_task s) = stream_id m))"
  using assms
  by (auto simp: exit_begin_connected_def exit_spawn_stream_tasks_def Let_def nth_append
      split: prod.splits sum.splits option.splits)

lemma exit_begin_failed_frame:
  "exit_begin_failed e m a (h, w) = (r, (h', w')) \<Longrightarrow>
   h' = h \<and> xw_tasks w' = xw_tasks w \<and> length (xw_cryptos w') = length (xw_cryptos w)"
  by (auto simp: exit_begin_failed_def Let_def split: prod.splits)

lemma exit_begin_frame:
  assumes "exit_handle_begin e m prev (h, w) = (r, (h', w'))"
  shows "xh_context h' = xh_context h \<and> xh_shared h' = xh_shared h \<and>
    length (xw_cryptos w') = length (xw_cryptos w) \<and> length (xw_tasks w) \<le> length (xw_tasks w') \<and>
    (\<forall>t < length (xw_tasks w). tk_stream (xw_tasks w' ! t) = tk_stream (xw_tasks w ! t)) \<and>
    (xh_streams h' = xh_streams h \<or>
     (\<exists>s. xh_streams h' = hm_insert (stream_id m) s (xh_streams h) \<and> es_task s < length (xw_tasks w') \<and>
        tk_stream (xw_tasks w' ! es_task s) = stream_id m))"
  using assms
  by (auto simp: exit_handle_begin_def Let_def
      split: option.splits prod.splits if_splits sum.splits
      dest!: exit_begin_connected_frame exit_begin_failed_frame)

lemma exit_create_ok:
  assumes "32 \<le> length (data m)"
    and "kp_ntor_server_handshake (re_prims e) (re_secret e) (xh_keypair h) (take 32 (data m)) = (y_pub, auth, k)"
  shows "exit_handle_create e m (h, w) =
    (Inr (Some (msg_created (cx_circuit_id (xh_context h)) (y_pub @ auth))),
     (h\<lparr>xh_context := (cx_activate k (xh_context h))\<lparr>cx_cipher_pair := None\<rparr>,
        xh_shared := Some (length (xw_cryptos w))\<rparr>,
      w\<lparr>xw_cryptos := xw_cryptos w @ [\<lparr>ec_cipher = cipher_pair_new k,
          ec_forward_digest = running_digest_new, ec_backward_digest = running_digest_new\<rparr>]\<rparr>))"
  using assms by (simp add: exit_handle_create_def get_range_def Let_def)

lemma exit_create_short:
  "length (data m) < 32 \<Longrightarrow> exit_handle_create e m st = (Inl (Msg ''CREATE message too short''), st)"
  by (cases st) (simp add: exit_handle_create_def)

lemma exit_wf_frame:
  assumes "exit_wf (h, w)" "xh_context h' = xh_context h" "xh_shared h' = xh_shared h"
    and "length (xw_cryptos w') = length (xw_cryptos w)" "length (xw_tasks w) \<le> length (xw_tasks w')"
    and "\<forall>t < length (xw_tasks w). tk_stream (xw_tasks w' ! t) = tk_stream (xw_tasks w ! t)"
    and "hm_wf (xh_streams h')"
    and "\<And>sid s. hm_get (xh_streams h') sid = Some s \<Longrightarrow> hm_get (xh_streams h) sid = Some s \<or>
      (es_task s < length (xw_tasks w') \<and> tk_stream (xw_tasks w' ! es_task s) = sid)"
  shows "exit_wf (h', w')"
  using assms unfolding exit_wf_def by (auto simp: Let_def dest!: assms(8)) (metis order_less_le_trans)+

lemma exit_message_wf:
  assumes "exit_wf st" "exit_handle_message ep m st = (r, st')"
  shows "exit_wf st'"
proof -
  obtain h w where st: "st = (h, w)" by force
  obtain h' w' where st': "st' = (h', w')" by force
  obtain e prev where ep: "ep = (e, prev)" by force
  note wf = assms(1)[unfolded st]
  have hm: "hm_wf (xh_streams h)" using wf by (simp add: exit_wf_def)
  show ?thesis
  proof (cases "command m")
    case Create
    then have cr: "exit_handle_create e m (h, w) = (r, (h', w'))"
      using assms(2) by (simp add: exit_handle_message_def st st' ep)
    show ?thesis
    proof (cases "length (data m) < 32")
      case True
      with cr wf show ?thesis by (simp add: exit_create_short st')
    next
      case False
      obtain y a k where "kp_ntor_server_handshake (re_prims e) (re_secret e) (xh_keypair h) (take 32 (data m)) = (y, a, k)"
        by (metis prod_cases3)
      from exit_create_ok [OF _ this, of w] False cr wf show ?thesis
        by (auto simp: st' exit_wf_def Let_def cx_wf_def)
    qed
  next
    case Begin
    show ?thesis
    proof (cases prev)
      case None
      with Begin assms(2) wf show ?thesis by (simp add: exit_handle_message_def st st' ep)
    next
      case (Some p)
      with Begin have b: "exit_handle_begin e m p (h, w) = (r, (h', w'))"
        using assms(2) by (simp add: exit_handle_message_def st st' ep)
      show ?thesis unfolding st'
        by (rule exit_wf_frame [OF wf]) (use exit_begin_frame [OF b] hm in \<open>auto split: if_splits\<close>)
    qed
  next
    case Data
    then have "exit_handle_data e m (h, w) = (r, (h', w'))"
      using assms(2) by (simp add: exit_handle_message_def st st' ep)
    from exit_data_frame [OF this] show ?thesis unfolding st'
      by (intro exit_wf_frame [OF wf]) (use hm in auto)
  next
    case End
    then have "exit_handle_end e m (h, w) = (r, (h', w'))"
      using assms(2) by (simp add: exit_handle_message_def st st' ep)
    from exit_end_frame [OF this] show ?thesis unfolding st'
      by (intro exit_wf_frame [OF wf]) (use hm in \<open>auto split: if_splits\<close>)
  next
    case Destroy
    then have "st' = exit_close (h, w)" using assms(2) by (simp add: exit_handle_message_def st ep)
    then show ?thesis by (simp add: exit_close_def exit_wf_def Let_def)
  qed (use assms(2) wf in \<open>simp_all add: exit_handle_message_def st st' ep\<close>)
qed

lemma exit_message_context:
  assumes "exit_handle_message ep m st = (r, st')" "command m \<notin> {Create, Destroy}"
  shows "xh_context (fst st') = xh_context (fst st)"
proof -
  obtain h w h' w' e prev where s: "st = (h, w)" "st' = (h', w')" "ep = (e, prev)" by (metis prod.exhaust)
  show ?thesis
    using assms exit_data_frame [of e m h w r h' w'] exit_end_frame [of e m h w r h' w']
      exit_begin_frame [of e m _ h w r h' w']
    by (auto simp: exit_handle_message_def s split: message_command.splits option.splits)
qed

interpretation exit: handler_contract exit_handle_message "\<lambda>st. xh_context (fst st)"
  "\<lambda>ep st pk. kp_ntor_server_handshake (re_prims (fst ep)) (re_secret (fst ep)) (xh_keypair (fst st)) pk"
proof
  fix ep :: "relay_env \<times> nat option" and m and s :: exit_state and y_pub auth k
  obtain e prev where ep: "ep = (e, prev)" by force
  obtain h w where s: "s = (h, w)" by force
  let ?r = "exit_handle_message ep m s"
  show destroy: "command m = Destroy \<Longrightarrow> fst ?r = Inr None \<and> xh_context (fst (snd ?r)) = cx_close (xh_context (fst s))"
    by (simp add: exit_handle_message_def exit_close_def ep s)
  show "command m = Padding \<Longrightarrow> ?r = (Inr None, s)"
    by (simp add: exit_handle_message_def ep)
  show short: "command m = Create \<Longrightarrow> length (data m) < 32 \<Longrightarrow> ?r = (Inl (Msg ''CREATE message too short''), s)"
    by (simp add: exit_handle_message_def exit_create_short ep)
  show "command m = Create \<Longrightarrow> 32 \<le> length (data m) \<Longrightarrow>
      kp_ntor_server_handshake (re_prims (fst ep)) (re_secret (fst ep)) (xh_keypair (fst s)) (take 32 (data m)) = (y_pub, auth, k) \<Longrightarrow>
      fst ?r = Inr (Some (msg_created (cx_circuit_id (xh_context (fst s))) (y_pub @ auth))) \<and>
      cx_session_key (xh_context (fst (snd ?r))) = Some k"
    by (simp add: exit_handle_message_def exit_create_ok ep s)
  have other: "command m \<notin> {Create, Destroy} \<Longrightarrow> xh_context (fst (snd ?r)) = xh_context (fst s)"
    using exit_message_context [of ep m s "fst ?r" "snd ?r"] by simp
  have create: "command m = Create \<Longrightarrow> 32 \<le> length (data m) \<Longrightarrow>
      \<exists>k. xh_context (fst (snd ?r)) = (cx_activate k (xh_context h))\<lparr>cx_cipher_pair := None\<rparr>"
    by (cases "kp_ntor_server_handshake (re_prims e) (re_secret e) (xh_keypair h) (take 32 (data m))")
      (auto simp: exit_handle_message_def exit_create_ok ep s)
  show "cx_circuit_id (xh_context (fst (snd ?r))) = cx_circuit_id (xh_context (fst s))"
    using destroy short create other
    by (cases "command m = Create"; cases "command m = Destroy"; cases "length (data m) < 32") (auto simp: s)
  show "cx_wf (xh_context (fst s)) \<Longrightarrow> cx_wf (xh_context (fst (snd ?r)))"
    using destroy short create other
    by (cases "command m = Create"; cases "command m = Destroy"; cases "length (data m) < 32")
      (auto simp: s cx_wf_def)
  show "command m \<notin> {Create, Destroy} \<Longrightarrow> cx_session_key (xh_context (fst (snd ?r))) = cx_session_key (xh_context (fst s))"
    using other by simp
qed

section \<open>Properties\<close>

lemma exit_open_tag:
  "fst (fst (exit_open P m c)) \<longleftrightarrow>
     fst (rd_update P (ec_forward_digest c) (stream_id m) (to_u8 (command m)) (fst (apply_forward P (ec_cipher c) (data m))))
     = digest m"
  by (simp add: exit_open_def rd_verify_def split_beta Let_def)

text \<open>A cell sealed by an end in the same state opens to its plaintext, and the states move on together.\<close>

lemma exit_open_sealed:
  assumes "data m = fst (apply_forward P (ec_cipher c) d)"
    and "digest m = fst (rd_update P (ec_forward_digest c) (stream_id m) (to_u8 (command m)) d)"
  shows "exit_open P m c = ((True, d), c\<lparr>ec_cipher := snd (apply_forward P (ec_cipher c) d),
    ec_forward_digest := snd (rd_update P (ec_forward_digest c) (stream_id m) (to_u8 (command m)) d)\<rparr>)"
proof -
  have "apply_forward P (ec_cipher c) (data m) = (d, snd (apply_forward P (ec_cipher c) d))"
    unfolding assms(1) by (rule pair.fw.sync) simp
  then show ?thesis by (simp add: exit_open_def rd_verify_def split_beta assms(2))
qed

text \<open>
  C11. Integrity: a BEGIN, DATA or END whose tag is not the running digest of everything
  received so far and of its own decrypted data is refused. Nothing is sent or queued, no
  stream is opened or closed; only the cipher and the forward digest have moved on.
\<close>

theorem exit_rejects_tampering:
  assumes "xh_shared h = Some a" "c = xw_cryptos w ! a" "command m \<in> {Begin, Data, End}"
    and "fst (rd_update (re_prims e) (ec_forward_digest c) (stream_id m) (to_u8 (command m))
      (fst (apply_forward (re_prims e) (ec_cipher c) (data m)))) \<noteq> digest m"
  shows "\<exists>text c'. exit_handle_message (e, Some prev) m (h, w) = (Inl (Msg text), (h, set_crypto a c' w)) \<and>
    ec_backward_digest c' = ec_backward_digest c \<and> cp_backward (ec_cipher c') = cp_backward (ec_cipher c)"
proof -
  obtain d c' where op: "exit_open (re_prims e) m c = ((False, d), c')"
    using assms(4) exit_open_tag [of "re_prims e" m c] by (cases "exit_open (re_prims e) m c") auto
  have "\<exists>text. exit_handle_message (e, Some prev) m (h, w) = (Inl (Msg text), (h, set_crypto a c' w))"
    using assms(1-3) op
    by (auto simp: exit_handle_message_def exit_handle_begin_def exit_handle_data_def exit_handle_end_def)
  with exit_open_fields [OF op] show ?thesis by blast
qed

definition sample_crypto :: exit_crypto where
  "sample_crypto = \<lparr>ec_cipher = cipher_pair_new sk_zero, ec_forward_digest = running_digest_new,
     ec_backward_digest = running_digest_new\<rparr>"

definition sample_exit :: exit_handler where
  "sample_exit = \<lparr>xh_context = (cx_activate sk_zero (cx_new 7))\<lparr>cx_cipher_pair := None\<rparr>,
     xh_keypair = kp_generate toy_prims (replicate 32 1),
     xh_streams = [(1, \<lparr>es_destination = ''web:80'', es_task = 0\<rparr>)], xh_metrics = False, xh_shared = Some 0\<rparr>"

definition sample_task :: exit_task where
  "sample_task = \<lparr>tk_circuit = 7, tk_stream = 1, tk_crypto = 0, tk_writer = 0, tk_metrics = False,
     tk_queue = [], tk_sender = True, tk_running = True, tk_sent = []\<rparr>"

definition sample_world :: exit_world where
  "sample_world = \<lparr>xw_cryptos = [sample_crypto], xw_tasks = [sample_task], xw_writers = [sample_writer],
     xw_rm = relay_metrics_new 0\<rparr>"

theorem exit_rejects_tampering_witness:
  "\<exists>text. fst (exit_handle_message (sample_env, Some 0) (msg_data 7 1 [1, 2, 3]) (sample_exit, sample_world)) = Inl (Msg text)"
proof -
  have "fst (rd_update toy_prims running_digest_new 1 (to_u8 Data)
      (fst (apply_forward toy_prims (cipher_pair_new sk_zero) [1, 2, 3]))) \<noteq> [0, 0, 0, 0]"
    by code_simp
  then have "\<exists>text c'. exit_handle_message (sample_env, Some 0) (msg_data 7 1 [1, 2, 3]) (sample_exit, sample_world) =
      (Inl (Msg text), (sample_exit, set_crypto 0 c' sample_world)) \<and>
      ec_backward_digest c' = ec_backward_digest sample_crypto \<and>
      cp_backward (ec_cipher c') = cp_backward (ec_cipher sample_crypto)"
    by (intro exit_rejects_tampering)
      (simp_all add: sample_exit_def sample_world_def sample_env_def msg_defs sample_crypto_def)
  then show ?thesis by auto
qed

lemma exit_data_delivered:
  assumes "exit_wf (h, w)" "xh_shared h = Some a" "c = xw_cryptos w ! a" "command m = Data"
    and "data m = fst (apply_forward (re_prims e) (ec_cipher c) d)"
    and "digest m = fst (rd_update (re_prims e) (ec_forward_digest c) (stream_id m) (to_u8 Data) d)"
    and "hm_get (xh_streams h) (stream_id m) = Some s" "tk_running (xw_tasks w ! es_task s)"
  shows "\<exists>w'. exit_handle_message (e, prev) m (h, w) = (Inr None, (h, w')) \<and>
    xw_tasks w' = (xw_tasks w)[es_task s := (xw_tasks w ! es_task s)
      \<lparr>tk_queue := tk_queue (xw_tasks w ! es_task s) @ [d]\<rparr>] \<and>
    xw_writers w' = xw_writers w \<and>
    xw_cryptos w' ! a = c\<lparr>ec_cipher := snd (apply_forward (re_prims e) (ec_cipher c) d),
      ec_forward_digest := snd (rd_update (re_prims e) (ec_forward_digest c) (stream_id m) (to_u8 Data) d)\<rparr>"
proof -
  have op: "exit_open (re_prims e) m c = ((True, d), c\<lparr>ec_cipher := snd (apply_forward (re_prims e) (ec_cipher c) d),
      ec_forward_digest := snd (rd_update (re_prims e) (ec_forward_digest c) (stream_id m) (to_u8 Data) d)\<rparr>)"
    using exit_open_sealed [OF assms(5)] assms(4,6) by simp
  have "a < length (xw_cryptos w)" using assms(1,2) by (simp add: exit_wf_def)
  then show ?thesis
    using assms(2,4,7,8) op [unfolded assms(3)]
    by (simp add: exit_handle_message_def exit_handle_data_def assms(3) Let_def)
qed

text \<open>
  Delivery: a DATA cell that was sealed in the state the exit is in, for an open stream,
  is accepted without a reply; its plaintext is appended to the queue of exactly that
  stream's task, and the exit is then in the state of the sender after that cell.
\<close>

theorem exit_delivers_data:
  assumes "exit_wf (h, w)" "xh_shared h = Some a" "c = xw_cryptos w ! a" "command m = Data"
    and "data m = fst (apply_forward (re_prims e) (ec_cipher c) d)"
    and "digest m = fst (rd_update (re_prims e) (ec_forward_digest c) (stream_id m) (to_u8 Data) d)"
    and "hm_get (xh_streams h) (stream_id m) = Some s" "tk_running (xw_tasks w ! es_task s)"
  shows "\<exists>w'. exit_handle_message (e, prev) m (h, w) = (Inr None, (h, w')) \<and>
    xw_tasks w' = (xw_tasks w)[es_task s := (xw_tasks w ! es_task s)
      \<lparr>tk_queue := tk_queue (xw_tasks w ! es_task s) @ [d]\<rparr>] \<and>
    xw_writers w' = xw_writers w \<and>
    xw_cryptos w' ! a = c\<lparr>ec_cipher := snd (apply_forward (re_prims e) (ec_cipher c) d),
      ec_forward_digest := snd (rd_update (re_prims e) (ec_forward_digest c) (stream_id m) (to_u8 Data) d)\<rparr>"
  using exit_data_delivered [OF assms] .

lemma sample_exit_wf: "exit_wf (sample_exit, sample_world)"
  by (simp add: exit_wf_def sample_exit_def sample_world_def cx_wf_def sample_task_def hm_wf_def hm_get_def)

theorem exit_delivers_data_witness:
  "let d = [104, 105]; m = (msg_data 7 1 (fst (apply_forward toy_prims (cipher_pair_new sk_zero) d)))
         \<lparr>digest := fst (rd_update toy_prims running_digest_new 1 (to_u8 Data) d)\<rparr>
   in fst (exit_handle_message (sample_env, None) m (sample_exit, sample_world)) = Inr None"
  unfolding Let_def
  using exit_delivers_data [OF sample_exit_wf, of 0 sample_crypto
      "(msg_data 7 1 (fst (apply_forward toy_prims (cipher_pair_new sk_zero) [104, 105])))
         \<lparr>digest := fst (rd_update toy_prims running_digest_new 1 (to_u8 Data) [104, 105])\<rparr>" sample_env "[104, 105]"
      "\<lparr>es_destination = ''web:80'', es_task = 0\<rparr>" None]
  by (auto simp: sample_exit_def sample_world_def sample_env_def msg_defs sample_crypto_def hm_get_def sample_task_def)

section \<open>The backward direction\<close>

text \<open>What the client does with a backward cell once the outer layers are peeled.\<close>

definition exit_unseal :: "prims \<Rightarrow> message \<Rightarrow> exit_crypto \<Rightarrow> (bool \<times> bytes) \<times> exit_crypto" where
  "exit_unseal P m c =
     (let (d, cp) = apply_backward P (ec_cipher c) (data m);
          (ok, bd) = rd_verify P (ec_backward_digest c) (stream_id m) (to_u8 (command m)) d (digest m)
      in ((ok, d), c\<lparr>ec_cipher := cp, ec_backward_digest := bd\<rparr>))"

lemma exit_seal_unseal:
  assumes "exit_seal P cid sid cmd d c = (m, c')"
  shows "exit_unseal P m c = ((True, d), c')"
proof -
  obtain x cp where x: "apply_backward P (ec_cipher c) d = (x, cp)" by force
  from assms x show ?thesis
    by (auto simp: exit_seal_def exit_unseal_def Let_def pair.bw.sync [OF x] rd_verify_def msg_new_def split: prod.splits)
qed

fun seal_all :: "prims \<Rightarrow> u32 \<Rightarrow> (u16 \<times> message_command \<times> bytes) list \<Rightarrow> exit_crypto \<Rightarrow> message list \<times> exit_crypto" where
  "seal_all P cid [] c = ([], c)"
| "seal_all P cid ((sid, cmd, d) # xs) c =
     (let (m, c) = exit_seal P cid sid cmd d c; (ms, c) = seal_all P cid xs c in (m # ms, c))"

fun unseal_all :: "prims \<Rightarrow> message list \<Rightarrow> exit_crypto \<Rightarrow> (bool \<times> bytes) list \<times> exit_crypto" where
  "unseal_all P [] c = ([], c)"
| "unseal_all P (m # ms) c =
     (let (r, c) = exit_unseal P m c; (rs, c) = unseal_all P ms c in (r # rs, c))"

lemma exit_unseal_sealed:
  assumes "seal_all P cid xs c = (ms, c')"
  shows "unseal_all P ms c = (map (\<lambda>(sid, cmd, d). (True, d)) xs, c')"
  using assms
proof (induction xs arbitrary: c ms)
  case (Cons x xs)
  obtain sid cmd d where x: "x = (sid, cmd, d)" by (metis prod_cases3)
  obtain m c1 where m: "exit_seal P cid sid cmd d c = (m, c1)" by force
  obtain ms' c2 where ms': "seal_all P cid xs c1 = (ms', c2)" by force
  from Cons.prems x m ms' have "ms = m # ms'" "c' = c2" by (auto simp: Let_def)
  with Cons.IH [of c1 ms'] ms' exit_seal_unseal [OF m] show ?case by (simp add: x)
qed simp

text \<open>
  Cells the exit seals, on any streams and in any number, are all verified and decrypted
  by a client in the same state, provided they arrive in the order in which they were
  sealed.
\<close>

theorem exit_backward_in_order:
  assumes "seal_all P cid xs c = (ms, c')"
  shows "unseal_all P ms c = (map (\<lambda>(sid, cmd, d). (True, d)) xs, c')"
  using assms by (rule exit_unseal_sealed)

theorem exit_backward_in_order_witness:
  "let xs = [(1, Connected, []), (1, Data, [5, 6]), (2, Data, [7]), (1, End, [])]
   in fst (unseal_all toy_prims (fst (seal_all toy_prims 7 xs sample_crypto)) sample_crypto) =
      [(True, []), (True, [5, 6]), (True, [7]), (True, [])]"
  unfolding Let_def
  using exit_backward_in_order [OF prod.collapse [symmetric],
    of toy_prims 7 "[(1, Connected, []), (1, Data, [5, 6]), (2, Data, [7]), (1, End, [])]" sample_crypto]
  by simp

text \<open>
  The order matters: when an END sealed first (a reply of the handler, written later by the
  main loop) is overtaken on the wire by the END of a stream task, the client sees a digest
  mismatch.
\<close>

lemma exit_reordered_reply_fails:
  "let (ms, c) = seal_all toy_prims 7 [(2, End, []), (1, End, [])] sample_crypto
   in \<not> fst (hd (fst (unseal_all toy_prims (rev ms) sample_crypto)))"
  by code_simp

section \<open>What a stream task sends and receives\<close>

lemma exit_seal_fits:
  assumes "exit_seal P cid sid cmd d c = (m, c')" "length d \<le> MAX_PAYLOAD_SIZE"
  shows "msg_fits m"
proof -
  obtain tag bd where t: "rd_update P (ec_backward_digest c) sid (to_u8 cmd) d = (tag, bd)" by force
  obtain x cp where x: "apply_backward P (ec_cipher c) d = (x, cp)" by force
  have "length tag = 4" using length_rd_update [of P "ec_backward_digest c" sid "to_u8 cmd" d] t by simp
  moreover have "length x = length d" using pair.bw.ks_length [of P "ec_cipher c" d] x by simp
  ultimately show ?thesis using assms t x by (auto simp: exit_seal_def msg_fits_def msg_wf_def msg_new_def)
qed

text \<open>The task of a stream is set up: its crypto state and its writer exist, the connection is up.\<close>

definition task_ready :: "nat \<Rightarrow> exit_world \<Rightarrow> bool" where
  "task_ready t w =
     (let tk = xw_tasks w ! t in
      t < length (xw_tasks w) \<and> tk_crypto tk < length (xw_cryptos w) \<and> tk_writer tk < length (xw_writers w) \<and>
      wr_room (xw_writers w ! tk_writer tk) = None)"

lemma task_send_ok:
  assumes "task_ready t w" "tk = xw_tasks w ! t" "length d \<le> MAX_PAYLOAD_SIZE"
    and "exit_seal P (tk_circuit tk) (tk_stream tk) cmd d (xw_cryptos w ! tk_crypto tk) = (m, c)"
  shows "\<exists>w'. task_send P t cmd d w = (True, w') \<and> task_ready t w' \<and> xw_tasks w' = xw_tasks w \<and>
    xw_cryptos w' ! tk_crypto tk = c \<and>
    wr_bytes (xw_writers w' ! tk_writer tk) =
      wr_bytes (xw_writers w ! tk_writer tk) @ to_bytes (wr_rnd (xw_writers w ! tk_writer tk)) m"
proof -
  have fits: "msg_fits m" using exit_seal_fits [OF assms(4,3)] .
  have room: "wr_room (xw_writers w ! tk_writer tk) = None" using assms(1,2) by (simp add: task_ready_def Let_def)
  show ?thesis
    using assms write_to_stream_ok [OF fits room]
    by (auto simp: task_send_def Let_def task_ready_def)
qed

lemma task_send_chunks_ok:
  assumes "task_ready t w" "tk = xw_tasks w ! t" "\<forall>ch \<in> set chs. length ch \<le> MAX_PAYLOAD_SIZE"
    and "seal_all P (tk_circuit tk) (map (\<lambda>ch. (tk_stream tk, Data, ch)) chs) (xw_cryptos w ! tk_crypto tk) = (ms, c)"
  shows "\<exists>w' rnds. task_send_chunks P t chs w = (True, w') \<and> xw_tasks w' = xw_tasks w \<and>
    xw_cryptos w' ! tk_crypto tk = c \<and> length rnds = length ms \<and> (\<forall>m \<in> set ms. msg_fits m) \<and>
    wr_bytes (xw_writers w' ! tk_writer tk) =
      wr_bytes (xw_writers w ! tk_writer tk) @ concat (map2 to_bytes rnds ms)"
  using assms
proof (induction chs arbitrary: w ms)
  case (Cons ch chs)
  obtain m c1 where m: "exit_seal P (tk_circuit tk) (tk_stream tk) Data ch (xw_cryptos w ! tk_crypto tk) = (m, c1)" by force
  obtain ms' c2 where ms': "seal_all P (tk_circuit tk) (map (\<lambda>ch. (tk_stream tk, Data, ch)) chs) c1 = (ms', c2)" by force
  have ms: "ms = m # ms'" "c = c2" using Cons.prems(4) m ms' by (auto simp: Let_def)
  have le: "length ch \<le> MAX_PAYLOAD_SIZE" using Cons.prems(3) by simp
  from task_send_ok [OF Cons.prems(1,2) le m]
  obtain w1 where w1: "task_send P t Data ch w = (True, w1)" "task_ready t w1" "xw_tasks w1 = xw_tasks w"
    "xw_cryptos w1 ! tk_crypto tk = c1"
    "wr_bytes (xw_writers w1 ! tk_writer tk) =
      wr_bytes (xw_writers w ! tk_writer tk) @ to_bytes (wr_rnd (xw_writers w ! tk_writer tk)) m"
    by blast
  have tk: "tk = xw_tasks w1 ! t" using w1(3) Cons.prems(2) by simp
  from Cons.IH [OF w1(2) tk] Cons.prems(3) ms' w1(4)
  obtain w' rnds where w': "task_send_chunks P t chs w1 = (True, w')" "xw_tasks w' = xw_tasks w1"
    "xw_cryptos w' ! tk_crypto tk = c2" "length rnds = length ms'" "\<forall>m \<in> set ms'. msg_fits m"
    "wr_bytes (xw_writers w' ! tk_writer tk) =
      wr_bytes (xw_writers w1 ! tk_writer tk) @ concat (map2 to_bytes rnds ms')"
    by (auto simp: ms)
  show ?case
    using w' w1 ms exit_seal_fits [OF m le]
    by (intro exI [of _ w'] exI [of _ "wr_rnd (xw_writers w ! tk_writer tk) # rnds"]) simp
qed (auto intro: exI [of _ "[]"])

text \<open>
  Data from a destination reaches the client complete and in order: whatever the task
  reads is cut into cells of at most 497 bytes, all written to the previous hop; reading them
  back gives cells that verify and decrypt, in a client that shares the state, to pieces that
  concatenate to exactly what was read, and leave the client in the state of the exit.
\<close>

theorem exit_task_returns_data:
  assumes "task_ready t w" "tk = xw_tasks w ! t" "wr_bytes (xw_writers w ! tk_writer tk) = before"
  shows "\<exists>bs ms pieces.
    wr_bytes (xw_writers (task_read_data e t buf w) ! tk_writer tk) = before @ bs \<and>
    read_msgs (Suc (length ms)) \<lparr>rd_bytes = bs, rd_broken = False\<rparr> = (ms, None) \<and>
    unseal_all (re_prims e) ms (xw_cryptos w ! tk_crypto tk) =
      (map (\<lambda>d. (True, d)) pieces, xw_cryptos (task_read_data e t buf w) ! tk_crypto tk) \<and>
    concat pieces = buf"
proof -
  let ?chs = "chunks MAX_PAYLOAD_SIZE buf"
  obtain ms c where ms: "seal_all (re_prims e) (tk_circuit tk) (map (\<lambda>ch. (tk_stream tk, Data, ch)) ?chs)
      (xw_cryptos w ! tk_crypto tk) = (ms, c)" by force
  have "\<forall>ch \<in> set ?chs. length ch \<le> MAX_PAYLOAD_SIZE" using chunks_bound by blast
  from task_send_chunks_ok [OF assms(1,2) this ms]
  obtain w' rnds where w': "task_send_chunks (re_prims e) t ?chs w = (True, w')"
    "xw_cryptos w' ! tk_crypto tk = c" "length rnds = length ms" "\<forall>m \<in> set ms. msg_fits m"
    "wr_bytes (xw_writers w' ! tk_writer tk) = before @ concat (map2 to_bytes rnds ms)"
    using assms(3) by blast
  have "unseal_all (re_prims e) ms (xw_cryptos w ! tk_crypto tk) = (map (\<lambda>d. (True, d)) ?chs, c)"
    using exit_unseal_sealed [OF ms] by (simp add: o_def)
  moreover have "concat ?chs = buf" by (simp add: chunks_concat MAX_PAYLOAD_SIZE_eq)
  ultimately show ?thesis
    using w' read_msgs_cells [OF w'(4,3), of "Suc (length ms)"]
    by (intro exI [of _ "concat (map2 to_bytes rnds ms)"] exI [of _ ms] exI [of _ ?chs])
      (simp add: task_read_data_def Let_def)
qed

theorem exit_task_returns_data_witness:
  "\<exists>bs ms pieces.
    wr_bytes (xw_writers (task_read_data sample_env 0 [1, 2, 3] sample_world) ! 0) = [] @ bs \<and>
    read_msgs (Suc (length ms)) \<lparr>rd_bytes = bs, rd_broken = False\<rparr> = (ms, None) \<and>
    unseal_all toy_prims ms sample_crypto =
      (map (\<lambda>d. (True, d)) pieces, xw_cryptos (task_read_data sample_env 0 [1, 2, 3] sample_world) ! 0) \<and>
    concat pieces = [1, 2, 3]"
  using exit_task_returns_data [of 0 sample_world sample_task "[]" sample_env "[1, 2, 3]"]
  by (simp add: task_ready_def sample_world_def sample_task_def sample_writer_def sample_env_def)

text \<open>Draining the queue: the receiving arm as often as there is data.\<close>

fun task_drain :: "nat \<Rightarrow> nat \<Rightarrow> exit_world \<Rightarrow> exit_world" where
  "task_drain 0 t w = w"
| "task_drain (Suc n) t w = task_drain n t (task_recv True t w)"

text \<open>
  What the client sends reaches the destination in order: when the task has taken all it
  was queued, it has written the queued data one after the other behind what it had written
  before; it then stops exactly if the handler has dropped the stream.
\<close>

theorem exit_task_fifo:
  assumes "t < length (xw_tasks w)" "tk = xw_tasks w ! t"
  shows "xw_tasks (task_drain (length (tk_queue tk)) t w) ! t =
      tk\<lparr>tk_queue := [], tk_sent := tk_sent tk @ concat (tk_queue tk)\<rparr> \<and>
    tk_running (xw_tasks (task_recv True t (task_drain (length (tk_queue tk)) t w)) ! t) =
      (tk_running tk \<and> tk_sender tk)"
proof -
  have *: "xw_tasks (task_drain (length q) t w) ! t = tk\<lparr>tk_queue := [], tk_sent := tk_sent tk @ concat q\<rparr> \<and>
      length (xw_tasks (task_drain (length q) t w)) = length (xw_tasks w)"
    if "t < length (xw_tasks w)" "tk = xw_tasks w ! t" "tk_queue tk = q" for q w tk
    using that
  proof (induction q arbitrary: w tk)
    case (Cons d q)
    let ?w = "task_recv True t w"
    have w: "xw_tasks ?w ! t = tk\<lparr>tk_queue := q, tk_sent := tk_sent tk @ d\<rparr>"
      "length (xw_tasks ?w) = length (xw_tasks w)"
      using Cons.prems by (auto simp: task_recv_def Let_def)
    from Cons.IH [of ?w "xw_tasks ?w ! t"] w Cons.prems(1) show ?case by simp
  qed simp
  from * [OF assms refl] assms(1) show ?thesis
    by (auto simp: task_recv_def task_stop_def Let_def)
qed

theorem exit_task_fifo_witness:
  "tk_sent (xw_tasks (task_drain 2 0 (sample_world\<lparr>xw_tasks := [sample_task\<lparr>tk_queue := [[1, 2], [3]]\<rparr>]\<rparr>)) ! 0) = [1, 2, 3]"
  using exit_task_fifo [of 0 "sample_world\<lparr>xw_tasks := [sample_task\<lparr>tk_queue := [[1, 2], [3]]\<rparr>]\<rparr>"
    "sample_task\<lparr>tk_queue := [[1, 2], [3]]\<rparr>"]
  by (simp add: sample_task_def eval_nat_numeral del: task_drain.simps)

end
