(* ===== verification/Relay_Node.thy ===== *)
theory Relay_Node
  imports Relay_Middle Relay_Exit
begin

text \<open>
  The relay process: dispatch over the three handlers and the circuit registry
  (\<open>relay-node/src/circuit/handler.rs\<close>), the background readers of the next hop
  (\<open>spawn_nexthop_reader\<close> in \<open>entry.rs\<close> and \<open>middle.rs\<close>) and the connection loop
  (\<open>handle_connection\<close> in \<open>relay-node/src/main.rs\<close>). The registry, the shared crypto
  states, the stream tasks, the write halves of the connections and the metrics are one node
  state; a connection is the address of its write half.
\<close>

section \<open>Dispatch\<close>

datatype circuit_handler =
    EntryHandler entry_handler
  | MiddleHandler middle_handler
  | ExitHandler exit_handler

fun ch_context :: "circuit_handler \<Rightarrow> circuit_context" where
  "ch_context (EntryHandler h) = eh_context h"
| "ch_context (MiddleHandler h) = mh_context h"
| "ch_context (ExitHandler h) = xh_context h"

fun ch_handle_message ::
  "relay_env \<times> nat option \<Rightarrow> message \<Rightarrow> circuit_handler \<times> exit_world \<Rightarrow> reply \<times> circuit_handler \<times> exit_world"
where
  "ch_handle_message ep m (EntryHandler h, w) =
     (let (r, (h, mt)) = entry_handle_message (fst ep) m (h, xw_rm w) in (r, (EntryHandler h, w\<lparr>xw_rm := mt\<rparr>)))"
| "ch_handle_message ep m (MiddleHandler h, w) =
     (let (r, (h, mt)) = middle_handle_message (fst ep) m (h, xw_rm w) in (r, (MiddleHandler h, w\<lparr>xw_rm := mt\<rparr>)))"
| "ch_handle_message ep m (ExitHandler h, w) =
     (let (r, (h, w)) = exit_handle_message ep m (h, w) in (r, (ExitHandler h, w)))"

fun ch_circuit_id :: "circuit_handler \<Rightarrow> u32" where
  "ch_circuit_id (EntryHandler h) = entry_circuit_id h"
| "ch_circuit_id (MiddleHandler h) = middle_circuit_id h"
| "ch_circuit_id (ExitHandler h) = exit_circuit_id h"

fun ch_state :: "circuit_handler \<Rightarrow> circuit_state" where
  "ch_state (EntryHandler h) = entry_state_of h"
| "ch_state (MiddleHandler h) = middle_state_of h"
| "ch_state (ExitHandler h) = exit_state_of h"

fun ch_session_key :: "circuit_handler \<Rightarrow> session_key option" where
  "ch_session_key (EntryHandler h) = entry_session_key h"
| "ch_session_key (MiddleHandler h) = middle_session_key h"
| "ch_session_key (ExitHandler h) = exit_session_key h"

fun ch_close :: "circuit_handler \<times> exit_world \<Rightarrow> circuit_handler \<times> exit_world" where
  "ch_close (EntryHandler h, w) = (EntryHandler (entry_close h), w)"
| "ch_close (MiddleHandler h, w) = (MiddleHandler (middle_close h), w)"
| "ch_close (ExitHandler h, w) = (let (h, w) = exit_close (h, w) in (ExitHandler h, w))"

fun ch_handle_backward_relay ::
  "relay_env \<Rightarrow> message \<Rightarrow> circuit_handler \<times> exit_world \<Rightarrow> reply \<times> circuit_handler \<times> exit_world"
where
  "ch_handle_backward_relay e m (EntryHandler h, w) =
     (let (r, (h, mt)) = entry_handle_backward_relay e m (h, xw_rm w) in (r, (EntryHandler h, w\<lparr>xw_rm := mt\<rparr>)))"
| "ch_handle_backward_relay e m (MiddleHandler h, w) =
     (let (r, (h, mt)) = middle_handle_backward_relay e m (h, xw_rm w) in (r, (MiddleHandler h, w\<lparr>xw_rm := mt\<rparr>)))"
| "ch_handle_backward_relay e m (ExitHandler h, w) = (Inr (Some m), (ExitHandler h, w))"

section \<open>The registry\<close>

record circuit_registry =
  cr_circuits :: "(u32, circuit_handler) hmap"
  cr_next_circuit_id :: u32

definition cr_new :: circuit_registry where
  "cr_new = \<lparr>cr_circuits = [], cr_next_circuit_id = 1\<rparr>"

definition cr_allocate_circuit_id :: "circuit_registry \<Rightarrow> u32 \<times> circuit_registry" where
  "cr_allocate_circuit_id r =
     (cr_next_circuit_id r, r\<lparr>cr_next_circuit_id := cr_next_circuit_id r + 1\<rparr>)"

text \<open>Replacing a handler drops it; a dropped exit handler drops its streams.\<close>

fun drop_handler :: "circuit_handler option \<Rightarrow> exit_world \<Rightarrow> exit_world" where
  "drop_handler (Some (ExitHandler h)) w = fold drop_sender (hm_values (xh_streams h)) w"
| "drop_handler other w = w"

type_synonym registry_world = "circuit_registry \<times> exit_world"

definition cr_add_circuit :: "u32 \<Rightarrow> circuit_handler \<Rightarrow> registry_world \<Rightarrow> registry_world" where
  "cr_add_circuit cid h rw =
     (let (r, w) = rw
      in (r\<lparr>cr_circuits := hm_insert cid h (cr_circuits r)\<rparr>, drop_handler (hm_get (cr_circuits r) cid) w))"

definition cr_remove_circuit :: "u32 \<Rightarrow> circuit_registry \<Rightarrow> circuit_handler option \<times> circuit_registry" where
  "cr_remove_circuit cid r =
     (hm_get (cr_circuits r) cid, r\<lparr>cr_circuits := hm_remove cid (cr_circuits r)\<rparr>)"

definition cr_circuit_count :: "circuit_registry \<Rightarrow> nat" where
  "cr_circuit_count r = length (cr_circuits r)"

definition cr_circuit_summaries :: "circuit_registry \<Rightarrow> (u32 \<times> circuit_state) list" where
  "cr_circuit_summaries r = map (\<lambda>(cid, h). (cid, ch_state h)) (cr_circuits r)"

definition cr_handle_message ::
  "relay_env \<times> nat option \<Rightarrow> message \<Rightarrow> registry_world \<Rightarrow> reply \<times> registry_world"
where
  "cr_handle_message ep m rw =
     (let (r, w) = rw; cid = circuit_id m in
      case hm_get (cr_circuits r) cid of
        Some h \<Rightarrow>
          let (rep, (h, w)) = ch_handle_message ep m (h, w)
          in (rep, (r\<lparr>cr_circuits := hm_insert cid h (cr_circuits r)\<rparr>, w))
      | None \<Rightarrow>
          if command m = Create then (Inr None, rw)
          else (Inl (Msg (''Circuit '' @ show_u32 cid @ '' not found'')), rw))"

definition cr_handle_backward_message ::
  "relay_env \<Rightarrow> message \<Rightarrow> registry_world \<Rightarrow> reply \<times> registry_world"
where
  "cr_handle_backward_message e m rw =
     (let (r, w) = rw; cid = circuit_id m in
      case hm_get (cr_circuits r) cid of
        Some h \<Rightarrow>
          let (rep, (h, w)) = ch_handle_backward_relay e m (h, w)
          in (rep, (r\<lparr>cr_circuits := hm_insert cid h (cr_circuits r)\<rparr>, w))
      | None \<Rightarrow> (Inl (Msg (''Circuit '' @ show_u32 cid @ '' not found for backward message'')), rw))"

section \<open>The node\<close>

text \<open>A background reader: its circuit, the write half it answers to, the read half it owns.\<close>

record nexthop_reader =
  nr_circuit :: u32
  nr_prev :: nat
  nr_read :: reader
  nr_running :: bool

record relay_node =
  rn_type :: node_type
  rn_keypair :: key_pair
  rn_registry :: circuit_registry
  rn_world :: exit_world
  rn_readers :: "nexthop_reader list"

definition rn_new :: "node_type \<Rightarrow> key_pair \<Rightarrow> nat \<Rightarrow> relay_node" where
  "rn_new t kp now = \<lparr>rn_type = t, rn_keypair = kp, rn_registry = cr_new,
     rn_world = \<lparr>xw_cryptos = [], xw_tasks = [], xw_writers = [], xw_rm = relay_metrics_new now\<rparr>,
     rn_readers = []\<rparr>"

definition rn_metrics :: "(relay_metrics \<Rightarrow> relay_metrics) \<Rightarrow> relay_node \<Rightarrow> relay_node" where
  "rn_metrics f n = n\<lparr>rn_world := (rn_world n)\<lparr>xw_rm := f (xw_rm (rn_world n))\<rparr>\<rparr>"

text \<open>Write to a connection: whether it succeeded.\<close>

definition rn_write :: "nat \<Rightarrow> message \<Rightarrow> relay_node \<Rightarrow> bool \<times> relay_node" where
  "rn_write conn m n =
     (let w = rn_world n; (r, wr) = write_to_stream m (xw_writers w ! conn)
      in (is_ok r, n\<lparr>rn_world := w\<lparr>xw_writers := (xw_writers w)[conn := wr]\<rparr>\<rparr>))"

text \<open>\<open>writer.shutdown()\<close>: nothing more can be written.\<close>

definition rn_shutdown :: "nat \<Rightarrow> relay_node \<Rightarrow> relay_node" where
  "rn_shutdown conn n =
     (let w = rn_world n
      in n\<lparr>rn_world := w\<lparr>xw_writers := (xw_writers w)[conn := (xw_writers w ! conn)\<lparr>wr_room := Some 0\<rparr>]\<rparr>\<rparr>)"

text \<open>A fresh handler for a CREATE, with metrics.\<close>

definition rn_new_handler :: "relay_node \<Rightarrow> u32 \<Rightarrow> circuit_handler" where
  "rn_new_handler n cid =
     (case rn_type n of
        Entry \<Rightarrow> EntryHandler (entry_set_metrics (entry_new cid (rn_keypair n)))
      | Middle \<Rightarrow> MiddleHandler (middle_set_metrics (middle_new cid (rn_keypair n)))
      | Exit \<Rightarrow> ExitHandler (exit_set_metrics (exit_new cid (rn_keypair n))))"

text \<open>\<open>spawn_nexthop_reader\<close>: only with a next hop whose read half is still there.\<close>

definition entry_spawn_nexthop_reader :: "nat \<Rightarrow> entry_handler \<Rightarrow> nexthop_reader option \<times> entry_handler" where
  "entry_spawn_nexthop_reader conn h =
     (case eh_next_hop h of None \<Rightarrow> (None, h)
      | Some hop \<Rightarrow> (case nh_take_read hop of
            (None, hop) \<Rightarrow> (None, h\<lparr>eh_next_hop := Some hop\<rparr>)
          | (Some rd, hop) \<Rightarrow>
              (Some \<lparr>nr_circuit = cx_circuit_id (eh_context h), nr_prev = conn, nr_read = rd, nr_running = True\<rparr>,
               h\<lparr>eh_next_hop := Some hop\<rparr>)))"

definition middle_spawn_nexthop_reader :: "nat \<Rightarrow> middle_handler \<Rightarrow> nexthop_reader option \<times> middle_handler" where
  "middle_spawn_nexthop_reader conn h =
     (case mh_next_hop h of None \<Rightarrow> (None, h)
      | Some hop \<Rightarrow> (case nh_take_read hop of
            (None, hop) \<Rightarrow> (None, h\<lparr>mh_next_hop := Some hop\<rparr>)
          | (Some rd, hop) \<Rightarrow>
              (Some \<lparr>nr_circuit = cx_circuit_id (mh_context h), nr_prev = conn, nr_read = rd, nr_running = True\<rparr>,
               h\<lparr>mh_next_hop := Some hop\<rparr>)))"

fun ch_spawn_nexthop_reader :: "nat \<Rightarrow> circuit_handler \<Rightarrow> nexthop_reader option \<times> circuit_handler" where
  "ch_spawn_nexthop_reader conn (EntryHandler h) =
     (let (t, h) = entry_spawn_nexthop_reader conn h in (t, EntryHandler h))"
| "ch_spawn_nexthop_reader conn (MiddleHandler h) =
     (let (t, h) = middle_spawn_nexthop_reader conn h in (t, MiddleHandler h))"
| "ch_spawn_nexthop_reader conn (ExitHandler h) = (None, ExitHandler h)"

definition rn_spawn_reader :: "nat \<Rightarrow> u32 \<Rightarrow> relay_node \<Rightarrow> relay_node" where
  "rn_spawn_reader conn cid n =
     (case hm_get (cr_circuits (rn_registry n)) cid of None \<Rightarrow> n
      | Some h \<Rightarrow>
          let (t, h) = ch_spawn_nexthop_reader conn h;
              r = (rn_registry n)\<lparr>cr_circuits := hm_insert cid h (cr_circuits (rn_registry n))\<rparr>
          in n\<lparr>rn_registry := r,
               rn_readers := rn_readers n @ (case t of None \<Rightarrow> [] | Some rd \<Rightarrow> [rd])\<rparr>)"

section \<open>The connection loop\<close>

text \<open>
  One message on a connection: whether the loop goes on. A CREATE gets a fresh handler, which
  is registered once CREATED is on the wire.
\<close>

definition conn_create :: "relay_env \<Rightarrow> nat \<Rightarrow> message \<Rightarrow> relay_node \<Rightarrow> bool \<times> relay_node" where
  "conn_create e conn m n =
     (let cid = circuit_id m;
          (rep, (h, w)) = ch_handle_message (e, Some conn) m (rn_new_handler n cid, rn_world n);
          n = n\<lparr>rn_world := w\<rparr>
      in case rep of
           Inr (Some response) \<Rightarrow>
             (let (ok, n) = rn_write conn response n in
              if \<not> ok then (False, n)
              else let n = rn_metrics (\<lambda>mt. rm_push_event (re_now e) (CircuitCreated cid)
                         (mt\<lparr>rm_circuits_created := rm_circuits_created mt + 1\<rparr>)) n;
                       (r, w) = cr_add_circuit cid h (rn_registry n, rn_world n)
                   in (True, n\<lparr>rn_registry := r, rn_world := w\<rparr>))
         | Inr None \<Rightarrow> (True, n)
         | Inl er \<Rightarrow>
             (False, rn_metrics (rm_push_event (re_now e)
               (ErrorEvent (''CREATE failed cid='' @ show_u32 cid @ '': '' @ show_error e er))) n))"

definition is_extend_command :: "message_command \<Rightarrow> bool" where
  "is_extend_command c = (c = Extended \<or> c = Extend)"

definition destroyed_metrics :: "relay_env \<Rightarrow> u32 \<Rightarrow> relay_metrics \<Rightarrow> relay_metrics" where
  "destroyed_metrics e cid mt = rm_push_event (re_now e) (CircuitDestroyed cid)
     (mt\<lparr>rm_circuits_destroyed := rm_circuits_destroyed mt + 1\<rparr>)"

text \<open>Any other message goes to the registry; its reply is written back.\<close>

definition conn_relay :: "relay_env \<Rightarrow> nat \<Rightarrow> message \<Rightarrow> relay_node \<Rightarrow> bool \<times> relay_node" where
  "conn_relay e conn m n =
     (let cid = circuit_id m; cmd = command m;
          (rep, (r, w)) = cr_handle_message (e, Some conn) m (rn_registry n, rn_world n);
          n = n\<lparr>rn_registry := r, rn_world := w\<rparr>
      in case rep of
           Inr (Some response) \<Rightarrow>
             (let resp_bytes = length (data response); (ok, n) = rn_write conn response n in
              if \<not> ok then (False, n)
              else let n = (if \<not> (is_extend_command cmd \<or> cmd = Destroy)
                            then rn_metrics (\<lambda>mt. rm_push_event (re_now e) (RelayForward cid cmd resp_bytes)
                              (mt\<lparr>rm_bytes_forwarded := rm_bytes_forwarded mt + word_of_nat resp_bytes\<rparr>)) n
                            else n);
                       n = (if cmd = Destroy then rn_metrics (destroyed_metrics e cid) n else n);
                       n = (if is_extend_command cmd then rn_spawn_reader conn cid n else n)
                   in (True, n))
         | Inr None \<Rightarrow>
             (let n = (if cmd = Destroy then rn_metrics (destroyed_metrics e cid) n else n);
                  n = (if is_extend_command cmd then rn_spawn_reader conn cid n else n)
              in (True, n))
         | Inl er \<Rightarrow>
             (False, rn_metrics (rm_push_event (re_now e)
               (ErrorEvent (show_command cmd @ '' failed cid='' @ show_u32 cid @ '': '' @ show_error e er))) n))"

definition conn_message :: "relay_env \<Rightarrow> nat \<Rightarrow> message \<Rightarrow> relay_node \<Rightarrow> bool \<times> relay_node" where
  "conn_message e conn m n = (if command m = Create then conn_create e conn m n else conn_relay e conn m n)"

text \<open>
  \<open>handle_connection\<close> on what the peer sends; \<open>fuel\<close> bounds the number of cells. The loop
  ends with the stream, a read error, or a failed message.
\<close>

fun handle_connection :: "nat \<Rightarrow> relay_env \<Rightarrow> string \<Rightarrow> nat \<Rightarrow> reader \<Rightarrow> relay_node \<Rightarrow> relay_node" where
  "handle_connection 0 e peer conn rd n = n"
| "handle_connection (Suc fuel) e peer conn rd n =
     (case from_stream rd of
        (Inr (Some m), rd) \<Rightarrow>
          (case conn_message e conn m n of
             (True, n) \<Rightarrow> handle_connection fuel e peer conn rd n
           | (False, n) \<Rightarrow> n)
      | (Inr None, rd) \<Rightarrow> rn_metrics (rm_push_event (re_now e) (ConnectionClosed peer)) n
      | (Inl er, rd) \<Rightarrow> rn_metrics (rm_push_event (re_now e) (ConnectionClosed peer)) n)"

section \<open>The readers of the next hop\<close>

definition reader_stop :: "nat \<Rightarrow> relay_node \<Rightarrow> relay_node" where
  "reader_stop i n = n\<lparr>rn_readers := (rn_readers n)[i := (rn_readers n ! i)\<lparr>nr_running := False\<rparr>]\<rparr>"

text \<open>Leaving the loop: DESTROY towards the client, then shut the connection down.\<close>

definition reader_leave :: "nat \<Rightarrow> relay_node \<Rightarrow> relay_node" where
  "reader_leave i n =
     (let rd = rn_readers n ! i; (ok, n) = rn_write (nr_prev rd) (msg_destroy (nr_circuit rd)) n
      in reader_stop i (rn_shutdown (nr_prev rd) n))"

text \<open>A backward message goes through the registry to the handler and on to the previous hop.\<close>

definition reader_backward :: "relay_env \<Rightarrow> nat \<Rightarrow> message \<Rightarrow> relay_node \<Rightarrow> relay_node" where
  "reader_backward e i m n =
     (let rd = rn_readers n ! i; bytes = length (data m);
          (rep, (r, w)) = cr_handle_backward_message e m (rn_registry n, rn_world n);
          n = n\<lparr>rn_registry := r, rn_world := w\<rparr>
      in case rep of
           Inr (Some response) \<Rightarrow>
             (let (ok, n) = rn_write (nr_prev rd) response n in
              if \<not> ok then reader_leave i n
              else rn_metrics (\<lambda>mt. rm_push_event (re_now e) (RelayBackward (nr_circuit rd) (command m) bytes)
                     (mt\<lparr>rm_bytes_received := rm_bytes_received mt + word_of_nat bytes\<rparr>)) n)
         | Inr None \<Rightarrow> n
         | Inl er \<Rightarrow> reader_leave i n)"

definition take_message :: "nat \<Rightarrow> relay_node \<Rightarrow> (any_error + message option) \<times> relay_node" where
  "take_message i n =
     (let rd = rn_readers n ! i; (r, s) = from_stream (nr_read rd)
      in (r, n\<lparr>rn_readers := (rn_readers n)[i := rd\<lparr>nr_read := s\<rparr>]\<rparr>))"

text \<open>One turn of the entry's reader: a DESTROY from downstream is passed on and ends it.\<close>

definition entry_reader_turn :: "relay_env \<Rightarrow> nat \<Rightarrow> relay_node \<Rightarrow> relay_node" where
  "entry_reader_turn e i n =
     (case take_message i n of
        (Inr (Some m), n) \<Rightarrow>
          if command m = Destroy then reader_leave i n else reader_backward e i m n
      | (Inr None, n) \<Rightarrow> reader_leave i n
      | (Inl er, n) \<Rightarrow> reader_leave i n)"

text \<open>The middle's reader has no such case: a DESTROY is a backward message like any other.\<close>

definition middle_reader_turn :: "relay_env \<Rightarrow> nat \<Rightarrow> relay_node \<Rightarrow> relay_node" where
  "middle_reader_turn e i n =
     (case take_message i n of
        (Inr (Some m), n) \<Rightarrow> reader_backward e i m n
      | (Inr None, n) \<Rightarrow> reader_leave i n
      | (Inl er, n) \<Rightarrow> reader_leave i n)"

section \<open>Heartbeat\<close>

text \<open>\<open>build_metrics\<close>: the snapshot a relay sends to the directory.\<close>

definition build_metrics :: "nat \<Rightarrow> relay_node \<Rightarrow> node_metrics" where
  "build_metrics now n =
     (let mt = xw_rm (rn_world n)
      in \<lparr>connections_accepted = rm_connections_accepted mt,
          circuits_active = word_of_nat (cr_circuit_count (rn_registry n)),
          circuits_created = rm_circuits_created mt, circuits_destroyed = rm_circuits_destroyed mt,
          bytes_forwarded = rm_bytes_forwarded mt, bytes_received = rm_bytes_received mt,
          streams_opened = rm_streams_opened mt, uptime_secs = word_of_nat (as_secs (rm_uptime now mt)),
          event_snapshot = rm_event_snapshot mt\<rparr>)"

text \<open>\<open>accept_connections\<close>: a connection counts before the capacity check refuses it.\<close>

definition accept_connection ::
  "relay_env \<Rightarrow> nat \<Rightarrow> nat \<Rightarrow> socket_addr \<Rightarrow> bool \<Rightarrow> writer \<Rightarrow> relay_node \<Rightarrow> nat option \<times> relay_node"
where
  "accept_connection e in_use max_concurrent peer tls_ok wr n =
     (let n = rn_metrics (\<lambda>mt. rm_push_event (re_now e) (ConnectionAccepted (show_socket_addr peer))
                (mt\<lparr>rm_connections_accepted := rm_connections_accepted mt + 1\<rparr>)) n
      in if max_concurrent \<le> in_use then (None, n)
         else if \<not> tls_ok then (None, n)
         else (Some (length (xw_writers (rn_world n))),
               n\<lparr>rn_world := (rn_world n)\<lparr>xw_writers := xw_writers (rn_world n) @ [wr]\<rparr>\<rparr>))"

section \<open>Properties of the dispatch\<close>

interpretation dispatch: handler_contract ch_handle_message "\<lambda>st. ch_context (fst st)"
  "\<lambda>ep st pk. case fst st of
      EntryHandler h \<Rightarrow> kp_ntor_server_handshake (re_prims (fst ep)) (re_secret (fst ep)) (eh_keypair h) pk
    | MiddleHandler h \<Rightarrow> kp_ntor_server_handshake (re_prims (fst ep)) (re_secret (fst ep)) (mh_keypair h) pk
    | ExitHandler h \<Rightarrow> kp_ntor_server_handshake (re_prims (fst ep)) (re_secret (fst ep)) (xh_keypair h) pk"
proof
  fix ep :: "relay_env \<times> nat option" and m and s :: "circuit_handler \<times> exit_world" and y_pub auth k
  obtain h w where s: "s = (h, w)" by force
  let ?r = "ch_handle_message ep m s"
  note en = entry.destroy [of m "fst ep"] entry.padding [of m "fst ep"] entry.create_short [of m "fst ep"]
    entry.id_preserved [of "fst ep" m] entry.wf_preserved [of _ "fst ep" m] entry.key_preserved [of m "fst ep"]
  note mi = middle.destroy [of m "fst ep"] middle.padding [of m "fst ep"] middle.create_short [of m "fst ep"]
    middle.id_preserved [of "fst ep" m] middle.wf_preserved [of _ "fst ep" m] middle.key_preserved [of m "fst ep"]
  note ex = exit.destroy [of m ep] exit.padding [of m ep] exit.create_short [of m ep]
    exit.id_preserved [of ep m] exit.wf_preserved [of _ ep m] exit.key_preserved [of m ep]
  show "command m = Destroy \<Longrightarrow> fst ?r = Inr None \<and> ch_context (fst (snd ?r)) = cx_close (ch_context (fst s))"
    using en(1) mi(1) ex(1) by (cases h) (auto simp: s Let_def split_beta)
  show "command m = Padding \<Longrightarrow> ?r = (Inr None, s)"
    using en(2) mi(2) ex(2) by (cases h) (auto simp: s Let_def split_beta)
  show "command m = Create \<Longrightarrow> length (data m) < 32 \<Longrightarrow> ?r = (Inl (Msg ''CREATE message too short''), s)"
    using en(3) mi(3) ex(3) by (cases h) (auto simp: s Let_def split_beta)
  show "command m = Create \<Longrightarrow> 32 \<le> length (data m) \<Longrightarrow>
      (case fst s of
        EntryHandler h \<Rightarrow> kp_ntor_server_handshake (re_prims (fst ep)) (re_secret (fst ep)) (eh_keypair h) (take 32 (data m))
      | MiddleHandler h \<Rightarrow> kp_ntor_server_handshake (re_prims (fst ep)) (re_secret (fst ep)) (mh_keypair h) (take 32 (data m))
      | ExitHandler h \<Rightarrow> kp_ntor_server_handshake (re_prims (fst ep)) (re_secret (fst ep)) (xh_keypair h) (take 32 (data m)))
      = (y_pub, auth, k) \<Longrightarrow>
      fst ?r = Inr (Some (msg_created (cx_circuit_id (ch_context (fst s))) (y_pub @ auth))) \<and>
      cx_session_key (ch_context (fst (snd ?r))) = Some k"
    using entry.create [of m "fst ep" "(_, xw_rm w)" y_pub auth k] middle.create [of m "fst ep" "(_, xw_rm w)" y_pub auth k]
      exit.create [of m ep "(_, w)" y_pub auth k]
    by (cases h) (auto simp: s Let_def split_beta)
  show "cx_circuit_id (ch_context (fst (snd ?r))) = cx_circuit_id (ch_context (fst s))"
    using en(4) mi(4) ex(4) by (cases h) (auto simp: s Let_def split_beta)
  show "cx_wf (ch_context (fst s)) \<Longrightarrow> cx_wf (ch_context (fst (snd ?r)))"
    using en(5) mi(5) ex(5) by (cases h) (auto simp: s Let_def split_beta)
  show "command m \<notin> {Create, Destroy} \<Longrightarrow> cx_session_key (ch_context (fst (snd ?r))) = cx_session_key (ch_context (fst s))"
    using en(6) mi(6) ex(6) by (cases h) (auto simp: s Let_def split_beta)
qed

text \<open>
  C29. Life cycle of a circuit at a relay of any type: after a DESTROY the circuit has no key and
  is not active, and no sequence of further messages without a CREATE brings it back; its id
  and the well-formedness of its context survive every message.
\<close>

theorem relay_circuit_lifecycle:
  assumes "cx_wf (ch_context h)" "command m = Destroy" "\<forall>m' \<in> set ms. command m' \<noteq> Create"
  shows "(let st = dispatch.run (ep # eps) (m # ms) (h, w)
          in cx_session_key (ch_context (fst st)) = None \<and> cx_state (ch_context (fst st)) \<noteq> Active \<and>
            cx_circuit_id (ch_context (fst st)) = cx_circuit_id (ch_context h) \<and> cx_wf (ch_context (fst st)))"
proof -
  have "cx_wf (ch_context (fst (h, w)))" using assms(1) by simp
  note run = dispatch.run_wf [OF this, of "ep # eps" "m # ms"]
  have "cx_session_key (ch_context (fst (dispatch.run (ep # eps) (m # ms) (h, w)))) = None"
    using dispatch.destroyed_run [OF \<open>cx_wf (ch_context (fst (h, w)))\<close> assms(2,3)] .
  with run show ?thesis unfolding Let_def by (simp add: cx_wf_def del: dispatch.run.simps)
qed

theorem relay_circuit_lifecycle_witness:
  "cx_state (ch_context (fst (dispatch.run [(sample_env, None), (sample_env, None)] [msg_destroy 7, msg_data 7 1 [1]]
     (EntryHandler sample_entry, sample_world)))) \<noteq> Active"
  using relay_circuit_lifecycle [of "EntryHandler sample_entry" "msg_destroy 7" "[msg_data 7 1 [1]]" "(sample_env, None)"
    "[(sample_env, None)]" sample_world]
  by (simp add: sample_entry_def msg_defs Let_def)

section \<open>Properties of the registry\<close>

lemma cr_handle_frame:
  assumes "cr_handle_message ep m (r, w) = (rep, (r', w'))" "cid \<noteq> circuit_id m"
  shows "hm_get (cr_circuits r') cid = hm_get (cr_circuits r) cid"
  using assms by (auto simp: cr_handle_message_def Let_def split: option.splits prod.splits if_splits)

lemma cr_backward_frame:
  assumes "cr_handle_backward_message e m (r, w) = (rep, (r', w'))" "cid \<noteq> circuit_id m"
  shows "hm_get (cr_circuits r') cid = hm_get (cr_circuits r) cid"
  using assms by (auto simp: cr_handle_backward_message_def Let_def split: option.splits prod.splits)

lemma cr_handle_keys:
  assumes "cr_handle_message ep m (r, w) = (rep, (r', w'))"
  shows "hm_contains (cr_circuits r') cid = hm_contains (cr_circuits r) cid"
  using assms by (auto simp: cr_handle_message_def hm_contains_def Let_def split: option.splits prod.splits if_splits)



section \<open>The connection loop\<close>

text \<open>
  C31. The connection loop returns on every finite input: once the fuel exceeds the number of
  whole cells received, more fuel changes nothing.
\<close>

theorem handle_connection_terminates:
  assumes "length (rd_bytes rd) < CELL_SIZE * fuel"
  shows "handle_connection (fuel + k) e peer conn rd n = handle_connection fuel e peer conn rd n"
  using assms
proof (induction fuel arbitrary: rd n)
  case (Suc fuel)
  show ?case
  proof (cases "from_stream rd")
    case (Pair r rd')
    have "length (rd_bytes rd') < CELL_SIZE * fuel" if "r = Inr (Some m)" for m
      using from_stream_shrinks [of rd m rd'] Pair that Suc.prems by simp
    then show ?thesis
      using Suc.IH Pair by (auto split: sum.splits option.splits prod.splits bool.splits)
  qed
qed simp

theorem handle_connection_terminates_witness:
  "let n = rn_new Entry (kp_generate toy_prims (replicate 32 1)) 0
   in handle_connection (2 + 3) sample_env ''peer'' 0 \<lparr>rd_bytes = replicate 600 0, rd_broken = False\<rparr> n =
      handle_connection 2 sample_env ''peer'' 0 \<lparr>rd_bytes = replicate 600 0, rd_broken = False\<rparr> n"
  unfolding Let_def
  using handle_connection_terminates [of "\<lparr>rd_bytes = replicate 600 0, rd_broken = False\<rparr>" 2 3]
  by (simp add: CELL_SIZE_def del: handle_connection.simps)

section \<open>Observations\<close>

text \<open>A CREATE on any connection takes over the circuit id, whoever used it before.\<close>

lemma create_overwrites:
  assumes "conn_create e conn m n = (True, n')" "fst (ch_handle_message (e, Some conn) m (rn_new_handler n (circuit_id m), rn_world n)) = Inr (Some resp)"
  shows "\<exists>h. hm_get (cr_circuits (rn_registry n')) (circuit_id m) = Some h \<and>
    h = fst (snd (ch_handle_message (e, Some conn) m (rn_new_handler n (circuit_id m), rn_world n)))"
  using assms
  by (auto simp: conn_create_def Let_def cr_add_circuit_def rn_write_def rn_metrics_def split: prod.splits if_splits)

text \<open>An entry that is told to destroy a circuit tells nobody downstream: nothing is written.\<close>

lemma entry_destroy_silent:
  "command m = Destroy \<Longrightarrow> entry_handle_message e m (h, mt) = (Inr None, (entry_close h, mt))"
  by (simp add: entry_handle_message_def)

end
