(* ===== verification/Client_Circuit.thy ===== *)
theory Client_Circuit
  imports Tor_Metrics Onion_Keys
begin

text \<open>
  The client's end of a circuit (\<open>tor-client/src/core/circuit.rs\<close>: \<open>Circuit\<close>,
  \<open>spawn_circuit_reader\<close>; \<open>tor-client/src/core/metrics.rs\<close>): stream ids, sending through
  the onion layers, and the reader that peels, verifies and hands each message to the
  channel of its stream. A channel is shared by the circuit (sender) and the stream
  (receiver), so channels live in a store and the circuit holds their addresses.
\<close>

section \<open>Metrics\<close>

datatype client_event =
    CircuitBuilt u32 string
  | CircuitReplaced u32 u32
  | CircuitClosed u32
  | Socks5Accept socket_addr string
  | StreamBegin u32 u16 string
  | StreamConnected u32 u16
  | ClientStreamData u32 u16 nat direction
  | StreamEnd u32 u16
  | ClientError string

record client_metrics =
  cm_connections_accepted :: u64
  cm_circuits_built :: u64
  cm_circuits_replaced :: u64
  cm_bytes_sent :: u64
  cm_bytes_received :: u64
  cm_events :: "client_event event_buffer"
  cm_start_time :: nat

definition client_metrics_new :: "nat \<Rightarrow> client_metrics" where
  "client_metrics_new now = \<lparr>cm_connections_accepted = 0, cm_circuits_built = 0, cm_circuits_replaced = 0,
     cm_bytes_sent = 0, cm_bytes_received = 0, cm_events = eb_new now EVENT_BUFFER_CAPACITY, cm_start_time = now\<rparr>"

definition cm_push_event :: "nat \<Rightarrow> client_event \<Rightarrow> client_metrics \<Rightarrow> client_metrics" where
  "cm_push_event now k m = m\<lparr>cm_events := eb_push now k (cm_events m)\<rparr>"

section \<open>Circuits\<close>

datatype client_circuit_state = CBuilding | CReady | CDirty | CClosing | CClosed

text \<open>An unbounded channel: what waits in it, and whether the two ends are still there.\<close>

record channel =
  chan_queue :: "message list"
  chan_sender :: bool
  chan_receiver :: bool

record circuit =
  ci_circuit_id :: u32
  ci_state :: client_circuit_state
  ci_entry_writer :: writer
  ci_onion_keys :: onion_keys
  ci_stream_senders :: "(u16, nat) hmap"
  ci_next_stream_id :: u16
  ci_path_display :: "string option"

definition ci_active_stream_count :: "circuit \<Rightarrow> nat" where
  "ci_active_stream_count c = length (ci_stream_senders c)"

definition ci_allocate_stream_id :: "circuit \<Rightarrow> u16 \<times> circuit" where
  "ci_allocate_stream_id c =
     (let id = ci_next_stream_id c;
          c = c\<lparr>ci_next_stream_id := ci_next_stream_id c + 1\<rparr>;
          c = (if ci_next_stream_id c = 0 then c\<lparr>ci_next_stream_id := 1\<rparr> else c)
      in (id, c))"

text \<open>Dropping a sender that a map held: the receiver sees the end once the queue is empty.\<close>

definition chan_drop_sender :: "nat \<Rightarrow> channel list \<Rightarrow> channel list" where
  "chan_drop_sender a chs = chs[a := (chs ! a)\<lparr>chan_sender := False\<rparr>]"

definition ci_register_stream :: "u16 \<Rightarrow> nat \<Rightarrow> circuit \<times> channel list \<Rightarrow> circuit \<times> channel list" where
  "ci_register_stream sid a st =
     (let (c, chs) = st
      in (c\<lparr>ci_stream_senders := hm_insert sid a (ci_stream_senders c)\<rparr>,
          case hm_get (ci_stream_senders c) sid of None \<Rightarrow> chs | Some old \<Rightarrow> chan_drop_sender old chs))"

definition ci_unregister_stream :: "u16 \<Rightarrow> circuit \<times> channel list \<Rightarrow> circuit \<times> channel list" where
  "ci_unregister_stream sid st =
     (let (c, chs) = st
      in (c\<lparr>ci_stream_senders := hm_remove sid (ci_stream_senders c)\<rparr>,
          case hm_get (ci_stream_senders c) sid of None \<Rightarrow> chs | Some old \<Rightarrow> chan_drop_sender old chs))"

text \<open>\<open>stream_senders.clear()\<close>.\<close>

definition ci_clear_streams :: "circuit \<times> channel list \<Rightarrow> circuit \<times> channel list" where
  "ci_clear_streams st =
     (let (c, chs) = st
      in (c\<lparr>ci_stream_senders := []\<rparr>, fold chan_drop_sender (hm_values (ci_stream_senders c)) chs))"

definition ci_send_message ::
  "prims \<Rightarrow> u16 \<Rightarrow> message_command \<Rightarrow> bytes \<Rightarrow> circuit \<Rightarrow> (any_error + unit) \<times> circuit"
where
  "ci_send_message P sid cmd d c =
     (let (tag, fd) = rd_update P (ok_forward_digest (ci_onion_keys c)) sid (to_u8 cmd) d;
          (encrypted, k) = onion_encrypt P ((ci_onion_keys c)\<lparr>ok_forward_digest := fd\<rparr>) d;
          msg = (msg_new (ci_circuit_id c) sid cmd encrypted)\<lparr>digest := tag\<rparr>;
          (r, w) = write_to_stream msg (ci_entry_writer c);
          c = c\<lparr>ci_onion_keys := k, ci_entry_writer := w\<rparr>
      in (case r of Inl e \<Rightarrow> (Inl (Msg ''Failed to write to entry node''), c) | Inr _ \<Rightarrow> (Inr (), c)))"

definition ci_send_raw :: "message \<Rightarrow> circuit \<Rightarrow> (any_error + unit) \<times> circuit" where
  "ci_send_raw m c =
     (let (r, w) = write_to_stream m (ci_entry_writer c); c = c\<lparr>ci_entry_writer := w\<rparr>
      in (case r of Inl e \<Rightarrow> (Inl (Msg ''Failed to write to entry node''), c) | Inr _ \<Rightarrow> (Inr (), c)))"

section \<open>The circuit reader\<close>

record client_end =
  ce_circuit :: circuit
  ce_channels :: "channel list"
  ce_metrics :: client_metrics

text \<open>\<open>sender.send\<close>: lost when the receiver is gone.\<close>

definition chan_send :: "nat \<Rightarrow> message \<Rightarrow> channel list \<Rightarrow> channel list" where
  "chan_send a m chs =
     (if chan_receiver (chs ! a) then chs[a := (chs ! a)\<lparr>chan_queue := chan_queue (chs ! a) @ [m]\<rparr>] else chs)"

text \<open>What follows the loop: the circuit is closed and every stream loses its sender.\<close>

definition reader_exit :: "client_end \<Rightarrow> client_end" where
  "reader_exit ce =
     (let (c, chs) = ci_clear_streams ((ce_circuit ce)\<lparr>ci_state := CClosed\<rparr>, ce_channels ce)
      in ce\<lparr>ce_circuit := c, ce_channels := chs\<rparr>)"

definition reader_closed :: "nat \<Rightarrow> client_end \<Rightarrow> client_end" where
  "reader_closed now ce =
     ce\<lparr>ce_circuit := (ce_circuit ce)\<lparr>ci_state := CClosed\<rparr>,
        ce_metrics := cm_push_event now (CircuitClosed (ci_circuit_id (ce_circuit ce))) (ce_metrics ce)\<rparr>"

text \<open>One message: whether the loop goes on.\<close>

definition reader_message :: "prims \<Rightarrow> nat \<Rightarrow> message \<Rightarrow> client_end \<Rightarrow> bool \<times> client_end" where
  "reader_message P now m ce =
     (let c = ce_circuit ce; cid = ci_circuit_id c in
      if command m = Destroy
      then (False, (let ce = reader_closed now ce; (c, chs) = ci_clear_streams (ce_circuit ce, ce_channels ce)
                    in ce\<lparr>ce_circuit := c, ce_channels := chs\<rparr>))
      else
        let (decrypted, k) = onion_decrypt P (ci_onion_keys c) (data m);
            (ok, bd) = rd_verify P (ok_backward_digest k) (stream_id m) (to_u8 (command m)) decrypted (digest m);
            c = c\<lparr>ci_onion_keys := k\<lparr>ok_backward_digest := bd\<rparr>\<rparr>;
            ce = ce\<lparr>ce_circuit := c\<rparr>
        in if \<not> ok then (False, reader_closed now ce)
           else
             let len = length decrypted;
                 ce = (if command m = Data
                       then ce\<lparr>ce_metrics := cm_push_event now (ClientStreamData cid (stream_id m) len Backward)
                              ((ce_metrics ce)\<lparr>cm_bytes_received := cm_bytes_received (ce_metrics ce) + word_of_nat len\<rparr>)\<rparr>
                       else ce);
                 dm = msg_new (circuit_id m) (stream_id m) (command m) decrypted
             in (True, case hm_get (ci_stream_senders c) (stream_id m) of
                   Some a \<Rightarrow> ce\<lparr>ce_channels := chan_send a dm (ce_channels ce)\<rparr>
                 | None \<Rightarrow> ce))"

text \<open>The loop; \<open>fuel\<close> bounds the cells read.\<close>

fun circuit_reader :: "nat \<Rightarrow> prims \<Rightarrow> nat \<Rightarrow> reader \<Rightarrow> client_end \<Rightarrow> client_end" where
  "circuit_reader 0 P now rd ce = ce"
| "circuit_reader (Suc fuel) P now rd ce =
     (case from_stream rd of
        (Inr (Some m), rd) \<Rightarrow>
          (case reader_message P now m ce of
             (True, ce) \<Rightarrow> circuit_reader fuel P now rd ce
           | (False, ce) \<Rightarrow> reader_exit ce)
      | (Inr None, rd) \<Rightarrow> reader_exit (reader_closed now ce)
      | (Inl e, rd) \<Rightarrow> reader_exit (reader_closed now ce))"

section \<open>Stream ids\<close>

text \<open>The ids handed out by the next \<open>n\<close> allocations.\<close>

fun allocate_ids :: "nat \<Rightarrow> circuit \<Rightarrow> u16 list \<times> circuit" where
  "allocate_ids 0 c = ([], c)"
| "allocate_ids (Suc n) c =
     (let (i, c) = ci_allocate_stream_id c; (is, c) = allocate_ids n c in (i # is, c))"

lemma allocate_next_nonzero:
  "ci_next_stream_id c \<noteq> 0 \<Longrightarrow> ci_next_stream_id (snd (ci_allocate_stream_id c)) \<noteq> 0 \<and>
   fst (ci_allocate_stream_id c) = ci_next_stream_id c"
  by (simp add: ci_allocate_stream_id_def Let_def)

lemma mod_shift_inject:
  assumes "((b :: nat) + i) mod n = (b + j) mod n" "i < n" "j < n"
  shows "i = j"
proof -
  have "i = j" if "(b + i) mod n = (b + j) mod n" "j \<le> i" "i < n" for i j
  proof (rule ccontr)
    assume "i \<noteq> j"
    with that(2) have "0 < i - j" by simp
    moreover have "n dvd i - j" using that mod_eq_dvd_iff_nat [of "b + j" "b + i" n] by simp
    ultimately have "n \<le> i - j" by (rule dvd_imp_le [rotated])
    with that(3) show False by simp
  qed
  from this [of i j] this [of j i] assms show ?thesis by (cases "j \<le> i") simp_all
qed

text \<open>The ids in allocation order are consecutive on the cycle 1, ..., 65535.\<close>

lemma allocate_ids_value:
  "ci_next_stream_id c \<noteq> 0 \<Longrightarrow> i < n \<Longrightarrow>
   unat (fst (allocate_ids n c) ! i) = (unat (ci_next_stream_id c) - 1 + i) mod 65535 + 1"
proof (induction n arbitrary: c i)
  case (Suc n)
  let ?u = "unat (ci_next_stream_id c)"
  have u: "0 < ?u" "?u < 65536" using Suc.prems(1) unat_bounds(2) [of "ci_next_stream_id c"]
    by (simp_all add: unat_gt_0)
  show ?case
  proof (cases i)
    case 0
    then show ?thesis using u by (simp add: Let_def split_beta ci_allocate_stream_id_def)
  next
    case (Suc j)
    define c1 where "c1 = snd (ci_allocate_stream_id c)"
    have nz: "ci_next_stream_id c1 \<noteq> 0" using allocate_next_nonzero Suc.prems(1) c1_def by blast
    have u1: "unat (ci_next_stream_id c1) - 1 = ?u mod 65535"
    proof (cases "ci_next_stream_id c + 1 = 0")
      case True
      then have "unat (ci_next_stream_id c + 1) = 0" by simp
      then have "(?u + 1) mod 65536 = 0" by (simp add: unat_word_ariths)
      with u have "?u = 65535" by (cases "?u + 1 < 65536") simp_all
      with True show ?thesis by (simp add: c1_def ci_allocate_stream_id_def Let_def)
    next
      case False
      then have "unat (ci_next_stream_id c + 1) = ?u + 1" using unatSuc [of "ci_next_stream_id c"] by (simp add: add.commute)
      moreover have "?u \<noteq> 65535"
      proof
        assume "?u = 65535"
        then have "unat (ci_next_stream_id c + 1) = 0" by (simp add: unat_word_ariths)
        with False show False by (simp add: unat_eq_0)
      qed
      ultimately show ?thesis using u False by (simp add: c1_def ci_allocate_stream_id_def Let_def)
    qed
    have "fst (allocate_ids (Suc n) c) ! i = fst (allocate_ids n c1) ! j"
      by (simp add: Suc c1_def Let_def split_beta)
    moreover have "(?u mod 65535 + j) mod 65535 = (?u - 1 + i) mod 65535"
      using u by (simp add: mod_add_left_eq Suc)
    ultimately show ?thesis using Suc.IH [OF nz, of j] Suc.prems(2) Suc u1 by simp
  qed
qed simp


definition sample_circuit :: circuit where
  "sample_circuit = \<lparr>ci_circuit_id = 1, ci_state = CReady, ci_entry_writer = \<lparr>wr_bytes = [], wr_room = None, wr_rnd = (\<lambda>_. 0)\<rparr>,
     ci_onion_keys = onion_keys_new [] [], ci_stream_senders = [], ci_next_stream_id = 65534, ci_path_display = None\<rparr>"


section \<open>What the reader does\<close>

lemma ci_clear_streams_simps [simp]:
  "fst (ci_clear_streams (c, chs)) = c\<lparr>ci_stream_senders := []\<rparr>"
  "snd (ci_clear_streams (c, chs)) = fold chan_drop_sender (hm_values (ci_stream_senders c)) chs"
  by (simp_all add: ci_clear_streams_def)

lemma length_drop_sender [simp]: "length (chan_drop_sender a chs) = length chs"
  by (simp add: chan_drop_sender_def)

lemma drop_sender_nth:
  "a < length chs \<Longrightarrow> chan_drop_sender b chs ! a = (if a = b then (chs ! a)\<lparr>chan_sender := False\<rparr> else chs ! a)"
  by (simp add: chan_drop_sender_def)

lemma drop_senders_nth:
  "a < length chs \<Longrightarrow> fold chan_drop_sender bs chs ! a =
     (if a \<in> set bs then (chs ! a)\<lparr>chan_sender := False\<rparr> else chs ! a)"
  by (induction bs arbitrary: chs) (auto simp: drop_sender_nth)

lemma hm_values_Nil [simp]: "hm_values [] = []"
  by (simp add: hm_values_def)

lemma reader_exit_simps [simp]:
  "ce_circuit (reader_exit ce) = (ce_circuit ce)\<lparr>ci_state := CClosed, ci_stream_senders := []\<rparr>"
  "ce_channels (reader_exit ce) = fold chan_drop_sender (hm_values (ci_stream_senders (ce_circuit ce))) (ce_channels ce)"
  by (simp_all add: reader_exit_def Let_def split_beta)

lemma reader_closed_simps [simp]:
  "ce_circuit (reader_closed now ce) = (ce_circuit ce)\<lparr>ci_state := CClosed\<rparr>"
  "ce_channels (reader_closed now ce) = ce_channels ce"
  by (simp_all add: reader_closed_def)

text \<open>The verdict of the digest check on a message, and the keys after it.\<close>

definition backward_check :: "prims \<Rightarrow> message \<Rightarrow> onion_keys \<Rightarrow> (bool \<times> bytes) \<times> onion_keys" where
  "backward_check P m k =
     (let (d, k) = onion_decrypt P k (data m);
          (ok, bd) = rd_verify P (ok_backward_digest k) (stream_id m) (to_u8 (command m)) d (digest m)
      in ((ok, d), k\<lparr>ok_backward_digest := bd\<rparr>))"

lemma reader_message_bad:
  assumes "command m \<noteq> Destroy" "backward_check P m (ci_onion_keys (ce_circuit ce)) = ((False, d), k)"
  shows "\<exists>ce'. reader_message P now m ce = (False, ce') \<and> ce_channels ce' = ce_channels ce \<and>
    ce_circuit ce' = (ce_circuit ce)\<lparr>ci_onion_keys := k, ci_state := CClosed\<rparr> \<and>
    cm_bytes_received (ce_metrics ce') = cm_bytes_received (ce_metrics ce)"
  using assms
  by (auto simp: reader_message_def backward_check_def Let_def reader_closed_def cm_push_event_def split: prod.splits)

lemma reader_message_good:
  assumes "command m \<noteq> Destroy" "backward_check P m (ci_onion_keys (ce_circuit ce)) = ((True, d), k)"
  shows "\<exists>ce'. reader_message P now m ce = (True, ce') \<and>
    ce_circuit ce' = (ce_circuit ce)\<lparr>ci_onion_keys := k\<rparr> \<and>
    ce_channels ce' = (case hm_get (ci_stream_senders (ce_circuit ce)) (stream_id m) of None \<Rightarrow> ce_channels ce
      | Some a \<Rightarrow> chan_send a (msg_new (circuit_id m) (stream_id m) (command m) d) (ce_channels ce)) \<and>
    cm_bytes_received (ce_metrics ce') = cm_bytes_received (ce_metrics ce) +
      (if command m = Data then word_of_nat (length d) else 0)"
  using assms
  by (auto simp: reader_message_def backward_check_def Let_def cm_push_event_def split: prod.splits option.splits)

lemma reader_message_frame:
  "reader_message P now m ce = (True, ce') \<Longrightarrow>
     ci_stream_senders (ce_circuit ce') = ci_stream_senders (ce_circuit ce) \<and>
     length (ce_channels ce') = length (ce_channels ce) \<and> ci_circuit_id (ce_circuit ce') = ci_circuit_id (ce_circuit ce)"
  by (auto simp: reader_message_def Let_def chan_send_def split: prod.splits option.splits if_splits)

text \<open>Leaving the loop, the streams that were registered have lost their senders.\<close>

lemma reader_message_leaves:
  assumes "reader_message P now m ce = (False, ce')" "a \<in> set (hm_values (ci_stream_senders (ce_circuit ce)))"
    and "a < length (ce_channels ce)"
  shows "\<not> chan_sender (ce_channels (reader_exit ce') ! a)"
  using assms
  by (auto simp: reader_message_def Let_def drop_senders_nth split_beta split: prod.splits option.splits if_splits)

text \<open>
  Delivery at the client: a cell whose digest verifies under the circuit's keys goes, as
  plaintext under its own command, to the end of the channel of exactly its own stream;
  the loop goes on and no other channel, stream or state of the circuit changes but the
  keys, and only DATA counts as received bytes.
\<close>

theorem reader_delivers_to_stream:
  assumes "command m \<noteq> Destroy" "backward_check P m (ci_onion_keys (ce_circuit ce)) = ((True, d), k)"
    and "hm_get (ci_stream_senders (ce_circuit ce)) (stream_id m) = Some a"
    and "a < length (ce_channels ce)" "chan_receiver (ce_channels ce ! a)"
  shows "\<exists>ce'. reader_message P now m ce = (True, ce') \<and>
    chan_queue (ce_channels ce' ! a) = chan_queue (ce_channels ce ! a) @
      [\<lparr>circuit_id = circuit_id m, stream_id = stream_id m, command = command m, data = d, digest = [0, 0, 0, 0]\<rparr>] \<and>
    (\<forall>b. b \<noteq> a \<longrightarrow> ce_channels ce' ! b = ce_channels ce ! b) \<and>
    ce_circuit ce' = (ce_circuit ce)\<lparr>ci_onion_keys := k\<rparr> \<and>
    cm_bytes_received (ce_metrics ce') = cm_bytes_received (ce_metrics ce) +
      (if command m = Data then word_of_nat (length d) else 0)"
  using reader_message_good [OF assms(1,2), of now] assms(3-5)
  by (auto simp: chan_send_def msg_new_def DIGEST_SIZE_def eval_nat_numeral)

text \<open>
  C12. Tampering at the client: when the next cell of a circuit (other than DESTROY, which is
  acted on unverified) fails the backward digest, the reader delivers nothing, closes the
  circuit, removes all its streams, and every stream sees its channel end.
\<close>

theorem reader_rejects_tampering:
  assumes "from_stream rd = (Inr (Some m), rd')" "command m \<noteq> Destroy"
    and "\<not> fst (fst (backward_check P m (ci_onion_keys (ce_circuit ce))))"
  shows "let ce' = circuit_reader (Suc fuel) P now rd ce in
    ci_state (ce_circuit ce') = CClosed \<and> ci_stream_senders (ce_circuit ce') = [] \<and>
    cm_bytes_received (ce_metrics ce') = cm_bytes_received (ce_metrics ce) \<and>
    (\<forall>a < length (ce_channels ce). chan_queue (ce_channels ce' ! a) = chan_queue (ce_channels ce ! a) \<and>
      (a \<in> set (hm_values (ci_stream_senders (ce_circuit ce))) \<longrightarrow> \<not> chan_sender (ce_channels ce' ! a)))"
proof -
  obtain d k where "backward_check P m (ci_onion_keys (ce_circuit ce)) = ((False, d), k)"
    using assms(3) by (cases "backward_check P m (ci_onion_keys (ce_circuit ce))") auto
  then obtain ce' where ce': "reader_message P now m ce = (False, ce')" "ce_channels ce' = ce_channels ce"
    "ce_circuit ce' = (ce_circuit ce)\<lparr>ci_onion_keys := k, ci_state := CClosed\<rparr>"
    "cm_bytes_received (ce_metrics ce') = cm_bytes_received (ce_metrics ce)"
    using reader_message_bad [OF assms(2)] by blast
  have "circuit_reader (Suc fuel) P now rd ce = reader_exit ce'" using assms(1) ce'(1) by simp
  with ce' show ?thesis by (auto simp: Let_def drop_senders_nth reader_exit_def split_beta)
qed

definition sample_end :: client_end where
  "sample_end = \<lparr>ce_circuit = sample_circuit\<lparr>ci_onion_keys := onion_keys_new [sk_zero] [cipher_pair_new sk_zero],
       ci_stream_senders := [(1, 0)]\<rparr>,
     ce_channels = [\<lparr>chan_queue = [], chan_sender = True, chan_receiver = True\<rparr>],
     ce_metrics = client_metrics_new 0\<rparr>"

text \<open>A DATA cell of stream 1 with the bytes 5 and 6, as the only hop of the sample circuit seals it.\<close>

definition sample_backward_cell :: message where
  "sample_backward_cell = (msg_data 1 1 (fst (apply_backward toy_prims (cipher_pair_new sk_zero) [5, 6])))
     \<lparr>digest := fst (rd_update toy_prims running_digest_new 1 (to_u8 Data) [5, 6])\<rparr>"

lemma sample_backward_check:
  "fst (backward_check toy_prims sample_backward_cell (ci_onion_keys (ce_circuit sample_end))) = (True, [5, 6])"
  by code_simp

lemma sample_tampered_check:
  "\<not> fst (fst (backward_check toy_prims (msg_data 1 1 [5, 6]) (ci_onion_keys (ce_circuit sample_end))))"
  by code_simp

theorem reader_delivers_to_stream_witness:
  "\<exists>ce. reader_message toy_prims 0 sample_backward_cell sample_end = (True, ce) \<and>
     map data (chan_queue (ce_channels ce ! 0)) = [[5, 6]]"
proof -
  obtain k where k: "backward_check toy_prims sample_backward_cell (ci_onion_keys (ce_circuit sample_end)) = ((True, [5, 6]), k)"
    using sample_backward_check by (metis prod.collapse)
  show ?thesis
    using reader_delivers_to_stream [OF _ k, of 0 0]
    by (auto simp: sample_backward_cell_def msg_defs sample_end_def hm_get_def)
qed

theorem reader_rejects_tampering_witness:
  "ci_state (ce_circuit (circuit_reader 1 toy_prims 0
     \<lparr>rd_bytes = to_bytes (\<lambda>i. 0) (msg_data 1 1 [5, 6]) @ [], rd_broken = False\<rparr> sample_end)) = CClosed"
proof -
  let ?rd = "\<lparr>rd_bytes = to_bytes (\<lambda>i. 0) (msg_data 1 1 [5, 6]) @ [], rd_broken = False\<rparr>"
  have "msg_fits (msg_data 1 1 [5, 6])" by (simp add: msg_fits_def msg_wf_def msg_defs MAX_PAYLOAD_SIZE_eq)
  then have fs: "from_stream ?rd = (Inr (Some (msg_data 1 1 [5, 6])), \<lparr>rd_bytes = [], rd_broken = False\<rparr>)"
    by (rule from_stream_cell)
  have "command (msg_data 1 1 [5, 6]) \<noteq> Destroy" by (simp add: msg_defs)
  from reader_rejects_tampering [OF fs this sample_tampered_check] show ?thesis
    by (auto simp: Let_def simp del: circuit_reader.simps)
qed

section \<open>The reader ends\<close>

text \<open>
  C32. The circuit reader returns on every finite input: with more fuel than whole cells
  received the loop is left, more fuel changes nothing, and on return the circuit is closed,
  has no streams, and every stream registered with it sees the end of its channel.
\<close>

theorem circuit_reader_ends:
  assumes "length (rd_bytes rd) < CELL_SIZE * fuel"
    and "\<forall>a \<in> set (hm_values (ci_stream_senders (ce_circuit ce))). a < length (ce_channels ce)"
  shows "circuit_reader (fuel + k) P now rd ce = circuit_reader fuel P now rd ce \<and>
    ci_state (ce_circuit (circuit_reader fuel P now rd ce)) = CClosed \<and>
    ci_stream_senders (ce_circuit (circuit_reader fuel P now rd ce)) = [] \<and>
    (\<forall>a \<in> set (hm_values (ci_stream_senders (ce_circuit ce))).
       \<not> chan_sender (ce_channels (circuit_reader fuel P now rd ce) ! a))"
  using assms
proof (induction fuel arbitrary: rd ce)
  case (Suc fuel)
  obtain r rd' where fs: "from_stream rd = (r, rd')" by force
  show ?case
  proof (cases "\<exists>m. r = Inr (Some m)")
    case True
    then obtain m where r: "r = Inr (Some m)" by blast
    obtain b ce' where rm: "reader_message P now m ce = (b, ce')" by force
    show ?thesis
    proof (cases b)
      case True
      have "length (rd_bytes rd') < CELL_SIZE * fuel"
        using from_stream_shrinks [of rd m rd'] fs r Suc.prems(1) by simp
      with Suc.IH [of rd' ce'] reader_message_frame [of P now m ce ce'] rm True fs r Suc.prems(2)
      show ?thesis by simp
    next
      case False
      with rm fs r reader_message_leaves [of P now m ce ce'] Suc.prems(2) show ?thesis by simp
    qed
  next
    case False
    then have "circuit_reader (Suc f) P now rd ce = reader_exit (reader_closed now ce)" for f
      using fs by (auto split: sum.splits option.splits)
    from this [of fuel] this [of "fuel + k"] Suc.prems(2) show ?thesis
      by (simp add: drop_senders_nth del: circuit_reader.simps)
  qed
qed simp

theorem circuit_reader_ends_witness:
  "ci_state (ce_circuit (circuit_reader 2 toy_prims 0 \<lparr>rd_bytes = replicate 600 0, rd_broken = False\<rparr> sample_end)) = CClosed"
  using circuit_reader_ends [of "\<lparr>rd_bytes = replicate 600 0, rd_broken = False\<rparr>" 2 sample_end 0 toy_prims 0]
  by (simp add: CELL_SIZE_def sample_end_def hm_values_def del: circuit_reader.simps)

text \<open>
  A payload that is too long is refused, but only after the digest and the ciphers have
  advanced, and nothing is written.
\<close>

lemma send_too_large_desyncs:
  assumes "MAX_PAYLOAD_SIZE < length d"
  shows "ci_send_message P sid cmd d c =
    (Inl (Msg ''Failed to write to entry node''),
     c\<lparr>ci_onion_keys := snd (onion_encrypt P ((ci_onion_keys c)\<lparr>ok_forward_digest :=
         snd (rd_update P (ok_forward_digest (ci_onion_keys c)) sid (to_u8 cmd) d)\<rparr>) d)\<rparr>)"
proof -
  obtain t fd where u: "rd_update P (ok_forward_digest (ci_onion_keys c)) sid (to_u8 cmd) d = (t, fd)" by force
  obtain x k where e: "onion_encrypt P ((ci_onion_keys c)\<lparr>ok_forward_digest := fd\<rparr>) d = (x, k)" by force
  from e have "length x = length d" using onion_forward [OF e] by simp
  with assms show ?thesis
    by (simp add: ci_send_message_def Let_def u e write_to_stream_def msg_new_def)
qed

end
