(* ===== verification/Client_Builder.thy ===== *)
theory Client_Builder
  imports Client_Circuit Relay_Context
begin

text \<open>
  Building a circuit (\<open>CircuitBuilder\<close> in \<open>tor-client/src/core/circuit.rs\<close>,
  \<open>tor-client/src/core/transport.rs\<close>): the CREATE handshake with the entry, then one EXTEND
  per further hop through the layers of the hops so far. The stream to the entry is what the
  client has written, the peer that answers it, and how many bytes of the answer have been
  read; an answer that takes longer than the timeout is \<open>None\<close>. The ephemeral secret of
  hop \<open>i\<close> is \<open>sec i\<close>.
\<close>

section \<open>The stream to the entry\<close>

record entry_conn =
  cn_write :: writer
  cn_peer :: peer
  cn_read :: nat

definition conn_remaining :: "entry_conn \<Rightarrow> reader option" where
  "conn_remaining s = map_option (\<lambda>rd. rd\<lparr>rd_bytes := drop (cn_read s) (rd_bytes rd)\<rparr>)
     (peer_reply (cn_peer s) (wr_bytes (cn_write s)))"

text \<open>\<open>timeout(HANDSHAKE_TIMEOUT, Message::from_stream(stream))\<close>.\<close>

definition conn_recv :: "entry_conn \<Rightarrow> (any_error + message option) option \<times> entry_conn" where
  "conn_recv s =
     (case conn_remaining s of None \<Rightarrow> (None, s)
      | Some rd \<Rightarrow> (Some (fst (from_stream rd)), s\<lparr>cn_read := cn_read s + CELL_SIZE\<rparr>))"

definition conn_send :: "message \<Rightarrow> entry_conn \<Rightarrow> (tor_error + unit) \<times> entry_conn" where
  "conn_send m s = (let (r, w) = write_to_stream m (cn_write s) in (r, s\<lparr>cn_write := w\<rparr>))"

text \<open>\<open>TcpTlsTransport::connect\<close>.\<close>

definition transport_connect :: "prims \<Rightarrow> network \<Rightarrow> socket_addr \<Rightarrow> string \<Rightarrow> any_error + entry_conn" where
  "transport_connect P net addr fingerprint =
     (case net addr of None \<Rightarrow> Inl IoErr
      | Some p \<Rightarrow> if tls_connect P fingerprint p
          then Inr \<lparr>cn_write = peer_write p, cn_peer = p, cn_read = 0\<rparr> else Inl IoErr)"

section \<open>Handshakes\<close>

definition handshake_create ::
  "prims \<Rightarrow> u32 \<Rightarrow> bytes \<Rightarrow> node_descriptor \<Rightarrow> entry_conn \<Rightarrow> (any_error + session_key) \<times> entry_conn"
where
  "handshake_create P cid secret entry s =
     (let eph = kp_generate P secret; our_public = pk_bytes (kp_public eph) in
      case conn_send (msg_create cid our_public) s of
        (Inl er, s) \<Rightarrow> (Inl (Msg ''Failed to send CREATE''), s)
      | (Inr _, s) \<Rightarrow> case conn_recv s of
          (None, s) \<Rightarrow> (Inl (Msg ''Timed out waiting for CREATED from entry node''), s)
        | (Some (Inl er), s) \<Rightarrow> (Inl (Msg ''Failed to read CREATED''), s)
        | (Some (Inr None), s) \<Rightarrow> (Inl (Msg ''Entry node closed connection during CREATE''), s)
        | (Some (Inr (Some cm)), s) \<Rightarrow>
            if command cm \<noteq> Created
            then (Inl (Msg (''Expected CREATED from entry, got '' @ show_command (command cm))), s)
            else if length (data cm) < 64
            then (Inl (Msg (''CREATED response too short: '' @ show_nat (length (data cm)) @ '' bytes (need 64)'')), s)
            else case get_range (data cm) 0 32 of None \<Rightarrow> (Inl (Msg ''Invalid CREATED data''), s)
            | Some server_eph_pub \<Rightarrow> case get_range (data cm) 32 64 of None \<Rightarrow> (Inl (Msg ''Invalid CREATED auth''), s)
            | Some auth \<Rightarrow>
                (case ntor_client_finish_raw P (kp_secret eph) our_public (pk_bytes (public_key entry))
                        server_eph_pub auth of
                   Inl er \<Rightarrow> (Inl (Msg (''ntor handshake failed with entry: '' @ show_tor_error '''' er)), s)
                 | Inr k \<Rightarrow> (Inr k, s)))"

definition extend_payload :: "node_descriptor \<Rightarrow> bytes \<Rightarrow> bytes" where
  "extend_payload node our_public =
     str_bytes (show_socket_addr (address node)) @ [0] @ our_public @ [0] @ str_bytes (tls_cert_fingerprint node)"

text \<open>The answer of the new hop once the layers of the earlier hops are off.\<close>

definition finish_extended ::
  "prims \<Rightarrow> key_pair \<Rightarrow> node_descriptor \<Rightarrow> bytes \<Rightarrow> any_error + session_key"
where
  "finish_extended P eph node decrypted =
     (if length decrypted < 64
      then Inl (Msg (''EXTENDED response too short: '' @ show_nat (length decrypted) @ '' bytes (need 64)''))
      else case get_range decrypted 0 32 of None \<Rightarrow> Inl (Msg ''Invalid EXTENDED data'')
      | Some server_eph_pub \<Rightarrow> case get_range decrypted 32 64 of None \<Rightarrow> Inl (Msg ''Invalid EXTENDED auth'')
      | Some auth \<Rightarrow>
          (case ntor_client_finish_raw P (kp_secret eph) (pk_bytes (kp_public eph)) (pk_bytes (public_key node))
                  server_eph_pub auth of
             Inl er \<Rightarrow> Inl (Msg (''ntor handshake failed with '' @ show_socket_addr (address node) @ '': '' @
                 show_tor_error '''' er))
           | Inr k \<Rightarrow> Inr k))"

definition handshake_extend ::
  "prims \<Rightarrow> u32 \<Rightarrow> bytes \<Rightarrow> node_descriptor \<Rightarrow> cipher_pair list \<Rightarrow> entry_conn
   \<Rightarrow> (any_error + session_key) \<times> cipher_pair list \<times> entry_conn"
where
  "handshake_extend P cid secret node cs s =
     (let eph = kp_generate P secret; addr = show_socket_addr (address node);
          (wrapped, rcs) = apply_each (apply_forward P) (rev cs) (extend_payload node (pk_bytes (kp_public eph)));
          cs = rev rcs
      in case conn_send (msg_extend cid wrapped) s of
        (Inl er, s) \<Rightarrow> (Inl (Msg (''Failed to send EXTEND to '' @ addr)), cs, s)
      | (Inr _, s) \<Rightarrow> case conn_recv s of
          (None, s) \<Rightarrow> (Inl (Msg (''Timed out waiting for EXTENDED from '' @ addr)), cs, s)
        | (Some (Inl er), s) \<Rightarrow> (Inl (Msg (''Failed to read EXTENDED from '' @ addr)), cs, s)
        | (Some (Inr None), s) \<Rightarrow> (Inl (Msg (''Connection closed during EXTEND to '' @ addr)), cs, s)
        | (Some (Inr (Some em)), s) \<Rightarrow>
            if command em \<noteq> Extended
            then (Inl (Msg (''Expected EXTENDED from '' @ addr @ '', got '' @ show_command (command em))), cs, s)
            else let (decrypted, cs) = apply_each (apply_backward P) cs (data em)
                 in (finish_extended P eph node decrypted, cs, s))"

section \<open>The builder\<close>

text \<open>The EXTEND loop over the hops behind the entry; \<open>i\<close> is the hop index.\<close>

fun extend_loop ::
  "prims \<Rightarrow> u32 \<Rightarrow> (nat \<Rightarrow> bytes) \<Rightarrow> nat \<Rightarrow> node_descriptor list \<Rightarrow> session_key list \<Rightarrow> cipher_pair list
   \<Rightarrow> entry_conn \<Rightarrow> (any_error + session_key list \<times> cipher_pair list) \<times> entry_conn"
where
  "extend_loop P cid sec i [] ks cs s = (Inr (ks, cs), s)"
| "extend_loop P cid sec i (node # nodes) ks cs s =
     (case handshake_extend P cid (sec i) node cs s of
        (Inl er, cs, s) \<Rightarrow> (Inl er, s)
      | (Inr k, cs, s) \<Rightarrow> extend_loop P cid sec (Suc i) nodes (ks @ [k]) (cs @ [cipher_pair_new k]) s)"

definition path_display :: "node_descriptor list \<Rightarrow> string" where
  "path_display path = join_with ('' '' @ arrow_right @ '' '') (map (\<lambda>n. '':'' @ show_u16 (sa_port (address n))) path)"

definition build_circuit_on ::
  "prims \<Rightarrow> network \<Rightarrow> (nat \<Rightarrow> bytes) \<Rightarrow> u32 \<Rightarrow> node_descriptor list \<Rightarrow> any_error + circuit \<times> reader"
where
  "build_circuit_on P net sec cid path =
     (if length path < 3
      then Inl (Msg (''Circuit path must have at least 3 nodes, got '' @ show_nat (length path)))
      else case path of [] \<Rightarrow> Inl (Msg ''Missing entry node'')
      | entry # rest \<Rightarrow>
        case transport_connect P net (address entry) (tls_cert_fingerprint entry) of
          Inl er \<Rightarrow> Inl (Msg (''Failed to connect to entry node at '' @ show_socket_addr (address entry)))
        | Inr s \<Rightarrow> case handshake_create P cid (sec 0) entry s of
            (Inl er, s) \<Rightarrow> Inl er
          | (Inr entry_key, s) \<Rightarrow>
              case extend_loop P cid sec 1 rest [entry_key] [cipher_pair_new entry_key] s of
                (Inl er, s) \<Rightarrow> Inl er
              | (Inr (ks, cs), s) \<Rightarrow>
                  Inr (\<lparr>ci_circuit_id = cid, ci_state = CReady, ci_entry_writer = cn_write s,
                         ci_onion_keys = onion_keys_new ks cs, ci_stream_senders = [], ci_next_stream_id = 1,
                         ci_path_display = Some (path_display path)\<rparr>,
                       case conn_remaining s of None \<Rightarrow> \<lparr>rd_bytes = [], rd_broken = False\<rparr> | Some rd \<Rightarrow> rd))"

end
