(* ===== verification/Client_Handshake.thy ===== *)
theory Client_Handshake
  imports Client_Builder Relay_Node
begin

text \<open>
  The two sides of the builder's handshakes: the EXTEND payload says to the relay what the
  client meant, a connection and a peer that answer, and a relay that holds the keys of its
  descriptor. The relays are the handlers of the development; what is assumed of the
  primitives is \<open>prims_wf\<close> and \<open>dh_agrees\<close>.
\<close>

section \<open>The EXTEND payload\<close>

text \<open>Characters that are one UTF-8 byte, not the separator.\<close>

definition plain_char :: "char \<Rightarrow> bool" where
  "plain_char c = (0 < (of_char c :: nat) \<and> (of_char c :: nat) < 0x80)"

lemma plain_digit_char: "d < 36 \<Longrightarrow> plain_char (digit_char d)"
  by (simp add: plain_char_def digit_char_def)

lemma plain_show_nat: "\<forall>c \<in> set (show_nat n). plain_char c"
  using show_nat_digits [of _ n] plain_digit_char by fastforce

lemma plain_join_with:
  "\<forall>c \<in> set sep. plain_char c \<Longrightarrow> \<forall>x \<in> set xs. \<forall>c \<in> set x. plain_char c \<Longrightarrow> \<forall>c \<in> set (join_with sep xs). plain_char c"
  by (induction sep xs rule: join_with.induct) auto

lemma plain_show_v4: "\<forall>c \<in> set (show_v4 os). plain_char c"
  unfolding show_v4_def by (rule plain_join_with) (use plain_show_nat in \<open>auto simp: plain_char_def\<close>)

lemma plain_show_hex: "\<forall>c \<in> set (show_hex n). plain_char c"
proof (induction n rule: show_hex.induct)
  case (1 n)
  then show ?case by (subst show_hex.simps) (auto intro: plain_digit_char)
qed

lemma plain_show_segs: "\<forall>c \<in> set (show_segs ss). plain_char c"
  unfolding show_segs_def by (rule plain_join_with) (use plain_show_hex in \<open>auto simp: plain_char_def\<close>)

lemma plain_show_v6: "\<forall>c \<in> set (show_v6 ss). plain_char c"
  using plain_show_segs plain_show_v4
  by (auto simp: show_v6_def Let_def plain_char_def split: prod.splits if_splits)

lemma plain_show_socket_addr: "\<forall>c \<in> set (show_socket_addr a). plain_char c"
  using plain_show_v4 plain_show_v6 plain_show_nat
  by (cases a rule: show_socket_addr.cases) (auto simp: plain_char_def)

lemma plain_bytes:
  assumes "\<forall>c \<in> set s. plain_char c"
  shows "0 \<notin> set (str_bytes s)" "from_utf8 (str_bytes s) = Inr s"
proof -
  have *: "unat (of_char c :: byte) = of_char c" for c by (rule unat_of_char)
  have "b \<noteq> 0 \<and> b < 0x80" if b: "b \<in> set (str_bytes s)" for b
  proof -
    obtain c where c: "c \<in> set s" "b = of_char c" using b unfolding str_bytes_def set_map by blast
    then have "0 < unat b" "unat b < 128" using assms * [of c] by (auto simp: plain_char_def)
    then show ?thesis by (auto simp: word_less_nat_alt)
  qed
  then show "0 \<notin> set (str_bytes s)" "from_utf8 (str_bytes s) = Inr s"
    using utf8_ok_ascii [of "str_bytes s"] by (auto simp: from_utf8_def)
qed

lemma parse_extend_payload:
  assumes "length pub = 32" "\<forall>c \<in> set (tls_cert_fingerprint node). plain_char c"
  shows "entry_parse_extend (extend_payload node pub) =
      Inr (show_socket_addr (address node), pub, tls_cert_fingerprint node)"
    and "middle_parse_extend (extend_payload node pub) =
      Inr (show_socket_addr (address node), pub, tls_cert_fingerprint node)"
proof -
  let ?a = "str_bytes (show_socket_addr (address node))" let ?f = "str_bytes (tls_cert_fingerprint node)"
  note a = plain_bytes [OF plain_show_socket_addr, of "address node"] and f = plain_bytes [OF assms(2)]
  have z: "position_zero (extend_payload node pub) = Some (length ?a)"
    using position_zero_append [OF a(1)] by (simp add: extend_payload_def)
  have g: "get_range (extend_payload node pub) 0 (length ?a) = Some ?a"
    "get_range (extend_payload node pub) (length ?a + 1) (length ?a + 1 + 32) = Some pub"
    "get_at (extend_payload node pub) (length ?a + 1 + 32) = Some 0"
    "get_range (extend_payload node pub) (length ?a + 1 + 32 + 1) (length (extend_payload node pub)) = Some ?f"
    "length (extend_payload node pub) = length ?a + 34 + length ?f"
    using assms(1) by (auto simp: extend_payload_def get_range_def get_at_def nth_append)
  show e: "entry_parse_extend (extend_payload node pub) =
      Inr (show_socket_addr (address node), pub, tls_cert_fingerprint node)"
    using z g a(2) f(2) by (simp add: entry_parse_extend_def Let_def del: length_str_bytes)
  show "middle_parse_extend (extend_payload node pub) =
      Inr (show_socket_addr (address node), pub, tls_cert_fingerprint node)"
    using e parse_extend_agree [of "extend_payload node pub"] by simp
qed

text \<open>
  What the client asks for is what a relay reads: the EXTEND payload for a node and an
  ephemeral key is parsed by an entry and by a middle as the node's address in text, the
  key and the fingerprint, for every address and every fingerprint of ASCII characters; and the text of an
  IPv4 address parses to the address.
\<close>

theorem extend_payload_understood:
  assumes "length pub = 32" "\<forall>c \<in> set (tls_cert_fingerprint node). plain_char c"
  shows "entry_parse_extend (extend_payload node pub) = Inr (show_socket_addr (address node), pub, tls_cert_fingerprint node) \<and>
    middle_parse_extend (extend_payload node pub) = Inr (show_socket_addr (address node), pub, tls_cert_fingerprint node) \<and>
    (\<forall>os p. address node = SocketAddr (V4 os) p 0 \<and> length os = 4 \<longrightarrow>
       parse_socket_addr (show_socket_addr (address node)) = Some (address node))"
  using parse_extend_payload [OF assms] parse_show_v4 by (auto simp del: show_socket_addr.simps)

definition sample_descriptor :: node_descriptor where
  "sample_descriptor = (nd_new ''m'' Middle (SocketAddr (V4 [10, 0, 0, 2]) 9002 0) (kp_public (kp_generate toy_prims (replicate 32 3))) 5 None)
     \<lparr>tls_cert_fingerprint := compute_cert_fingerprint toy_prims []\<rparr>"

lemma sample_fingerprint_plain: "\<forall>c \<in> set (tls_cert_fingerprint sample_descriptor). plain_char c"
  by code_simp

lemma sample_address: "show_socket_addr (address sample_descriptor) = ''10.0.0.2:9002''"
proof -
  have "show_nat 10 = ''10''" "show_nat 0 = ''0''" "show_nat 2 = ''2''" "show_nat 9002 = ''9002''"
    by (simp_all add: show_nat.simps digit_char_def) (code_simp | (intro conjI; code_simp))+
  then show ?thesis by (simp add: sample_descriptor_def nd_new_def show_v4_def)
qed

theorem extend_payload_understood_witness:
  "entry_parse_extend (extend_payload sample_descriptor (replicate 32 1)) =
     Inr (''10.0.0.2:9002'', replicate 32 1, compute_cert_fingerprint toy_prims [])"
  using extend_payload_understood [of "replicate 32 1" sample_descriptor] sample_fingerprint_plain
  unfolding sample_address by (simp add: sample_descriptor_def)

section \<open>CREATE and EXTEND, one exchange each\<close>

text \<open>A relay of the node's keys, and ends that answer a message.\<close>

definition relay_of :: "prims \<Rightarrow> relay_env \<Rightarrow> relay_node \<Rightarrow> node_descriptor \<Rightarrow> bool" where
  "relay_of P e n node = (re_prims e = P \<and> length (re_secret e) = 32 \<and> kp_wf P (rn_keypair n) \<and>
     public_key node = kp_public (rn_keypair n))"

definition conn_answers :: "entry_conn \<Rightarrow> message \<Rightarrow> message \<Rightarrow> bool" where
  "conn_answers s m r = (wr_room (cn_write s) = None \<and> fst (conn_recv (snd (conn_send m s))) = Some (Inr (Some r)))"

definition peer_answers :: "peer \<Rightarrow> message \<Rightarrow> message \<Rightarrow> bool" where
  "peer_answers p m r = (wr_room (peer_write p) = None \<and>
     (case peer_reply p (wr_bytes (peer_write p) @ to_bytes (wr_rnd (peer_write p)) m) of None \<Rightarrow> False
      | Some rd \<Rightarrow> fst (from_stream rd) = Inr (Some r)))"

lemma created_fits: "length y = 32 \<Longrightarrow> length auth = 32 \<Longrightarrow>
    msg_fits (msg_created cid (y @ auth)) \<and> msg_fits (msg_extended cid (y @ auth))"
  by (simp add: msg_fits_def msg_wf_def msg_defs MAX_PAYLOAD_SIZE_eq)

lemma create_fits: "length pub = 32 \<Longrightarrow> msg_fits (msg_create cid pub)"
  by (simp add: msg_fits_def msg_wf_def msg_defs MAX_PAYLOAD_SIZE_eq)

lemma split_64:
  assumes "length y = 32" "length auth = 32"
  shows "get_range (y @ auth) 0 32 = Some y" "get_range (y @ auth) 32 64 = Some auth"
  using assms by (simp_all add: get_range_def)

text \<open>A relay that is asked to dial a node reaches it and brings its answer back.\<close>

lemma entry_dial_ok:
  assumes "parse_socket_addr addr_str = Some addr" "re_net e addr = Some pr" "tls_connect (re_prims e) fp pr"
    and "length pub = 32" "peer_answers pr (msg_create cid pub) resp" "command resp = Created"
  shows "\<exists>stream. entry_dial e cid addr_str pub fp = Inr (resp, stream) \<and> wr_room (rs_write stream) = None"
  using assms create_fits [OF assms(4), of cid]
  by (auto simp: entry_dial_def write_to_stream_ok peer_answers_def split: option.splits prod.splits)

lemma entry_extend_ok:
  assumes "cx_cipher_pair (eh_context h) = Some cp" "cid = cx_circuit_id (eh_context h)"
    and "apply_forward (re_prims e) cp (data m) = (d, cp1)"
    and "entry_parse_extend d = Inr (addr_str, pub, fp)"
    and "entry_dial e cid addr_str pub fp = Inr (resp, stream)"
    and "apply_backward (re_prims e) cp1 (data resp) = (x, cp2)"
  shows "\<exists>h' mt'. entry_handle_extend e m (h, mt) = (Inr (Some (msg_extended cid x)), (h', mt')) \<and>
    eh_next_hop h' = Some (nh_new stream) \<and> cx_cipher_pair (eh_context h') = Some cp2 \<and>
    cx_circuit_id (eh_context h') = cid"
  using assms by (simp add: entry_handle_extend_def Let_def msg_defs)

definition sample_pub :: bytes where
  "sample_pub = pk_bytes (kp_public (kp_generate toy_prims (replicate 32 5)))"

definition sample_peer :: "message \<Rightarrow> peer" where
  "sample_peer r = \<lparr>peer_cert = [], peer_tls_ok = True, peer_write = sample_writer,
     peer_reply = (\<lambda>bs. Some \<lparr>rd_bytes = to_bytes (\<lambda>i. 0) r, rd_broken = False\<rparr>)\<rparr>"

lemma sample_answers: "msg_fits r \<Longrightarrow> peer_answers (sample_peer r) m r"
  using from_stream_cell [of r "\<lambda>i. 0" "[]" False]
  by (simp add: peer_answers_def sample_peer_def sample_writer_def)

lemma length_fingerprint: "prims_wf P \<Longrightarrow> length (compute_cert_fingerprint P der) = 64"
  by (simp add: compute_cert_fingerprint_def prims_wf_def length_concat hex2_def o_def sum_list_triv)

end
