(* ===== verification/Client_Pool.thy ===== *)
theory Client_Pool
  imports Client_Builder
begin

text \<open>
  The pool of circuits (\<open>CircuitPool\<close>, \<open>spawn_circuit_monitor\<close> and
  \<open>spawn_circuit_keepalive\<close> in \<open>tor-client/src/core/circuit.rs\<close>). A circuit is shared by
  the pool, its reader and its streams, so circuits live in a store and the pool maps
  circuit ids to addresses. The directory, the network, the random secrets and the clock
  answer the \<open>i\<close>-th build of the pool through \<open>pool_env\<close>; a hash map is iterated in the
  order of its association list.
\<close>

section \<open>State\<close>

record circuit_pool =
  cp_circuits :: "(u32, nat) hmap"
  cp_next_circuit_id :: u32
  cp_pool_size :: nat
  cp_hop_count :: nat
  cp_metrics :: bool
  cp_max_rebuild_attempts :: nat
  cp_failure_counts :: "(u32, nat) hmap"
  cp_abandoned :: "u32 set"
  cp_ages :: "(u32, nat) hmap"
  cp_max_age :: nat

text \<open>The store of circuits, the metrics, the readers spawned, and the number of builds so far.\<close>

record pool_world =
  pw_store :: "circuit list"
  pw_metrics :: client_metrics
  pw_readers :: "(nat \<times> reader) list"
  pw_builds :: nat

record pool_env =
  pe_prims :: prims
  pe_path :: "nat \<Rightarrow> nat \<Rightarrow> any_error + node_descriptor list"  \<comment> \<open>\<open>get_random_path\<close> at a build, for a hop count\<close>
  pe_net :: "nat \<Rightarrow> network"
  pe_secret :: "nat \<Rightarrow> nat \<Rightarrow> bytes"
  pe_clock :: "nat \<Rightarrow> nat"
  pe_error_text :: "any_error \<Rightarrow> string"  \<comment> \<open>an error with its causes, \<open>{:#}\<close>\<close>

type_synonym pool_state = "circuit_pool \<times> pool_world"

text \<open>Ten minutes in the clock's unit, nanoseconds.\<close>

definition MAX_CIRCUIT_DIRTINESS :: nat where
  "MAX_CIRCUIT_DIRTINESS = 600 * 10 ^ 9"

definition cp_new :: "nat \<Rightarrow> nat \<Rightarrow> nat \<Rightarrow> circuit_pool" where
  "cp_new pool_size hop_count max_rebuild_attempts =
     \<lparr>cp_circuits = [], cp_next_circuit_id = 1, cp_pool_size = pool_size, cp_hop_count = hop_count,
      cp_metrics = False, cp_max_rebuild_attempts = max_rebuild_attempts, cp_failure_counts = [],
      cp_abandoned = {}, cp_ages = [], cp_max_age = MAX_CIRCUIT_DIRTINESS\<rparr>"

definition cp_set_metrics :: "circuit_pool \<Rightarrow> circuit_pool" where
  "cp_set_metrics p = p\<lparr>cp_metrics := True\<rparr>"

definition cp_set_max_circuit_age :: "nat \<Rightarrow> circuit_pool \<Rightarrow> circuit_pool" where
  "cp_set_max_circuit_age age p = p\<lparr>cp_max_age := age\<rparr>"

definition pw_update :: "bool \<Rightarrow> (client_metrics \<Rightarrow> client_metrics) \<Rightarrow> pool_world \<Rightarrow> pool_world" where
  "pw_update b f w = (if b then w\<lparr>pw_metrics := f (pw_metrics w)\<rparr> else w)"

definition set_state :: "client_circuit_state \<Rightarrow> nat \<Rightarrow> pool_world \<Rightarrow> pool_world" where
  "set_state s a w = w\<lparr>pw_store := (pw_store w)[a := (pw_store w ! a)\<lparr>ci_state := s\<rparr>]\<rparr>"

section \<open>Building\<close>

definition cp_allocate_circuit_id :: "circuit_pool \<Rightarrow> u32 \<times> circuit_pool" where
  "cp_allocate_circuit_id p =
     (cp_next_circuit_id p, p\<lparr>cp_next_circuit_id := cp_next_circuit_id p + 1\<rparr>)"

definition path_context :: "nat \<Rightarrow> string" where
  "path_context hops = ''Failed to get a '' @ show_nat hops @
     ''-hop path from the directory service (requires: 1 entry + '' @ show_nat (hops - 2) @
     '' middle + 1 exit relay node(s) registered)''"

definition cp_build_circuit :: "pool_env \<Rightarrow> pool_state \<Rightarrow> (any_error + u32 \<times> reader) \<times> pool_state" where
  "cp_build_circuit e st =
     (let (p, w) = st; i = pw_builds w; w = w\<lparr>pw_builds := Suc i\<rparr>;
          (cid, p) = cp_allocate_circuit_id p
      in case pe_path e i (cp_hop_count p) of
           Inl er \<Rightarrow> (Inl (Msg (path_context (cp_hop_count p))), (p, w))
         | Inr path \<Rightarrow>
             case build_circuit_on (pe_prims e) (pe_net e i) (pe_secret e i) cid path of
               Inl er \<Rightarrow> (Inl er, (p, w))
             | Inr (c, rd) \<Rightarrow>
                 let display = (case ci_path_display c of None \<Rightarrow> '''' | Some s \<Rightarrow> s);
                     p = p\<lparr>cp_circuits := hm_insert cid (length (pw_store w)) (cp_circuits p),
                           cp_ages := hm_insert cid (pe_clock e i) (cp_ages p)\<rparr>;
                     w = w\<lparr>pw_store := pw_store w @ [c]\<rparr>;
                     w = pw_update (cp_metrics p) (\<lambda>m. cm_push_event (pe_clock e i) (CircuitBuilt cid display)
                           (m\<lparr>cm_circuits_built := cm_circuits_built m + 1\<rparr>)) w
                 in (Inr (cid, rd), (p, w)))"

text \<open>\<open>self.circuits.get(&circuit_id).ok_or_else(...)\<close> after a build.\<close>

definition built_circuit :: "u32 \<Rightarrow> circuit_pool \<Rightarrow> any_error + nat" where
  "built_circuit cid p =
     (case hm_get (cp_circuits p) cid of
        None \<Rightarrow> Inl (Msg (''Newly built circuit '' @ show_u32 cid @ '' not found'')) | Some a \<Rightarrow> Inr a)"

fun cp_initialize_loop ::
  "nat \<Rightarrow> pool_env \<Rightarrow> (nat \<times> reader) list \<Rightarrow> pool_state \<Rightarrow> (any_error + (nat \<times> reader) list) \<times> pool_state"
where
  "cp_initialize_loop 0 e results st = (Inr results, st)"
| "cp_initialize_loop (Suc n) e results st =
     (case cp_build_circuit e st of
        (Inr (cid, rd), (p, w)) \<Rightarrow>
          (case built_circuit cid p of
             Inl er \<Rightarrow> (Inl er, (p, w))
           | Inr a \<Rightarrow> cp_initialize_loop n e (results @ [(a, rd)]) (p, w))
      | (Inl er, st) \<Rightarrow> (Inl (Msg ''Failed to initialize circuit pool''), st))"

definition cp_initialize :: "pool_env \<Rightarrow> pool_state \<Rightarrow> (any_error + (nat \<times> reader) list) \<times> pool_state" where
  "cp_initialize e st = cp_initialize_loop (cp_pool_size (fst st)) e [] st"

section \<open>Expiry and selection\<close>

definition expire_one :: "u32 \<Rightarrow> u32 list \<times> pool_state \<Rightarrow> u32 list \<times> pool_state" where
  "expire_one i acc =
     (let (aged_out, (p, w)) = acc in
      case hm_get (cp_circuits p) i of
        None \<Rightarrow> (aged_out, (p, w))
      | Some a \<Rightarrow>
          if ci_state (pw_store w ! a) = CReady
          then (aged_out @ [i], (p\<lparr>cp_ages := hm_remove i (cp_ages p)\<rparr>, set_state CDirty a w))
          else (aged_out, (p, w)))"

definition expired_ids :: "nat \<Rightarrow> circuit_pool \<Rightarrow> u32 list" where
  "expired_ids now p = map fst (filter (\<lambda>(i, created). cp_max_age p \<le> now - created) (cp_ages p))"

definition cp_expire_aged_circuits :: "nat \<Rightarrow> pool_state \<Rightarrow> u32 list \<times> pool_state" where
  "cp_expire_aged_circuits now st = fold expire_one (expired_ids now (fst st)) ([], st)"

text \<open>The scan for the least-loaded ready circuit.\<close>

fun best_ready :: "pool_world \<Rightarrow> (u32 \<times> nat) list \<Rightarrow> (u32 \<times> nat) option \<Rightarrow> (u32 \<times> nat) option" where
  "best_ready w [] best = best"
| "best_ready w ((i, a) # cs) best =
     (let c = pw_store w ! a in
      if ci_state c = CReady
      then let count = ci_active_stream_count c
           in (case best of
                 Some (j, best_count) \<Rightarrow> if count < best_count then best_ready w cs (Some (i, count)) else best_ready w cs best
               | None \<Rightarrow> best_ready w cs (Some (i, count)))
      else best_ready w cs best)"

definition cp_select_circuit ::
  "pool_env \<Rightarrow> pool_state \<Rightarrow> (any_error + nat \<times> reader option) \<times> pool_state"
where
  "cp_select_circuit e st =
     (let (p, w) = st in
      case best_ready w (cp_circuits p) None of
        Some (i, count) \<Rightarrow>
          (case hm_get (cp_circuits p) i of
             None \<Rightarrow> (Inl (Msg (''Circuit '' @ show_u32 i @ '' disappeared'')), st)
           | Some a \<Rightarrow> (Inr (a, None), st))
      | None \<Rightarrow>
          (case cp_build_circuit e st of
             (Inl er, st) \<Rightarrow> (Inl er, st)
           | (Inr (cid, rd), (p, w)) \<Rightarrow>
               (case built_circuit cid p of Inl er \<Rightarrow> (Inl er, (p, w)) | Inr a \<Rightarrow> (Inr (a, Some rd), (p, w)))))"

section \<open>Replacement\<close>

definition cp_is_abandoned :: "u32 \<Rightarrow> circuit_pool \<Rightarrow> bool" where
  "cp_is_abandoned i p = (i \<in> cp_abandoned p)"

definition count_of :: "u32 \<Rightarrow> (u32, nat) hmap \<Rightarrow> nat" where
  "count_of i m = (case hm_get m i of None \<Rightarrow> 0 | Some n \<Rightarrow> n)"

definition cp_replace_circuit ::
  "pool_env \<Rightarrow> u32 \<Rightarrow> pool_state \<Rightarrow> (any_error + nat \<times> reader) \<times> pool_state"
where
  "cp_replace_circuit e failed st =
     (let (p, w) = st; p = p\<lparr>cp_circuits := hm_remove failed (cp_circuits p)\<rparr> in
      case cp_build_circuit e (p, w) of
        (Inr (cid, rd), (p, w)) \<Rightarrow>
          let p = p\<lparr>cp_failure_counts := hm_remove failed (cp_failure_counts p)\<rparr>
          in (case built_circuit cid p of
                Inl er \<Rightarrow> (Inl er, (p, w))
              | Inr a \<Rightarrow>
                  (Inr (a, rd),
                   (p, pw_update (cp_metrics p) (\<lambda>m. cm_push_event (pe_clock e (pw_builds w)) (CircuitReplaced failed cid)
                         (m\<lparr>cm_circuits_replaced := cm_circuits_replaced m + 1\<rparr>)) w)))
      | (Inl er, (p, w)) \<Rightarrow>
          let n = Suc (count_of failed (cp_failure_counts p));
              p = p\<lparr>cp_failure_counts := hm_insert failed n (cp_failure_counts p)\<rparr>
          in if cp_max_rebuild_attempts p \<le> n
             then (Inl er, (p\<lparr>cp_abandoned := insert failed (cp_abandoned p)\<rparr>,
                    pw_update (cp_metrics p) (cm_push_event (pe_clock e (pw_builds w)) (ClientError
                      (''Circuit slot '' @ show_u32 failed @ '' abandoned after '' @
                       show_nat (cp_max_rebuild_attempts p) @ '' rebuild attempt(s)''))) w))
             else (Inl er, (p, w)))"

definition cp_circuit_count :: "circuit_pool \<Rightarrow> nat" where
  "cp_circuit_count p = length (cp_circuits p)"

definition cp_get_circuit :: "u32 \<Rightarrow> circuit_pool \<Rightarrow> nat option" where
  "cp_get_circuit i p = hm_get (cp_circuits p) i"

definition cp_circuit_age :: "u32 \<Rightarrow> nat \<Rightarrow> circuit_pool \<Rightarrow> nat option" where
  "cp_circuit_age i now p = map_option (\<lambda>created. now - created) (hm_get (cp_ages p) i)"

section \<open>The monitor\<close>

definition spawn_reader :: "nat \<Rightarrow> reader \<Rightarrow> pool_state \<Rightarrow> pool_state" where
  "spawn_reader a rd st = (fst st, (snd st)\<lparr>pw_readers := pw_readers (snd st) @ [(a, rd)]\<rparr>)"

text \<open>A replacement for an aged circuit; a failure is only logged.\<close>

definition monitor_build :: "pool_env \<Rightarrow> pool_state \<Rightarrow> pool_state" where
  "monitor_build e st =
     (case cp_build_circuit e st of
        (Inl er, st) \<Rightarrow> st
      | (Inr (cid, rd), (p, w)) \<Rightarrow>
          (case hm_get (cp_circuits p) cid of None \<Rightarrow> (p, w) | Some a \<Rightarrow> spawn_reader a rd (p, w)))"

text \<open>Circuits in a state, and with no streams.\<close>

definition ids_in_state :: "client_circuit_state \<Rightarrow> pool_state \<Rightarrow> u32 list" where
  "ids_in_state s st =
     map fst (filter (\<lambda>(i, a). ci_state (pw_store (snd st) ! a) = s) (cp_circuits (fst st)))"

definition idle_dirty_ids :: "pool_state \<Rightarrow> u32 list" where
  "idle_dirty_ids st =
     map fst (filter (\<lambda>(i, a). ci_state (pw_store (snd st) ! a) = CDirty \<and>
       ci_active_stream_count (pw_store (snd st) ! a) = 0) (cp_circuits (fst st)))"

definition monitor_sweep :: "pool_state \<Rightarrow> pool_state" where
  "monitor_sweep st =
     ((fst st)\<lparr>cp_circuits := fold hm_remove (idle_dirty_ids st) (cp_circuits (fst st))\<rparr>, snd st)"

text \<open>
  \<open>(5u64 * (1u64 << failures)).min(60)\<close>: \<open>None\<close> is the overflow panic of a checked build.
\<close>

definition monitor_backoff :: "nat \<Rightarrow> nat option" where
  "monitor_backoff failures = (if failures < 64 \<and> 5 * 2 ^ failures < (2 :: nat) ^ 64 then Some (min (5 * 2 ^ failures) 60) else None)"

text \<open>How long the monitor sleeps before a replacement, beyond the interval it has slept.\<close>

definition monitor_sleep :: "nat \<Rightarrow> nat \<Rightarrow> nat" where
  "monitor_sleep check_interval backoff = (if check_interval < backoff then backoff - check_interval else 0)"

text \<open>One closed circuit: the seconds slept, and the pool afterwards.\<close>

definition monitor_replace :: "pool_env \<Rightarrow> nat \<Rightarrow> u32 \<Rightarrow> pool_state \<Rightarrow> (nat \<times> pool_state) option" where
  "monitor_replace e check_interval failed st =
     (if cp_is_abandoned failed (fst st) then Some (0, st)
      else case monitor_backoff (count_of failed (cp_failure_counts (fst st))) of
        None \<Rightarrow> None
      | Some backoff \<Rightarrow>
          Some (monitor_sleep check_interval backoff,
            case cp_replace_circuit e failed st of
              (Inr (a, rd), st) \<Rightarrow> spawn_reader a rd st
            | (Inl er, (p, w)) \<Rightarrow>
                (p, pw_update True (cm_push_event (pe_clock e (pw_builds w))
                      (ClientError (''Monitor replace failed: '' @ pe_error_text e er))) w)))"

fun monitor_replace_all :: "pool_env \<Rightarrow> nat \<Rightarrow> u32 list \<Rightarrow> pool_state \<Rightarrow> (nat \<times> pool_state) option" where
  "monitor_replace_all e ci [] st = Some (0, st)"
| "monitor_replace_all e ci (i # is) st =
     (case monitor_replace e ci i st of None \<Rightarrow> None
      | Some (t, st) \<Rightarrow> map_option (\<lambda>(t', st). (t + t', st)) (monitor_replace_all e ci is st))"

text \<open>One round of the monitor's loop, with the seconds it has slept in it.\<close>

definition monitor_turn :: "pool_env \<Rightarrow> nat \<Rightarrow> nat \<Rightarrow> pool_state \<Rightarrow> (nat \<times> pool_state) option" where
  "monitor_turn e now ci st =
     (let (expired, st) = cp_expire_aged_circuits now st;
          st = (monitor_build e ^^ length expired) st;
          st = monitor_sweep st
      in map_option (\<lambda>(t, st). (ci + t, st)) (monitor_replace_all e ci (ids_in_state CClosed st) st))"

section \<open>Keepalive\<close>

text \<open>A PADDING cell on every ready circuit; a write that fails is only logged.\<close>

definition keepalive_one :: "(nat \<Rightarrow> nat) \<Rightarrow> (nat \<Rightarrow> byte) \<Rightarrow> nat \<Rightarrow> pool_world \<Rightarrow> pool_world" where
  "keepalive_one pick rnd a w =
     (let c = pw_store w ! a in
      if ci_state c = CReady
      then let (r, wr) = write_to_stream (msg_padding pick rnd (ci_circuit_id c)) (ci_entry_writer c)
           in w\<lparr>pw_store := (pw_store w)[a := c\<lparr>ci_entry_writer := wr\<rparr>]\<rparr>
      else w)"

definition keepalive_turn :: "(nat \<Rightarrow> nat) \<Rightarrow> (nat \<Rightarrow> byte) \<Rightarrow> pool_state \<Rightarrow> pool_state" where
  "keepalive_turn pick rnd st =
     (fst st, fold (keepalive_one pick rnd) (hm_values (cp_circuits (fst st))) (snd st))"

text \<open>The seconds between two rounds for a draw of the generator.\<close>

definition random_padding_interval :: "nat \<Rightarrow> nat" where
  "random_padding_interval r = 240 + r mod (360 - 240)"

section \<open>The invariant\<close>

definition pool_inv :: "pool_state \<Rightarrow> bool" where
  "pool_inv st =
     (let (p, w) = st in hm_wf (cp_circuits p) \<and> hm_wf (cp_ages p) \<and> hm_wf (cp_failure_counts p) \<and>
      (\<forall>i a. hm_get (cp_circuits p) i = Some a \<longrightarrow> a < length (pw_store w) \<and> ci_circuit_id (pw_store w ! a) = i))"

lemma pw_update_fields [simp]:
  "pw_store (pw_update b f w) = pw_store w" "pw_readers (pw_update b f w) = pw_readers w"
  "pw_builds (pw_update b f w) = pw_builds w"
  by (simp_all add: pw_update_def)

lemma pool_inv_update [simp]: "pool_inv (p, pw_update b f w) = pool_inv (p, w)"
  by (simp add: pool_inv_def)

lemma build_circuit_on_fields:
  assumes "build_circuit_on P net sec cid path = Inr (c, rd)"
  shows "ci_circuit_id c = cid \<and> ci_state c = CReady \<and> ci_stream_senders c = [] \<and> ci_next_stream_id c = 1 \<and> 3 \<le> length path"
  using assms by (auto simp: build_circuit_on_def split: if_splits list.splits sum.splits prod.splits option.splits)

lemma build_fields:
  assumes "cp_build_circuit e (p, w) = (Inr (cid, rd), (p', w'))"
  shows "cid = cp_next_circuit_id p \<and>
    (\<exists>c. pw_store w' = pw_store w @ [c] \<and> ci_circuit_id c = cid \<and> ci_state c = CReady \<and> ci_stream_senders c = []) \<and>
    p' = p\<lparr>cp_next_circuit_id := cp_next_circuit_id p + 1,
           cp_circuits := hm_insert cid (length (pw_store w)) (cp_circuits p),
           cp_ages := hm_insert cid (pe_clock e (pw_builds w)) (cp_ages p)\<rparr> \<and>
    pw_builds w' = Suc (pw_builds w) \<and> pw_readers w' = pw_readers w"
  using assms
  by (auto simp: cp_build_circuit_def cp_allocate_circuit_id_def Let_def dest!: build_circuit_on_fields
      split: sum.splits prod.splits)

lemma build_error_fields:
  assumes "cp_build_circuit e (p, w) = (Inl er, (p', w'))"
  shows "p' = p\<lparr>cp_next_circuit_id := cp_next_circuit_id p + 1\<rparr> \<and> w' = w\<lparr>pw_builds := Suc (pw_builds w)\<rparr>"
  using assms by (auto simp: cp_build_circuit_def cp_allocate_circuit_id_def Let_def split: sum.splits prod.splits)

lemma pool_inv_build:
  assumes "pool_inv (p, w)" "cp_build_circuit e (p, w) = (r, (p', w'))"
  shows "pool_inv (p', w')"
proof (cases r)
  case (Inl er)
  with assms build_error_fields [of e p w er p' w'] show ?thesis by (simp add: pool_inv_def)
next
  case (Inr x)
  obtain cid rd where x: "x = (cid, rd)" by force
  from assms build_fields [of e p w cid rd p' w'] Inr x show ?thesis
    by (auto simp: pool_inv_def nth_append less_Suc_eq)
qed

text \<open>A build that succeeds is found.\<close>

lemma built_after_build:
  "cp_build_circuit e (p, w) = (Inr (cid, rd), (p', w')) \<Longrightarrow> built_circuit cid p' = Inr (length (pw_store w))"
  using build_fields [of e p w cid rd p' w'] by (simp add: built_circuit_def)

lemma pool_inv_remove: "pool_inv (p, w) \<Longrightarrow> pool_inv (p\<lparr>cp_circuits := hm_remove i (cp_circuits p)\<rparr>, w)"
  by (auto simp: pool_inv_def)

lemma pool_inv_removes:
  "pool_inv (p, w) \<Longrightarrow> pool_inv (p\<lparr>cp_circuits := fold hm_remove is (cp_circuits p)\<rparr>, w)"
proof (induction "is" arbitrary: p)
  case (Cons i "is")
  from Cons.IH [OF pool_inv_remove [OF Cons.prems, of i]] show ?case by simp
qed simp

text \<open>Changing a circuit but not its id.\<close>

lemma pool_inv_touch:
  "pool_inv (p, w) \<Longrightarrow> ci_circuit_id c = ci_circuit_id (pw_store w ! a) \<Longrightarrow>
   pool_inv (p, w\<lparr>pw_store := (pw_store w)[a := c]\<rparr>)"
proof -
  assume inv: "pool_inv (p, w)" and c: "ci_circuit_id c = ci_circuit_id (pw_store w ! a)"
  have "ci_circuit_id ((pw_store w)[a := c] ! b) = ci_circuit_id (pw_store w ! b)" for b
    using c by (cases "a < length (pw_store w)"; cases "b = a") (simp_all add: list_update_beyond)
  with inv show ?thesis by (simp add: pool_inv_def)
qed

lemma pool_inv_expire_one: "pool_inv (snd acc) \<Longrightarrow> pool_inv (snd (expire_one i acc))"
proof -
  assume inv: "pool_inv (snd acc)"
  obtain out p w where acc: "acc = (out, (p, w))" by (metis prod_cases3)
  have "pool_inv (p\<lparr>cp_ages := hm_remove i (cp_ages p)\<rparr>, set_state CDirty a w)" for a
    using pool_inv_touch [of "p\<lparr>cp_ages := hm_remove i (cp_ages p)\<rparr>" w "(pw_store w ! a)\<lparr>ci_state := CDirty\<rparr>" a] inv
    by (simp add: set_state_def acc pool_inv_def)
  then show ?thesis using inv by (auto simp: expire_one_def acc Let_def split: option.splits)
qed

lemma pool_inv_expire: "pool_inv st \<Longrightarrow> pool_inv (snd (cp_expire_aged_circuits now st))"
proof -
  have "pool_inv (snd acc) \<Longrightarrow> pool_inv (snd (fold expire_one is acc))" for "is" acc
  proof (induction "is" arbitrary: acc)
    case (Cons i "is")
    from Cons.IH [OF pool_inv_expire_one [OF Cons.prems, of i]] show ?case by simp
  qed simp
  then show "pool_inv st \<Longrightarrow> ?thesis" by (simp add: cp_expire_aged_circuits_def)
qed

lemma pool_inv_replace:
  assumes "pool_inv st" "cp_replace_circuit e i st = (r, st')"
  shows "pool_inv st'"
proof -
  obtain p w where st: "st = (p, w)" by force
  obtain b p1 w1 where b: "cp_build_circuit e (p\<lparr>cp_circuits := hm_remove i (cp_circuits p)\<rparr>, w) = (b, (p1, w1))"
    by (metis prod_cases3)
  have "pool_inv (p1, w1)"
    using pool_inv_build [OF pool_inv_remove b] assms(1) st by blast
  then show ?thesis
    using assms(2) b
    by (auto simp: cp_replace_circuit_def st Let_def pool_inv_def split: sum.splits if_splits)
qed

lemma pool_inv_spawn: "pool_inv st \<Longrightarrow> pool_inv (spawn_reader a rd st)"
  by (cases st) (simp add: spawn_reader_def pool_inv_def)

lemma pool_inv_monitor_build: "pool_inv st \<Longrightarrow> pool_inv (monitor_build e st)"
proof -
  assume inv: "pool_inv st"
  obtain p w where st: "st = (p, w)" by force
  obtain b p1 w1 where b: "cp_build_circuit e (p, w) = (b, (p1, w1))" by (metis prod_cases3)
  have "pool_inv (p1, w1)" using pool_inv_build [OF _ b] inv st by simp
  then show ?thesis using b pool_inv_spawn [of "(p1, w1)"]
    by (auto simp: monitor_build_def st split: sum.splits prod.splits option.splits)
qed

lemma pool_inv_sweep: "pool_inv st \<Longrightarrow> pool_inv (monitor_sweep st)"
  by (cases st) (simp add: monitor_sweep_def pool_inv_removes)

lemma pool_inv_monitor_replace:
  assumes "pool_inv st" "monitor_replace e ci i st = Some (t, st')"
  shows "pool_inv st'"
proof -
  obtain r p w where r: "cp_replace_circuit e i st = (r, (p, w))" by (metis prod_cases3)
  have "pool_inv (p, w)" by (rule pool_inv_replace [OF assms(1) r])
  then show ?thesis
    using assms r pool_inv_spawn [of "(p, w)"]
    by (auto simp: monitor_replace_def split: if_splits option.splits sum.splits)
qed

lemma pool_inv_select:
  assumes "pool_inv st" "cp_select_circuit e st = (r, st')"
  shows "pool_inv st'"
proof -
  obtain p w where st: "st = (p, w)" by force
  obtain b p1 w1 where b: "cp_build_circuit e (p, w) = (b, (p1, w1))" by (metis prod_cases3)
  have "pool_inv (p1, w1)" using pool_inv_build [OF _ b] assms(1) st by simp
  then show ?thesis
    using assms b by (auto simp: cp_select_circuit_def st split: option.splits sum.splits prod.splits)
qed

lemma pool_inv_keepalive: "pool_inv (p, w) \<Longrightarrow> pool_inv (p, keepalive_one pick rnd a w)"
  using pool_inv_touch [of p w _ a] by (auto simp: keepalive_one_def Let_def split: prod.splits)

text \<open>
  The pool and everything that runs beside it: its own operations, the steps of the monitor
  and the keepalive, and readers and streams that change a circuit but not its id.
\<close>

inductive pool_step :: "pool_state \<Rightarrow> pool_state \<Rightarrow> bool" where
  Build: "cp_build_circuit e st = (r, st') \<Longrightarrow> pool_step st st'"
| Select: "cp_select_circuit e st = (r, st') \<Longrightarrow> pool_step st st'"
| Replace: "cp_replace_circuit e i st = (r, st') \<Longrightarrow> pool_step st st'"
| Expire: "cp_expire_aged_circuits now st = (aged, st') \<Longrightarrow> pool_step st st'"
| MonitorBuild: "pool_step st (monitor_build e st)"
| Sweep: "pool_step st (monitor_sweep st)"
| MonitorReplace: "monitor_replace e ci i st = Some (t, st') \<Longrightarrow> pool_step st st'"
| Keepalive: "pool_step (p, w) (p, keepalive_one pick rnd a w)"
| Touch: "ci_circuit_id c = ci_circuit_id (pw_store w ! a) \<Longrightarrow>
    pool_step (p, w) (p, w\<lparr>pw_store := (pw_store w)[a := c]\<rparr>)"

lemma pool_inv_step: "pool_step st st' \<Longrightarrow> pool_inv st \<Longrightarrow> pool_inv st'"
proof (induction rule: pool_step.induct)
  case (Build e st r st')
  then show ?case using pool_inv_build by (cases st; cases st') blast
next
  case (Expire now st aged st')
  then show ?case using pool_inv_expire [of st now] by simp
qed (auto intro: pool_inv_select pool_inv_replace pool_inv_monitor_build pool_inv_sweep pool_inv_monitor_replace
  pool_inv_keepalive pool_inv_touch)

lemma pool_inv_reachable: "pool_step\<^sup>*\<^sup>* st st' \<Longrightarrow> pool_inv st \<Longrightarrow> pool_inv st'"
  by (induction rule: rtranclp_induct) (auto intro: pool_inv_step)

lemma pool_inv_new: "pool_inv (cp_new n h m, w)"
  by (simp add: pool_inv_def cp_new_def)

lemma pool_addresses_inject:
  "pool_inv (p, w) \<Longrightarrow> hm_get (cp_circuits p) i = Some a \<Longrightarrow> hm_get (cp_circuits p) j = Some a \<Longrightarrow> i = j"
  by (auto simp: pool_inv_def)

text \<open>
  In every state the pool can reach from a new pool, or from any consistent one, whatever the monitor, the keepalive, the readers and
  the streams do in between and whichever builds fail, a circuit is filed under its own
  id, every id has one circuit, and no circuit is filed twice.
\<close>

theorem pool_reachable_consistent:
  assumes "pool_inv st0" "pool_step\<^sup>*\<^sup>* st0 (p, w)"
    and "hm_get (cp_circuits p) i = Some a" "hm_get (cp_circuits p) j = Some b"
  shows "a < length (pw_store w) \<and> ci_circuit_id (pw_store w ! a) = i \<and> (a = b \<longleftrightarrow> i = j) \<and>
    distinct (map fst (cp_circuits p)) \<and> pool_inv (cp_new slots hops attempts, w0)"
proof -
  have inv: "pool_inv (p, w)" by (rule pool_inv_reachable [OF assms(2,1)])
  then have "a < length (pw_store w) \<and> ci_circuit_id (pw_store w ! a) = i" "distinct (map fst (cp_circuits p))"
    using assms(3) by (simp_all add: pool_inv_def hm_wf_def)
  moreover have "a = b \<longleftrightarrow> i = j" using pool_addresses_inject [OF inv assms(3), of j] assms(3,4) by auto
  ultimately show ?thesis using pool_inv_new by blast
qed

section \<open>Selection\<close>

abbreviation ready_at :: "pool_world \<Rightarrow> nat \<Rightarrow> bool" where
  "ready_at w a \<equiv> ci_state (pw_store w ! a) = CReady"

abbreviation load_at :: "pool_world \<Rightarrow> nat \<Rightarrow> nat" where
  "load_at w a \<equiv> ci_active_stream_count (pw_store w ! a)"

lemma best_ready_None: "best_ready w cs best = None \<longleftrightarrow> best = None \<and> (\<forall>(i, a) \<in> set cs. \<not> ready_at w a)"
  by (induction w cs best rule: best_ready.induct) (auto simp: Let_def split: option.splits)

lemma best_ready_Some:
  "best_ready w cs best = Some (i, n) \<Longrightarrow>
     (best = Some (i, n) \<or> (\<exists>a. (i, a) \<in> set cs \<and> ready_at w a \<and> n = load_at w a)) \<and>
     (\<forall>(j, b) \<in> set cs. ready_at w b \<longrightarrow> n \<le> load_at w b) \<and> (\<forall>j m. best = Some (j, m) \<longrightarrow> n \<le> m)"
proof (induction cs arbitrary: best)
  case (Cons x cs)
  obtain j b where x: "x = (j, b)" by force
  define best' where "best' = (if ready_at w b then (case best of None \<Rightarrow> Some (j, load_at w b)
      | Some (k, m) \<Rightarrow> if load_at w b < m then Some (j, load_at w b) else best) else best)"
  have "best_ready w cs best' = Some (i, n)"
    using Cons.prems by (auto simp: x best'_def Let_def split: option.splits if_splits)
  from Cons.IH [OF this] show ?case
    by (auto simp: x best'_def split: option.splits if_splits)
qed simp

text \<open>
  C24. A new stream goes to a ready circuit with the fewest streams, and the pool is unchanged;
  only when no circuit is ready is one built, and then it is the one used: it is ready and
  has no streams, unless the build fails, and then its error is the answer.
\<close>

theorem select_least_loaded:
  assumes "pool_inv (p, w)" "cp_select_circuit e (p, w) = (r, (p', w'))"
  shows "(if \<exists>i a. hm_get (cp_circuits p) i = Some a \<and> ready_at w a
     then p' = p \<and> w' = w \<and> (\<exists>i a. r = Inr (a, None) \<and> hm_get (cp_circuits p) i = Some a \<and> ready_at w a \<and>
       (\<forall>j b. hm_get (cp_circuits p) j = Some b \<and> ready_at w b \<longrightarrow> load_at w a \<le> load_at w b))
     else (p', w') = snd (cp_build_circuit e (p, w)) \<and>
       (case r of Inl er \<Rightarrow> fst (cp_build_circuit e (p, w)) = Inl er
        | Inr (a, rd) \<Rightarrow> rd \<noteq> None \<and> ready_at w' a \<and> load_at w' a = 0 \<and> (\<exists>i. hm_get (cp_circuits p') i = Some a)))"
proof -
  have wf: "hm_wf (cp_circuits p)" using assms(1) by (simp add: pool_inv_def)
  show ?thesis
  proof (cases "best_ready w (cp_circuits p) None")
    case None
    then have none: "\<not> (\<exists>i a. hm_get (cp_circuits p) i = Some a \<and> ready_at w a)"
      using hm_get_in_set [OF wf] by (auto simp: best_ready_None)
    show ?thesis
    proof (cases "cp_build_circuit e (p, w)")
      case (fields b p1 w1)
      show ?thesis
      proof (cases b)
        case (Inl er)
        with None none fields assms(2) show ?thesis by (auto simp: cp_select_circuit_def)
      next
        case (Inr x)
        obtain cid rd where x: "x = (cid, rd)" by force
        note bf = build_fields [of e p w cid rd p1 w1]
        have "hm_get (cp_circuits p1) cid = Some (length (pw_store w))" using bf fields Inr x by simp
        moreover have "ready_at w1 (length (pw_store w)) \<and> load_at w1 (length (pw_store w)) = 0"
          using bf fields Inr x by (auto simp: ci_active_stream_count_def)
        ultimately show ?thesis
          using None none fields assms(2) Inr x built_after_build [of e p w cid rd p1 w1]
          by (auto simp: cp_select_circuit_def)
      qed
    qed
  next
    case (Some y)
    obtain i n where y: "y = (i, n)" by force
    note b = best_ready_Some [OF Some [unfolded y]]
    then obtain a where a: "hm_get (cp_circuits p) i = Some a" "ready_at w a" "n = load_at w a"
      using hm_get_in_set [OF wf] by auto
    have "load_at w a \<le> load_at w c" if "hm_get (cp_circuits p) j = Some c" "ready_at w c" for j c
      using b a(3) that hm_get_in_set [OF wf] by fastforce
    with Some y a assms(2) show ?thesis by (auto simp: cp_select_circuit_def)
  qed
qed

section \<open>Expiry\<close>

text \<open>One id of the list: its circuit turns dirty exactly when it is ready.\<close>

lemma expire_fold:
  assumes "pool_inv (p, w)" "distinct is" "fold expire_one is (out, (p, w)) = (aged, (p', w'))"
  shows "aged = out @ filter (\<lambda>i. \<exists>a. hm_get (cp_circuits p) i = Some a \<and> ready_at w a) is \<and>
    cp_circuits p' = cp_circuits p \<and> length (pw_store w') = length (pw_store w) \<and>
    (\<forall>j b. hm_get (cp_circuits p) j = Some b \<longrightarrow> pw_store w' ! b =
       (if j \<in> set is \<and> ready_at w b then (pw_store w ! b)\<lparr>ci_state := CDirty\<rparr> else pw_store w ! b))"
  using assms
proof (induction "is" arbitrary: out p w)
  case (Cons i "is")
  obtain out1 p1 w1 where one: "expire_one i (out, (p, w)) = (out1, (p1, w1))" by (metis prod_cases3)
  have inv: "pool_inv (p1, w1)" using pool_inv_expire_one [of "(out, (p, w))" i] Cons.prems(1) one by simp
  have rest: "fold expire_one is (out1, (p1, w1)) = (aged, (p', w'))" using Cons.prems(3) one by simp
  note IH = Cons.IH [OF inv _ rest]
  show ?case
  proof (cases "\<exists>a. hm_get (cp_circuits p) i = Some a \<and> ready_at w a")
    case True
    then obtain a where a: "hm_get (cp_circuits p) i = Some a" "ready_at w a" by blast
    have l: "a < length (pw_store w)" using a Cons.prems(1) by (simp add: pool_inv_def)
    have 1: "out1 = out @ [i]" "cp_circuits p1 = cp_circuits p"
      "pw_store w1 = (pw_store w)[a := (pw_store w ! a)\<lparr>ci_state := CDirty\<rparr>]"
      using one a by (auto simp: expire_one_def set_state_def)
    have at: "pw_store w1 ! b = (if j = i then (pw_store w ! b)\<lparr>ci_state := CDirty\<rparr> else pw_store w ! b)"
      if "hm_get (cp_circuits p) j = Some b" for j b
    proof (cases "j = i")
      case False
      with pool_addresses_inject [OF Cons.prems(1) a(1), of j] that have "a \<noteq> b" by auto
      with False show ?thesis by (simp add: 1(3))
    qed (use that a(1) l in \<open>simp add: 1(3)\<close>)
    have "filter (\<lambda>j. \<exists>b. hm_get (cp_circuits p) j = Some b \<and> ready_at w1 b) is =
        filter (\<lambda>j. \<exists>b. hm_get (cp_circuits p) j = Some b \<and> ready_at w b) is"
      by (rule filter_cong [OF refl]) (use at Cons.prems(2) in \<open>auto split: if_splits\<close>)
    with IH Cons.prems(2) 1 a at show ?thesis by auto
  next
    case False
    then have "out1 = out" "p1 = p" "w1 = w" using one by (auto simp: expire_one_def split: option.splits if_splits)
    with IH Cons.prems(2) False show ?thesis by auto
  qed
qed simp

text \<open>
  Expiry: exactly the ready circuits whose age has reached the maximum are returned, each
  once; they turn dirty and keep their streams and keys, every other circuit is untouched,
  and none leaves the pool.
\<close>

theorem expire_exact:
  assumes "pool_inv (p, w)" "cp_expire_aged_circuits now (p, w) = (aged, (p', w'))"
  shows "distinct aged \<and> cp_circuits p' = cp_circuits p \<and>
    (\<forall>i. i \<in> set aged \<longleftrightarrow> (\<exists>a t. hm_get (cp_circuits p) i = Some a \<and> ready_at w a \<and>
       hm_get (cp_ages p) i = Some t \<and> cp_max_age p \<le> now - t)) \<and>
    (\<forall>i a. hm_get (cp_circuits p) i = Some a \<longrightarrow> pw_store w' ! a =
       (if i \<in> set aged then (pw_store w ! a)\<lparr>ci_state := CDirty\<rparr> else pw_store w ! a))"
proof -
  have ages: "hm_wf (cp_ages p)" using assms(1) by (simp add: pool_inv_def)
  then have d: "distinct (expired_ids now p)"
    by (simp add: expired_ids_def hm_wf_def distinct_map_filter)
  have mem: "i \<in> set (expired_ids now p) \<longleftrightarrow> (\<exists>t. hm_get (cp_ages p) i = Some t \<and> cp_max_age p \<le> now - t)" for i
    using hm_get_in_set [OF ages] by (force simp: expired_ids_def)
  from expire_fold [OF assms(1) d, of "[]" aged p' w'] assms(2) d mem
  show ?thesis by (auto simp: cp_expire_aged_circuits_def)
qed

section \<open>Replacement\<close>

lemma build_frame:
  assumes "pool_inv (p, w)" "cp_build_circuit e (p, w) = (r, (p', w'))" "hm_get (cp_circuits p') j = Some b"
  shows "(hm_get (cp_circuits p) j = Some b \<and> pw_store w' ! b = pw_store w ! b) \<or> ready_at w' b"
proof (cases r)
  case (Inl er)
  with assms build_error_fields [of e p w er p' w'] show ?thesis by simp
next
  case (Inr x)
  obtain cid rd where "x = (cid, rd)" by force
  with Inr assms build_fields [of e p w cid rd p' w'] show ?thesis
    by (auto simp: pool_inv_def nth_append split: if_splits)
qed

lemma build_abandoned:
  "cp_build_circuit e (p, w) = (r, (p', w')) \<Longrightarrow>
   cp_abandoned p' = cp_abandoned p \<and> cp_failure_counts p' = cp_failure_counts p \<and>
   cp_max_rebuild_attempts p' = cp_max_rebuild_attempts p"
  by (cases r) (auto dest!: build_error_fields build_fields)

lemma replace_cases:
  assumes "cp_replace_circuit e i (p, w) = (r, (p', w'))"
  obtains (built) cid rd p1 w1 where
    "cp_build_circuit e (p\<lparr>cp_circuits := hm_remove i (cp_circuits p)\<rparr>, w) = (Inr (cid, rd), (p1, w1))"
    "r = Inr (length (pw_store w), rd)" "p' = p1\<lparr>cp_failure_counts := hm_remove i (cp_failure_counts p)\<rparr>"
    "pw_store w' = pw_store w1" "hm_get (cp_circuits p') cid = Some (length (pw_store w))"
  | (failed) er p1 w1 n where
    "cp_build_circuit e (p\<lparr>cp_circuits := hm_remove i (cp_circuits p)\<rparr>, w) = (Inl er, (p1, w1))"
    "r = Inl er" "n = Suc (count_of i (cp_failure_counts p))" "pw_store w' = pw_store w1"
    "p' = p1\<lparr>cp_failure_counts := hm_insert i n (cp_failure_counts p),
       cp_abandoned := (if cp_max_rebuild_attempts p \<le> n then insert i (cp_abandoned p) else cp_abandoned p)\<rparr>"
proof -
  let ?p = "p\<lparr>cp_circuits := hm_remove i (cp_circuits p)\<rparr>"
  obtain b p1 w1 where b: "cp_build_circuit e (?p, w) = (b, (p1, w1))" by (metis prod_cases3)
  note ab = build_abandoned [OF b]
  show thesis
  proof (cases b)
    case (Inr x)
    obtain cid rd where x: "x = (cid, rd)" by force
    have bc: "built_circuit cid (p1\<lparr>cp_failure_counts := f\<rparr>) = Inr (length (pw_store w))" for f
      using built_after_build [of e ?p w cid rd p1 w1] b Inr x by (simp add: built_circuit_def)
    have get: "hm_get (cp_circuits p1) cid = Some (length (pw_store w))"
      using build_fields [of e ?p w cid rd p1 w1] b Inr x by simp
    show thesis
      by (rule built [of cid rd p1 w1])
        (use assms b Inr x bc ab get in \<open>auto simp: cp_replace_circuit_def Let_def\<close>)
  next
    case (Inl er)
    show thesis
      by (rule failed [of er p1 w1]) (use assms b Inl ab in \<open>auto simp: cp_replace_circuit_def Let_def split: if_splits\<close>)
  qed
qed


section \<open>A round of the monitor\<close>

lemma replace_frame:
  assumes "pool_inv (p, w)" "cp_replace_circuit e i (p, w) = (r, (p', w'))"
  shows "cp_abandoned p \<subseteq> cp_abandoned p' \<and> (\<forall>j b. hm_get (cp_circuits p') j = Some b \<longrightarrow>
    (hm_get (cp_circuits p) j = Some b \<and> j \<noteq> i \<and> pw_store w' ! b = pw_store w ! b) \<or> ready_at w' b)"
  using assms(2)
proof (cases rule: replace_cases)
  case (built cid rd p1 w1)
  have "(hm_get (cp_circuits p) j = Some b \<and> j \<noteq> i \<and> pw_store w1 ! b = pw_store w ! b) \<or> ready_at w1 b"
    if "hm_get (cp_circuits p1) j = Some b" for j b
    using build_frame [OF pool_inv_remove [OF assms(1)] built(1) that] by (auto split: if_splits)
  with built build_abandoned [OF built(1)] show ?thesis by auto
next
  case (failed er p1 w1 n)
  have "(hm_get (cp_circuits p) j = Some b \<and> j \<noteq> i \<and> pw_store w1 ! b = pw_store w ! b) \<or> ready_at w1 b"
    if "hm_get (cp_circuits p1) j = Some b" for j b
    using build_frame [OF pool_inv_remove [OF assms(1)] failed(1) that] by (auto split: if_splits)
  with failed build_abandoned [OF failed(1)] show ?thesis by auto
qed

text \<open>What a round still has to do: the closed circuits that are not abandoned.\<close>

definition unhandled :: "u32 set \<Rightarrow> pool_state \<Rightarrow> bool" where
  "unhandled left st = (\<forall>j b. hm_get (cp_circuits (fst st)) j = Some b \<longrightarrow>
     (ci_state (pw_store (snd st) ! b) = CClosed \<longrightarrow> j \<in> left \<or> j \<in> cp_abandoned (fst st)) \<and>
     (ci_state (pw_store (snd st) ! b) = CDirty \<longrightarrow> ci_active_stream_count (pw_store (snd st) ! b) \<noteq> 0))"

lemma monitor_replace_progress:
  assumes "pool_inv st" "unhandled (insert i left) st" "monitor_replace e ci i st = Some (t, st')"
  shows "unhandled left st'"
proof (cases "cp_is_abandoned i (fst st)")
  case True
  with assms show ?thesis by (auto simp: monitor_replace_def unhandled_def cp_is_abandoned_def)
next
  case False
  obtain p w where st: "st = (p, w)" by force
  obtain r p1 w1 where r: "cp_replace_circuit e i (p, w) = (r, (p1, w1))" by (metis prod_cases3)
  have "cp_circuits (fst st') = cp_circuits p1 \<and> cp_abandoned (fst st') = cp_abandoned p1 \<and> pw_store (snd st') = pw_store w1"
    using assms(3) False r by (auto simp: monitor_replace_def st spawn_reader_def split: option.splits sum.splits)
  with replace_frame [OF assms(1) [unfolded st] r] assms(2) show ?thesis
    by (fastforce simp: unhandled_def st)
qed

lemma monitor_replace_all_progress:
  "pool_inv st \<Longrightarrow> unhandled (set is) st \<Longrightarrow> monitor_replace_all e ci is st = Some (t, st') \<Longrightarrow>
   pool_inv st' \<and> unhandled {} st'"
proof (induction "is" arbitrary: st t)
  case (Cons i "is")
  obtain t1 st1 t2 where 1: "monitor_replace e ci i st = Some (t1, st1)" "monitor_replace_all e ci is st1 = Some (t2, st')"
    using Cons.prems(3) by (auto split: option.splits)
  have "unhandled (insert i (set is)) st" using Cons.prems(2) by simp
  from Cons.IH [OF pool_inv_monitor_replace [OF Cons.prems(1) 1(1)]
      monitor_replace_progress [OF Cons.prems(1) this 1(1)] 1(2)] show ?case .
qed simp

lemma sweep_unhandled:
  assumes "pool_inv st"
  shows "unhandled (set (ids_in_state CClosed (monitor_sweep st))) (monitor_sweep st)"
proof -
  obtain p w where st: "st = (p, w)" by force
  have wf: "hm_wf (cp_circuits p)" using assms by (simp add: pool_inv_def st)
  have fold_wf: "hm_wf (fold hm_remove is m)" if "hm_wf m" for "is" and m :: "(u32, nat) hmap"
    using that by (induction "is" arbitrary: m) simp_all
  have get: "hm_get (fold hm_remove is m) j = (if j \<in> set is then None else hm_get m j)" for "is" j and m :: "(u32, nat) hmap"
    by (induction "is" arbitrary: m) auto
  let ?cs = "fold hm_remove (idle_dirty_ids (p, w)) (cp_circuits p)"
  have idle: "j \<in> set (idle_dirty_ids (p, w))"
    if "hm_get (cp_circuits p) j = Some b" "ci_state (pw_store w ! b) = CDirty" "load_at w b = 0" for j b
    using that hm_get_in_set [OF wf] by (force simp: idle_dirty_ids_def)
  have closed: "j \<in> fst ` {x \<in> set ?cs. ci_state (pw_store w ! snd x) = CClosed}"
    if "hm_get ?cs j = Some b" "ci_state (pw_store w ! b) = CClosed" for j b
    using that hm_get_in_set [OF fold_wf [OF wf]] by force
  show ?thesis
    unfolding unhandled_def st monitor_sweep_def ids_in_state_def fst_conv snd_conv
    using idle closed by (force simp: get split: if_splits)
qed

text \<open>
  C26. A round of the monitor, undisturbed: afterwards every closed circuit still in the pool
  is in an abandoned slot, every dirty circuit still has streams, and the pool is
  consistent.
\<close>

theorem monitor_turn_heals:
  assumes "pool_inv st" "monitor_turn e now ci st = Some (t, st')"
  shows "pool_inv st' \<and> (\<forall>i a. hm_get (cp_circuits (fst st')) i = Some a \<longrightarrow>
    (ci_state (pw_store (snd st') ! a) = CClosed \<longrightarrow> cp_is_abandoned i (fst st')) \<and>
    (ci_state (pw_store (snd st') ! a) = CDirty \<longrightarrow> ci_active_stream_count (pw_store (snd st') ! a) \<noteq> 0))"
proof -
  obtain aged st1 where x: "cp_expire_aged_circuits now st = (aged, st1)" by (metis surj_pair)
  have 1: "pool_inv st1" using pool_inv_expire [OF assms(1), of now] x by simp
  have "pool_inv ((monitor_build e ^^ n) st1)" for n by (induction n) (auto intro: 1 pool_inv_monitor_build)
  then have 2: "pool_inv ((monitor_build e ^^ length aged) st1)" .
  let ?st = "monitor_sweep ((monitor_build e ^^ length aged) st1)"
  obtain t' where "monitor_replace_all e ci (ids_in_state CClosed ?st) ?st = Some (t', st')"
    using assms(2) x by (auto simp: monitor_turn_def Let_def)
  from monitor_replace_all_progress [OF pool_inv_sweep [OF 2] sweep_unhandled [OF 2] this]
  show ?thesis by (simp add: unhandled_def cp_is_abandoned_def)
qed

lemma monitor_backoff_value:
  "monitor_backoff f = (if f < 62 then Some (min (5 * 2 ^ f) 60) else None)"
proof (cases "f < 62")
  case True
  then have "(2 :: nat) ^ f \<le> 2 ^ 61" by (intro power_increasing) simp_all
  then have "5 * 2 ^ f < (2 :: nat) ^ 64" by simp
  with True show ?thesis by (simp add: monitor_backoff_def)
next
  case False
  then have "(2 :: nat) ^ 62 \<le> 2 ^ f" by (intro power_increasing) simp_all
  then have "\<not> 5 * 2 ^ f < (2 :: nat) ^ 64" by simp
  with False show ?thesis by (simp only: monitor_backoff_def if_False simp_thms)
qed


section \<open>Witnesses\<close>

text \<open>Two ready circuits, the first with a stream and ten minutes old; the directory is down.\<close>

definition sample_pool :: pool_state where
  "sample_pool =
     ((cp_new 2 3 1)\<lparr>cp_circuits := [(7, 0), (8, 1)], cp_next_circuit_id := 9, cp_ages := [(7, 0), (8, 5)], cp_max_age := 600\<rparr>,
      \<lparr>pw_store = [sample_circuit\<lparr>ci_circuit_id := 7, ci_stream_senders := [(1, 0)]\<rparr>, sample_circuit\<lparr>ci_circuit_id := 8\<rparr>],
       pw_metrics = client_metrics_new 0, pw_readers = [], pw_builds = 0\<rparr>)"

definition sample_pool_env :: pool_env where
  "sample_pool_env = \<lparr>pe_prims = toy_prims, pe_path = (\<lambda>i h. Inl IoErr), pe_net = (\<lambda>i a. None),
     pe_secret = (\<lambda>i j. replicate 32 9), pe_clock = (\<lambda>i. 0), pe_error_text = (\<lambda>e. ''unreachable'')\<rparr>"

lemma sample_pool_inv: "pool_inv (fst sample_pool, snd sample_pool)"
  by (auto simp: pool_inv_def sample_pool_def cp_new_def hm_wf_def hm_get_def nth_Cons' split: if_splits)

lemma sample_pool_fields:
  "hm_get (cp_circuits (fst sample_pool)) i = Some a \<longleftrightarrow> i = 7 \<and> a = 0 \<or> i = 8 \<and> a = 1"
  "hm_get (cp_ages (fst sample_pool)) i = Some a \<longleftrightarrow> i = 7 \<and> a = 0 \<or> i = 8 \<and> a = 5"
  "ready_at (snd sample_pool) 0" "ready_at (snd sample_pool) 1" "load_at (snd sample_pool) 1 = 0"
  "load_at (snd sample_pool) 0 = 1" "cp_max_age (fst sample_pool) = 600"
  by (auto simp: sample_pool_def hm_get_def sample_circuit_def ci_active_stream_count_def cp_new_def)

theorem pool_reachable_consistent_witness:
  "ci_circuit_id (pw_store (keepalive_one (\<lambda>n. 0) (\<lambda>i. 0) 0 (snd sample_pool)) ! 0) = 7"
proof -
  have "pool_step\<^sup>*\<^sup>* (fst sample_pool, snd sample_pool) (fst sample_pool, keepalive_one (\<lambda>n. 0) (\<lambda>i. 0) 0 (snd sample_pool))"
    by (rule r_into_rtranclp) (rule Keepalive)
  from pool_reachable_consistent [OF sample_pool_inv this, of 7 0 7 0] show ?thesis by (simp add: sample_pool_fields)
qed

theorem select_least_loaded_witness:
  "\<exists>r p w. cp_select_circuit sample_pool_env (fst sample_pool, snd sample_pool) = (r, (p, w)) \<and> (\<exists>a. r = Inr (a, None) \<and> load_at w a = 0)"
proof -
  obtain r p w where run: "cp_select_circuit sample_pool_env (fst sample_pool, snd sample_pool) = (r, (p, w))" by (metis prod_cases3)
  have some: "hm_get (cp_circuits (fst sample_pool)) 8 = Some 1" by (simp add: sample_pool_fields)
  then have "\<exists>i a. hm_get (cp_circuits (fst sample_pool)) i = Some a \<and> ready_at (snd sample_pool) a"
    using sample_pool_fields(4) by blast
  with select_least_loaded [OF sample_pool_inv run] obtain a where "w = snd sample_pool" "r = Inr (a, None)"
    "\<forall>j b. hm_get (cp_circuits (fst sample_pool)) j = Some b \<and> ready_at (snd sample_pool) b \<longrightarrow>
       load_at (snd sample_pool) a \<le> load_at (snd sample_pool) b" by auto
  moreover from this(3) have "load_at (snd sample_pool) a \<le> 0" using some sample_pool_fields(4,5) by metis
  ultimately show ?thesis using run by auto
qed

theorem expire_exact_witness:
  "\<exists>aged st. cp_expire_aged_circuits 600 (fst sample_pool, snd sample_pool) = (aged, st) \<and> set aged = {7}"
proof -
  obtain aged p w where run: "cp_expire_aged_circuits 600 (fst sample_pool, snd sample_pool) = (aged, (p, w))" by (metis prod_cases3)
  have "i \<in> set aged \<longleftrightarrow> (\<exists>a t. hm_get (cp_circuits (fst sample_pool)) i = Some a \<and> ready_at (snd sample_pool) a \<and>
      hm_get (cp_ages (fst sample_pool)) i = Some t \<and> cp_max_age (fst sample_pool) \<le> 600 - t)" for i
    using expire_exact [OF sample_pool_inv run] by blast
  then have "i \<in> set aged \<longleftrightarrow> i = 7" for i
    unfolding sample_pool_fields using sample_pool_fields(3) by (cases "i = 7") auto
  then have "set aged = {7}" by blast
  with run show ?thesis by blast
qed


theorem monitor_turn_heals_witness:
  "\<exists>t st. monitor_turn sample_pool_env 600 5 (fst sample_pool, snd sample_pool) = Some (t, st) \<and> pool_inv st"
proof -
  have "monitor_turn sample_pool_env 600 5 (fst sample_pool, snd sample_pool) \<noteq> None"
    by (simp add: monitor_turn_def cp_expire_aged_circuits_def expired_ids_def sample_pool_def cp_new_def hm_get_def
      expire_one_def sample_circuit_def set_state_def monitor_build_def cp_build_circuit_def cp_allocate_circuit_id_def
      sample_pool_env_def monitor_sweep_def idle_dirty_ids_def ids_in_state_def ci_active_stream_count_def Let_def hm_remove_def)
  then obtain t st where run: "monitor_turn sample_pool_env 600 5 (fst sample_pool, snd sample_pool) = Some (t, st)" by auto
  with monitor_turn_heals [OF sample_pool_inv run] show ?thesis by blast
qed


end
