(* ===== verification/Client_Stream.thy ===== *)
theory Client_Stream
  imports Client_Pool
begin

text \<open>
  A SOCKS5 stream over a circuit (\<open>tor-client/src/core/stream.rs\<close>) and the connection that
  opens it (\<open>handle_connection\<close> in \<open>tor-client/src/client/socks_proxy.rs\<close>). A stream task
  is a state machine that shares the circuit, the channels and the metrics with the other
  tasks of the client; each step holds the locks the code holds. What the select of the
  task sees next, and whether the SOCKS5 socket takes what is written, are events. The
  SOCKS5 messages themselves are the library's.
\<close>

section \<open>State\<close>

definition SOCKS5_READ_BUF_SIZE :: nat where "SOCKS5_READ_BUF_SIZE = 4096"

text \<open>Seconds.\<close>

definition CONNECTED_TIMEOUT :: nat where "CONNECTED_TIMEOUT = 30"

datatype socks_rep = RepSucceeded | RepGeneralFailure | RepCommandNotSupported

datatype stream_phase = SOpening | SWaiting | SRelaying | SDone "any_error + unit"

record stream_task =
  sm_phase :: stream_phase
  sm_circuit_id :: u32
  sm_stream_id :: u16
  sm_chan :: nat
  sm_destination :: string
  sm_written :: bytes           \<comment> \<open>to the SOCKS5 client\<close>
  sm_replies :: "socks_rep list"
  sm_shutdown :: bool

type_synonym stream_state = "stream_task \<times> client_end"

definition stream_new :: "string \<Rightarrow> stream_task" where
  "stream_new dest = \<lparr>sm_phase = SOpening, sm_circuit_id = 0, sm_stream_id = 0, sm_chan = 0, sm_destination = dest,
     sm_written = [], sm_replies = [], sm_shutdown = False\<rparr>"

text \<open>A receive on a channel that does not wait: a message, the end, or nothing yet.\<close>

datatype received = Received message | ChannelEnded | NothingYet

definition chan_recv :: "nat \<Rightarrow> channel list \<Rightarrow> received \<times> channel list" where
  "chan_recv a chs =
     (case chan_queue (chs ! a) of
        m # q \<Rightarrow> (Received m, chs[a := (chs ! a)\<lparr>chan_queue := q\<rparr>])
      | [] \<Rightarrow> (if chan_sender (chs ! a) then NothingYet else ChannelEnded, chs))"

definition ce_send :: "prims \<Rightarrow> u16 \<Rightarrow> message_command \<Rightarrow> bytes \<Rightarrow> client_end \<Rightarrow> (any_error + unit) \<times> client_end" where
  "ce_send P sid cmd d ce =
     (let (r, c) = ci_send_message P sid cmd d (ce_circuit ce) in (r, ce\<lparr>ce_circuit := c\<rparr>))"

definition ce_event :: "nat \<Rightarrow> client_event \<Rightarrow> client_end \<Rightarrow> client_end" where
  "ce_event now k ce = ce\<lparr>ce_metrics := cm_push_event now k (ce_metrics ce)\<rparr>"

section \<open>Steps\<close>

text \<open>The task returns: its receiver goes.\<close>

definition stream_return :: "any_error + unit \<Rightarrow> stream_state \<Rightarrow> stream_state" where
  "stream_return r st =
     (let (t, ce) = st; chs = ce_channels ce
      in (t\<lparr>sm_phase := SDone r\<rparr>,
          ce\<lparr>ce_channels := chs[sm_chan t := (chs ! sm_chan t)\<lparr>chan_receiver := False\<rparr>]\<rparr>))"

text \<open>\<open>cleanup_stream\<close>: END if it can be sent, unregister, shut the socket down.\<close>

definition cleanup_stream :: "prims \<Rightarrow> stream_state \<Rightarrow> stream_state" where
  "cleanup_stream P st =
     (let (t, ce) = st; sid = sm_stream_id t;
          (r, ce) = ce_send P sid End [] ce;
          (c, chs) = ci_unregister_stream sid (ce_circuit ce, ce_channels ce)
      in (t\<lparr>sm_shutdown := True\<rparr>, ce\<lparr>ce_circuit := c, ce_channels := chs\<rparr>))"

text \<open>A new channel, a new id, BEGIN. A failed send returns at once, without cleanup.\<close>

definition stream_open_step :: "prims \<Rightarrow> nat \<Rightarrow> stream_state \<Rightarrow> stream_state" where
  "stream_open_step P now st =
     (let (t, ce) = st; a = length (ce_channels ce);
          chs = ce_channels ce @ [\<lparr>chan_queue = [], chan_sender = True, chan_receiver = True\<rparr>];
          (sid, c) = ci_allocate_stream_id (ce_circuit ce);
          (c, chs) = ci_register_stream sid a (c, chs);
          cid = ci_circuit_id c;
          t = t\<lparr>sm_circuit_id := cid, sm_stream_id := sid, sm_chan := a\<rparr>;
          ce = ce\<lparr>ce_circuit := c, ce_channels := chs\<rparr>
      in case ce_send P sid Begin (str_bytes (sm_destination t @ [CHR 0x00])) ce of
           (Inl er, ce) \<Rightarrow> stream_return (Inl (Msg ''Failed to send BEGIN message'')) (t, ce)
         | (Inr _, ce) \<Rightarrow> (t\<lparr>sm_phase := SWaiting\<rparr>, ce_event now (StreamBegin cid sid (sm_destination t)) ce))"

text \<open>
  Waiting for CONNECTED: \<open>timed_out\<close> says that the timeout fires first, \<open>reply_ok\<close> that the
  success reply can be written to the SOCKS5 client.
\<close>

definition stream_wait_step :: "prims \<Rightarrow> nat \<Rightarrow> bool \<Rightarrow> bool \<Rightarrow> stream_state \<Rightarrow> stream_state" where
  "stream_wait_step P now timed_out reply_ok st =
     (let (t, ce) = st; sid = sm_stream_id t; finish = (\<lambda>er. stream_return (Inl (Msg er))) in
      if timed_out
      then finish (''Timed out waiting for CONNECTED on stream '' @ show_u16 sid @ '' ('' @ show_nat CONNECTED_TIMEOUT @ ''s)'')
             (cleanup_stream P (t, ce))
      else case chan_recv (sm_chan t) (ce_channels ce) of
        (NothingYet, chs) \<Rightarrow> (t, ce)
      | (ChannelEnded, chs) \<Rightarrow>
          finish (''Circuit closed before CONNECTED received for stream '' @ show_u16 sid) (cleanup_stream P (t, ce))
      | (Received m, chs) \<Rightarrow>
          let ce = ce\<lparr>ce_channels := chs\<rparr> in
          if command m \<noteq> Connected
          then finish (''Expected CONNECTED for stream '' @ show_u16 sid @ '', got '' @ show_command (command m))
                 (cleanup_stream P (t\<lparr>sm_replies := sm_replies t @ [RepGeneralFailure]\<rparr>, ce))
          else let ce = ce_event now (StreamConnected (sm_circuit_id t) sid) ce
               in if \<not> reply_ok then finish ''Failed to send SOCKS5 success reply'' (t, ce)
                  else (t\<lparr>sm_replies := sm_replies t @ [RepSucceeded], sm_phase := SRelaying\<rparr>, ce))"

datatype stream_event =
    ClientClosed
  | ClientData bytes
  | ClientReadError
  | ClientIdle
  | CircuitMessage bool  \<comment> \<open>the channel is ready; whether the SOCKS5 client takes the data\<close>

text \<open>One DATA cell per chunk, until a send fails.\<close>

fun send_chunks :: "prims \<Rightarrow> u16 \<Rightarrow> bytes list \<Rightarrow> client_end \<Rightarrow> bool \<times> client_end" where
  "send_chunks P sid [] ce = (True, ce)"
| "send_chunks P sid (ch # chs) ce =
     (case ce_send P sid Data ch ce of
        (Inr _, ce) \<Rightarrow> send_chunks P sid chs ce
      | (Inl er, ce) \<Rightarrow> (False, ce))"

text \<open>One turn of the select loop: whether it goes on.\<close>

definition stream_turn :: "prims \<Rightarrow> nat \<Rightarrow> stream_event \<Rightarrow> stream_state \<Rightarrow> bool \<times> stream_state" where
  "stream_turn P now ev st =
     (let (t, ce) = st; cid = sm_circuit_id t; sid = sm_stream_id t in
      case ev of
        ClientClosed \<Rightarrow> (False, st)
      | ClientData buf \<Rightarrow>
          (case send_chunks P sid (chunks MAX_PAYLOAD_SIZE buf) ce of
             (False, ce) \<Rightarrow> (False, (t, ce))
           | (True, ce) \<Rightarrow>
               (True, (t, ce_event now (ClientStreamData cid sid (length buf) Forward)
                 (ce\<lparr>ce_metrics := (ce_metrics ce)
                   \<lparr>cm_bytes_sent := cm_bytes_sent (ce_metrics ce) + word_of_nat (length buf)\<rparr>\<rparr>))))
      | ClientReadError \<Rightarrow> (False, st)
      | ClientIdle \<Rightarrow> (False, st)
      | CircuitMessage ok \<Rightarrow>
          (case chan_recv (sm_chan t) (ce_channels ce) of
             (NothingYet, chs) \<Rightarrow> (True, st)
           | (ChannelEnded, chs) \<Rightarrow> (False, st)
           | (Received m, chs) \<Rightarrow>
               let ce = ce\<lparr>ce_channels := chs\<rparr> in
               if command m = Data
               then if ok then (True, (t\<lparr>sm_written := sm_written t @ data m\<rparr>, ce)) else (False, (t, ce))
               else if command m = End then (False, (t, ce))
               else (True, (t, ce))))"

definition stream_relay_step :: "prims \<Rightarrow> nat \<Rightarrow> stream_event \<Rightarrow> stream_state \<Rightarrow> stream_state" where
  "stream_relay_step P now ev st =
     (case stream_turn P now ev st of
        (True, st) \<Rightarrow> st
      | (False, st) \<Rightarrow>
          let (t, ce) = cleanup_stream P st
          in stream_return (Inr ()) (t, ce_event now (StreamEnd (sm_circuit_id t) (sm_stream_id t)) ce))"

section \<open>The SOCKS5 connection\<close>

text \<open>
  What the library makes of the connection: no authentication, no request, or a request with
  its command (whether it is CONNECT, and its text) and its destination.
\<close>

datatype socks_request = AuthFailed | RequestFailed | Request bool string string

text \<open>Up to the circuit: an error, or the circuit's address and the destination.\<close>

definition socks_connect ::
  "pool_env \<Rightarrow> nat \<Rightarrow> socket_addr \<Rightarrow> socks_request \<Rightarrow> pool_state \<Rightarrow> (any_error + nat \<times> string) \<times> socks_rep list \<times> pool_state"
where
  "socks_connect e now peer req st =
     (case req of
        AuthFailed \<Rightarrow> (Inl (Msg ''SOCKS5 authentication failed''), [], st)
      | RequestFailed \<Rightarrow> (Inl (Msg ''Failed to read SOCKS5 connection request''), [], st)
      | Request connect cmd dest \<Rightarrow>
          if \<not> connect then (Inl (Msg (''Unsupported SOCKS5 command: '' @ cmd)), [RepCommandNotSupported], st)
          else let (p, w) = st; w = pw_update True (cm_push_event now (Socks5Accept peer dest)) w
               in case cp_select_circuit e (p, w) of
                    (Inl er, st) \<Rightarrow> (Inl (Msg ''Failed to select circuit''), [], st)
                  | (Inr (a, rd), st) \<Rightarrow>
                      (Inr (a, dest), [], case rd of None \<Rightarrow> st | Some rd \<Rightarrow> spawn_reader a rd st))"

text \<open>After the stream: a failed stream on a closed circuit has the circuit replaced.\<close>

definition socks_finish :: "pool_env \<Rightarrow> nat \<Rightarrow> nat \<Rightarrow> any_error + unit \<Rightarrow> pool_state \<Rightarrow> pool_state" where
  "socks_finish e now a r st =
     (case r of
        Inr _ \<Rightarrow> st
      | Inl er \<Rightarrow>
          let (p, w) = st;
              w = pw_update True (cm_push_event now (ClientError (''Stream processing failed: '' @ pe_error_text e er))) w;
              c = pw_store w ! a
          in if ci_state c \<noteq> CClosed then (p, w)
             else case cp_replace_circuit e (ci_circuit_id c) (p, w) of
               (Inr (b, rd), st) \<Rightarrow> spawn_reader b rd st
             | (Inl er2, (p, w)) \<Rightarrow>
                 (p, pw_update True (cm_push_event now (ClientError (''Circuit replacement failed: '' @ (case er2 of Msg s \<Rightarrow> s | other \<Rightarrow> pe_error_text e other)))) w))"

section \<open>What a stream does\<close>

lemma ce_send_frame:
  assumes "ce_send P sid cmd d ce = (r, ce')"
  shows "ce_channels ce' = ce_channels ce \<and> ce_metrics ce' = ce_metrics ce \<and>
    ci_stream_senders (ce_circuit ce') = ci_stream_senders (ce_circuit ce) \<and>
    ci_circuit_id (ce_circuit ce') = ci_circuit_id (ce_circuit ce) \<and>
    ci_state (ce_circuit ce') = ci_state (ce_circuit ce) \<and>
    ci_next_stream_id (ce_circuit ce') = ci_next_stream_id (ce_circuit ce)"
  using assms by (auto simp: ce_send_def ci_send_message_def Let_def split: prod.splits sum.splits)

lemma ce_send_ok:
  assumes "wr_room (ci_entry_writer (ce_circuit ce)) = None" "length d \<le> MAX_PAYLOAD_SIZE"
  shows "\<exists>ce'. ce_send P sid cmd d ce = (Inr (), ce') \<and> wr_room (ci_entry_writer (ce_circuit ce')) = None"
proof -
  let ?c = "ce_circuit ce"
  obtain tag fd where tag: "rd_update P (ok_forward_digest (ci_onion_keys ?c)) sid (to_u8 cmd) d = (tag, fd)" by force
  obtain x k where enc: "onion_encrypt P ((ci_onion_keys ?c)\<lparr>ok_forward_digest := fd\<rparr>) d = (x, k)" by force
  have "length x = length d" using onion_forward [OF enc] by simp
  moreover have "length tag = 4"
    using length_rd_update [of P "ok_forward_digest (ci_onion_keys ?c)" sid "to_u8 cmd" d] tag by simp
  ultimately have "msg_fits ((msg_new (ci_circuit_id ?c) sid cmd x)\<lparr>digest := tag\<rparr>)"
    using assms(2) by (simp add: msg_fits_def msg_wf_def msg_new_def)
  from write_to_stream_ok [OF this assms(1)] assms(1) show ?thesis
    by (simp add: ce_send_def ci_send_message_def tag enc)
qed

lemma stream_open_ok:
  assumes "wr_room (ci_entry_writer (ce_circuit ce)) = None" "length (sm_destination t) < MAX_PAYLOAD_SIZE"
    and "stream_open_step P now (t, ce) = (t', ce')"
  shows "sm_phase t' = SWaiting"
proof -
  have len: "length (str_bytes (sm_destination t @ [CHR 0x00])) \<le> MAX_PAYLOAD_SIZE"
    using assms(2) by (simp add: str_bytes_def)
  obtain sid c where al: "ci_allocate_stream_id (ce_circuit ce) = (sid, c)" by force
  obtain c1 chs where rg: "ci_register_stream sid (length (ce_channels ce))
      (c, ce_channels ce @ [\<lparr>chan_queue = [], chan_sender = True, chan_receiver = True\<rparr>]) = (c1, chs)" by force
  have "wr_room (ci_entry_writer (ce_circuit (ce\<lparr>ce_circuit := c1, ce_channels := chs\<rparr>))) = None"
    using al rg assms(1) by (auto simp: ci_allocate_stream_id_def ci_register_stream_def Let_def)
  from ce_send_ok [OF this len, of P sid Begin] al rg assms(3) show ?thesis
    by (auto simp: stream_open_step_def Let_def)
qed

lemma cleanup_fields:
  assumes "cleanup_stream P (t, ce) = (t', ce')"
  shows "t' = t\<lparr>sm_shutdown := True\<rparr> \<and>
    ci_stream_senders (ce_circuit ce') = hm_remove (sm_stream_id t) (ci_stream_senders (ce_circuit ce)) \<and>
    ci_state (ce_circuit ce') = ci_state (ce_circuit ce) \<and> ce_metrics ce' = ce_metrics ce"
  using assms ce_send_frame [of P "sm_stream_id t" End "[]" ce]
  by (auto simp: cleanup_stream_def ci_unregister_stream_def Let_def split: prod.splits)

lemma stream_return_fields [simp]:
  "fst (stream_return r (t, ce)) = t\<lparr>sm_phase := SDone r\<rparr>"
  "ce_circuit (snd (stream_return r (t, ce))) = ce_circuit ce"
  "ce_metrics (snd (stream_return r (t, ce))) = ce_metrics ce"
  by (simp_all add: stream_return_def Let_def)

lemma ce_event_fields [simp]:
  "ce_circuit (ce_event now k ce) = ce_circuit ce" "ce_channels (ce_event now k ce) = ce_channels ce"
  by (simp_all add: ce_event_def)

text \<open>How the phases follow each other, with whatever the other tasks do in between.\<close>

inductive stream_step :: "prims \<Rightarrow> stream_state \<Rightarrow> stream_state \<Rightarrow> bool" for P where
  Open: "sm_phase t = SOpening \<Longrightarrow> stream_step P (t, ce) (stream_open_step P now (t, ce))"
| Wait: "sm_phase t = SWaiting \<Longrightarrow> stream_step P (t, ce) (stream_wait_step P now timed_out reply_ok (t, ce))"
| Relay: "sm_phase t = SRelaying \<Longrightarrow> stream_step P (t, ce) (stream_relay_step P now ev (t, ce))"
| Others: "hm_get (ci_stream_senders (ce_circuit ce')) (sm_stream_id t) = None \<or>
     hm_get (ci_stream_senders (ce_circuit ce')) (sm_stream_id t) = hm_get (ci_stream_senders (ce_circuit ce)) (sm_stream_id t) \<Longrightarrow>
   sm_phase t \<noteq> SOpening \<Longrightarrow> stream_step P (t, ce) (t, ce')"

text \<open>The two returns that skip the cleanup.\<close>

definition unclean_return :: "stream_task \<Rightarrow> bool" where
  "unclean_return t = (sm_phase t \<in> {SDone (Inl (Msg ''Failed to send BEGIN message'')), SDone (Inl (Msg ''Failed to send SOCKS5 success reply''))})"

definition stream_inv :: "stream_state \<Rightarrow> bool" where
  "stream_inv st = (let (t, ce) = st in
     (\<forall>r. sm_phase t = SDone r \<longrightarrow> unclean_return t \<or>
        (hm_get (ci_stream_senders (ce_circuit ce)) (sm_stream_id t) = None \<and> sm_shutdown t)))"

lemma stream_inv_open: "sm_phase t = SOpening \<Longrightarrow> stream_inv (stream_open_step P now (t, ce))"
  by (auto simp: stream_open_step_def stream_inv_def Let_def unclean_return_def stream_return_def
      split: prod.splits sum.splits)

lemma stream_inv_finish:
  assumes "cleanup_stream P (t, ce) = (t', ce')"
  shows "stream_inv (stream_return r (t', ce')) \<and> stream_inv (stream_return r (t', ce_event now k ce'))"
  using cleanup_fields [OF assms] by (auto simp: stream_inv_def stream_return_def Let_def)

lemma stream_inv_wait: "sm_phase t = SWaiting \<Longrightarrow> stream_inv (stream_wait_step P now timed_out reply_ok (t, ce))"
proof -
  assume ph: "sm_phase t = SWaiting"
  have fin: "stream_inv (stream_return r (cleanup_stream P st))" for r st
    using stream_inv_finish [of P "fst st" "snd st" "fst (cleanup_stream P st)" "snd (cleanup_stream P st)" r] by simp
  obtain res chs where rv: "chan_recv (sm_chan t) (ce_channels ce) = (res, chs)" by force
  show ?thesis
  proof (cases "timed_out \<or> res = ChannelEnded \<or> (\<exists>m. res = Received m \<and> command m \<noteq> Connected)")
    case True
    then show ?thesis using rv fin by (auto simp: stream_wait_step_def Let_def split: received.splits)
  next
    case False
    then show ?thesis
      using rv ph
      by (auto simp: stream_wait_step_def Let_def stream_inv_def unclean_return_def stream_return_def split: received.splits)
  qed
qed

lemma stream_turn_phase: "stream_turn P now ev (t, ce) = (b, (t', ce')) \<Longrightarrow> sm_phase t' = sm_phase t"
  by (auto simp: stream_turn_def Let_def split: stream_event.splits prod.splits bool.splits received.splits if_splits)

lemma stream_inv_relay: "sm_phase t = SRelaying \<Longrightarrow> stream_inv (stream_relay_step P now ev (t, ce))"
proof -
  assume ph: "sm_phase t = SRelaying"
  obtain b t1 ce1 where turn: "stream_turn P now ev (t, ce) = (b, (t1, ce1))" by (metis prod_cases3)
  obtain t2 ce2 where clean: "cleanup_stream P (t1, ce1) = (t2, ce2)" by force
  show ?thesis
    using turn stream_turn_phase [OF turn] ph clean stream_inv_finish [OF clean]
    by (cases b) (simp_all add: stream_relay_step_def stream_inv_def [of "(t1, ce1)"])
qed

lemma stream_inv_step: "stream_step P st st' \<Longrightarrow> stream_inv st \<Longrightarrow> stream_inv st'"
proof (induction rule: stream_step.induct)
  case (Others ce' t ce)
  then show ?case by (auto simp: stream_inv_def)
qed (auto intro: stream_inv_open stream_inv_wait stream_inv_relay)

lemma stream_inv_reachable: "(stream_step P)\<^sup>*\<^sup>* st st' \<Longrightarrow> stream_inv st \<Longrightarrow> stream_inv st'"
  by (induction rule: rtranclp_induct) (auto intro: stream_inv_step)



text \<open>Without the cleanup the id stays registered: nothing removes it while the circuit lives.\<close>

lemma failed_begin_leaks:
  assumes "stream_open_step P now (stream_new dest, ce) = (t, ce')" "sm_phase t = SDone r"
  shows "hm_get (ci_stream_senders (ce_circuit ce')) (sm_stream_id t) = Some (sm_chan t) \<and> \<not> sm_shutdown t"
proof -
  obtain sid c where al: "ci_allocate_stream_id (ce_circuit ce) = (sid, c)" by force
  obtain c1 chs where rg: "ci_register_stream sid (length (ce_channels ce))
      (c, ce_channels ce @ [\<lparr>chan_queue = [], chan_sender = True, chan_receiver = True\<rparr>]) = (c1, chs)" by force
  have get: "hm_get (ci_stream_senders c1) sid = Some (length (ce_channels ce))"
    using rg by (auto simp: ci_register_stream_def)
  obtain q ce2 where s: "ce_send P sid Begin (str_bytes (dest @ [CHR 0x00])) (ce\<lparr>ce_circuit := c1, ce_channels := chs\<rparr>) = (q, ce2)"
    by force
  from ce_send_frame [OF s] get assms al rg s show ?thesis
    by (auto simp: stream_open_step_def stream_new_def Let_def stream_return_def ce_event_def split: sum.splits)
qed

section \<open>Download\<close>

text \<open>Turns on the channel while the loop goes on and the SOCKS5 client takes everything.\<close>

fun stream_drain :: "nat \<Rightarrow> prims \<Rightarrow> nat \<Rightarrow> stream_state \<Rightarrow> bool \<times> stream_state" where
  "stream_drain 0 P now st = (True, st)"
| "stream_drain (Suc n) P now st =
     (case stream_turn P now (CircuitMessage True) st of
        (True, st) \<Rightarrow> stream_drain n P now st
      | (False, st) \<Rightarrow> (False, st))"

lemma stream_turn_message:
  assumes "chan_queue (ce_channels ce ! sm_chan t) = m # q"
  shows "stream_turn P now (CircuitMessage True) (t, ce) =
    (command m \<noteq> End,
     (if command m = Data then t\<lparr>sm_written := sm_written t @ data m\<rparr> else t,
      ce\<lparr>ce_channels := (ce_channels ce)[sm_chan t := (ce_channels ce ! sm_chan t)\<lparr>chan_queue := q\<rparr>]\<rparr>))"
  using assms by (simp add: stream_turn_def chan_recv_def Let_def)

lemma stream_drain_data:
  assumes "sm_chan t < length (ce_channels ce)" "\<forall>m \<in> set ms. command m \<noteq> End"
    and "chan_queue (ce_channels ce ! sm_chan t) = ms @ rest"
  shows "\<exists>ce'. stream_drain (length ms + n) P now (t, ce) =
      stream_drain n P now (t\<lparr>sm_written := sm_written t @ concat (map data (filter (\<lambda>m. command m = Data) ms))\<rparr>, ce') \<and>
    length (ce_channels ce') = length (ce_channels ce) \<and> chan_queue (ce_channels ce' ! sm_chan t) = rest \<and>
    ce_circuit ce' = ce_circuit ce"
  using assms
proof (induction ms arbitrary: t ce)
  case (Cons m ms)
  let ?t = "if command m = Data then t\<lparr>sm_written := sm_written t @ data m\<rparr> else t"
  let ?ce = "ce\<lparr>ce_channels := (ce_channels ce)[sm_chan t := (ce_channels ce ! sm_chan t)\<lparr>chan_queue := ms @ rest\<rparr>]\<rparr>"
  have turn: "stream_turn P now (CircuitMessage True) (t, ce) = (True, (?t, ?ce))"
    using stream_turn_message [of ce t m "ms @ rest"] Cons.prems by simp
  have "sm_chan ?t < length (ce_channels ?ce)" "chan_queue (ce_channels ?ce ! sm_chan ?t) = ms @ rest"
    using Cons.prems by auto
  from Cons.IH [OF this(1) _ this(2)] Cons.prems(2) turn show ?case by (auto simp: if_distrib)
qed auto

lemma stream_drain_end:
  assumes "sm_chan t < length (ce_channels ce)" "\<forall>m \<in> set ms. command m \<noteq> End" "command fin = End"
    and "chan_queue (ce_channels ce ! sm_chan t) = ms @ fin # rest"
  shows "\<exists>ce'. stream_drain (length ms + Suc n) P now (t, ce) =
      (False, (t\<lparr>sm_written := sm_written t @ concat (map data (filter (\<lambda>m. command m = Data) ms))\<rparr>, ce')) \<and>
    chan_queue (ce_channels ce' ! sm_chan t) = rest \<and> ce_circuit ce' = ce_circuit ce"
proof -
  let ?t = "t\<lparr>sm_written := sm_written t @ concat (map data (filter (\<lambda>m. command m = Data) ms))\<rparr>"
  obtain ce1 where 1: "stream_drain (length ms + Suc n) P now (t, ce) = stream_drain (Suc n) P now (?t, ce1)"
    "length (ce_channels ce1) = length (ce_channels ce)" "chan_queue (ce_channels ce1 ! sm_chan t) = fin # rest"
    "ce_circuit ce1 = ce_circuit ce"
    using stream_drain_data [OF assms(1,2,4), of "Suc n" P now] by blast
  have "stream_turn P now (CircuitMessage True) (?t, ce1) =
      (False, (?t, ce1\<lparr>ce_channels := (ce_channels ce1)[sm_chan t := (ce_channels ce1 ! sm_chan t)\<lparr>chan_queue := rest\<rparr>]\<rparr>))"
    using stream_turn_message [of ce1 ?t fin rest] 1(3) assms(3) by simp
  with 1 assms(1) show ?thesis by simp
qed

text \<open>
  Download: the cells waiting for a stream are written to the SOCKS5 client in the order in
  which they came, the data of the DATA cells and nothing else; the END behind them ends
  the loop, and what comes after it is not written.
\<close>

theorem stream_downloads_in_order:
  assumes "sm_chan t < length (ce_channels ce)" "\<forall>m \<in> set ms. command m \<noteq> End" "command fin = End"
    and "chan_queue (ce_channels ce ! sm_chan t) = ms @ fin # rest"
  shows "\<exists>ce'. stream_drain (length ms + Suc n) P now (t, ce) =
      (False, (t\<lparr>sm_written := sm_written t @ concat (map data (filter (\<lambda>m. command m = Data) ms))\<rparr>, ce')) \<and>
    chan_queue (ce_channels ce' ! sm_chan t) = rest \<and> ce_circuit ce' = ce_circuit ce"
  using stream_drain_end [OF assms] .

theorem stream_downloads_in_order_witness:
  "\<exists>ce'. stream_drain 4 toy_prims 0 (stream_new ''h'', sample_end\<lparr>ce_channels := [\<lparr>chan_queue =
      [msg_data 1 1 [5, 6], msg_new 1 1 Connected [8], msg_data 1 1 [7], msg_end 1 1 [], msg_data 1 1 [9]],
      chan_sender = True, chan_receiver = True\<rparr>]\<rparr>) = (False, ((stream_new ''h'')\<lparr>sm_written := [5, 6, 7]\<rparr>, ce')) \<and>
    chan_queue (ce_channels ce' ! 0) = [msg_data 1 1 [9]]"
  using stream_downloads_in_order [of "stream_new ''h''"
      "sample_end\<lparr>ce_channels := [\<lparr>chan_queue =
        [msg_data 1 1 [5, 6], msg_new 1 1 Connected [8], msg_data 1 1 [7], msg_end 1 1 [], msg_data 1 1 [9]],
        chan_sender = True, chan_receiver = True\<rparr>]\<rparr>"
      "[msg_data 1 1 [5, 6], msg_new 1 1 Connected [8], msg_data 1 1 [7]]" "msg_end 1 1 []" "[msg_data 1 1 [9]]" 0 toy_prims 0]
  by (auto simp: stream_new_def msg_defs eval_nat_numeral simp del: stream_drain.simps)

end
