(* ===== verification/Circuit_Path.thy ===== *)
theory Circuit_Path
  imports Relay_Node Client_Builder
begin

text \<open>
  A whole circuit: the client's end, an entry, any number of middles and an exit, each with
  its own state, and the two journeys of a cell. Forward, the client sends with
  \<open>Circuit::send_message\<close>, each relay handles the cell it reads from the bytes the previous
  hop wrote, and the exit handles it last. Backward, a stream task of the exit seals and
  writes, each relay's reader hands the cell to \<open>handle_backward_relay\<close> and writes the
  answer, and the client's reader takes it. \<open>path_sync\<close> is the simulation relation between
  the client's keys and the states the relays hold; both journeys keep it.
\<close>

section \<open>What one end writes and the next reads\<close>

text \<open>The first cell a writer has written since.\<close>

definition wire :: "writer \<Rightarrow> writer \<Rightarrow> message option" where
  "wire w w' =
     (case from_stream \<lparr>rd_bytes = drop (length (wr_bytes w)) (wr_bytes w'), rd_broken = False\<rparr> of
        (Inr (Some m), rd) \<Rightarrow> Some m | _ \<Rightarrow> None)"

text \<open>A cell over a connection of its own; \<open>rnd\<close> is the filler.\<close>

definition carry :: "(nat \<Rightarrow> byte) \<Rightarrow> message \<Rightarrow> message option" where
  "carry rnd m =
     (let w = \<lparr>wr_bytes = [], wr_room = None, wr_rnd = rnd\<rparr> in
      case write_to_stream m w of (Inr _, w') \<Rightarrow> wire w w' | (Inl _, _) \<Rightarrow> None)"

lemma wire_cell:
  "msg_fits m \<Longrightarrow> wr_bytes w' = wr_bytes w @ to_bytes rnd m \<Longrightarrow> wire w w' = Some m"
  using from_stream_cell [of m rnd "[]" False] by (simp add: wire_def)

lemma carry_cell: "msg_fits m \<Longrightarrow> carry rnd m = Some m"
  using wire_cell [of m "\<lparr>wr_bytes = to_bytes rnd m, wr_room = None, wr_rnd = \<lambda>i. rnd (i + CELL_SIZE)\<rparr>"
    "\<lparr>wr_bytes = [], wr_room = None, wr_rnd = rnd\<rparr>" rnd]
  by (simp add: carry_def write_to_stream_ok)

section \<open>The middles\<close>

type_synonym middle_hop = "relay_env \<times> middle_state"

fun middles_forward :: "middle_hop list \<Rightarrow> message \<Rightarrow> (message \<times> middle_hop list) option" where
  "middles_forward [] m = Some (m, [])"
| "middles_forward ((e, h, mt) # hs) m =
     (case middle_handle_message e m (h, mt) of
        (Inr None, (h', mt')) \<Rightarrow>
          (case (mh_next_hop h, mh_next_hop h') of
             (Some hop, Some hop') \<Rightarrow>
               (case wire (nh_write hop) (nh_write hop') of
                  Some m \<Rightarrow> map_option (\<lambda>(m, hs). (m, (e, h', mt') # hs)) (middles_forward hs m)
                | None \<Rightarrow> None)
           | _ \<Rightarrow> None)
      | _ \<Rightarrow> None)"

text \<open>Backward, the list is in the order of the journey: exit side first.\<close>

fun middles_backward :: "(nat \<Rightarrow> byte) \<Rightarrow> middle_hop list \<Rightarrow> message \<Rightarrow> (message \<times> middle_hop list) option" where
  "middles_backward rnd [] m = Some (m, [])"
| "middles_backward rnd ((e, st) # hs) m =
     (case middle_handle_backward_relay e m st of
        (Inr (Some r), st') \<Rightarrow>
          (case carry rnd r of
             Some m \<Rightarrow> map_option (\<lambda>(m, hs). (m, (e, st') # hs)) (middles_backward rnd hs m)
           | None \<Rightarrow> None)
      | _ \<Rightarrow> None)"

text \<open>A middle that relays with the cipher pair \<open>cp\<close>.\<close>

fun middle_ready :: "prims \<Rightarrow> middle_hop \<Rightarrow> cipher_pair \<Rightarrow> bool" where
  "middle_ready P (e, h, mt) cp =
     (re_prims e = P \<and> cx_cipher_pair (mh_context h) = Some cp \<and>
      (case mh_next_hop h of None \<Rightarrow> False | Some hop \<Rightarrow> wr_room (nh_write hop) = None))"

lemma middle_forward_step:
  assumes "middle_ready P (e, h, mt) cp" "relayed_command (command m)" "msg_fits m"
    and "apply_forward P cp (data m) = (d, cp')"
  shows "\<exists>h' hop hop'. middle_handle_message e m (h, mt) = (Inr None, (h', mt)) \<and>
    mh_next_hop h = Some hop \<and> mh_next_hop h' = Some hop' \<and>
    wire (nh_write hop) (nh_write hop') = Some (m\<lparr>data := d\<rparr>) \<and> msg_fits (m\<lparr>data := d\<rparr>) \<and>
    middle_ready P (e, h', mt) cp'"
proof -
  obtain hop where hop: "mh_next_hop h = Some hop" "wr_room (nh_write hop) = None"
    using assms(1) by (auto split: option.splits)
  have P: "re_prims e = P" "cx_cipher_pair (mh_context h) = Some cp" using assms(1) by simp_all
  have len: "length d = length (data m)" using pair.fw.ks_length [of P cp "data m"] assms(4) by simp
  then have fits: "msg_fits (m\<lparr>data := d\<rparr>)" using assms(3) by (simp add: msg_fits_def msg_wf_def)
  have wf: "msg_wf m" "length d \<le> MAX_PAYLOAD_SIZE" using assms(3) len by (simp_all add: msg_fits_def)
  note st = middle_relay_step [OF P(2) hop(1) assms(4)[folded P(1)] wf(2) hop(2) wf(1), of mt]
  have "middle_handle_message e m (h, mt) = middle_handle_relay e m (h, mt)"
    by (rule middle_dispatch_relay) (use assms(2) hop in auto)
  with st hop P show ?thesis by (auto intro!: fits wire_cell [OF fits])
qed

lemma middles_forward_ok:
  assumes "list_all2 (middle_ready P) hs cps" "relayed_command (command m)" "msg_fits m"
    and "apply_each (apply_forward P) cps (data m) = (d, cps')"
  shows "\<exists>hs'. middles_forward hs m = Some (m\<lparr>data := d\<rparr>, hs') \<and> msg_fits (m\<lparr>data := d\<rparr>) \<and>
    list_all2 (middle_ready P) hs' cps'"
  using assms
proof (induction hs arbitrary: m cps cps')
  case (Cons x hs)
  obtain e h mt where x: "x = (e, h, mt)" by (metis prod_cases3)
  obtain cp cs where c: "cps = cp # cs" "middle_ready P (e, h, mt) cp" "list_all2 (middle_ready P) hs cs"
    using Cons.prems(1) x by (auto simp: list_all2_Cons1)
  obtain d1 cp1 where d1: "apply_forward P cp (data m) = (d1, cp1)" by force
  obtain cs1 where cs1: "apply_each (apply_forward P) cs d1 = (d, cs1)" "cps' = cp1 # cs1"
    using Cons.prems(4) c d1 by (auto simp: Let_def split: prod.splits)
  obtain h' hop hop' where s: "middle_handle_message e m (h, mt) = (Inr None, (h', mt))"
    "mh_next_hop h = Some hop" "mh_next_hop h' = Some hop'"
    "wire (nh_write hop) (nh_write hop') = Some (m\<lparr>data := d1\<rparr>)" "msg_fits (m\<lparr>data := d1\<rparr>)"
    "middle_ready P (e, h', mt) cp1"
    using middle_forward_step [OF c(2) Cons.prems(2,3) d1] by blast
  obtain hs' where "middles_forward hs (m\<lparr>data := d1\<rparr>) = Some (m\<lparr>data := d\<rparr>, hs')" "msg_fits (m\<lparr>data := d\<rparr>)"
    "list_all2 (middle_ready P) hs' cs1"
    using Cons.IH [OF c(3) _ s(5)] Cons.prems(2) cs1(1) by auto
  with s cs1(2) show ?case by (simp add: x del: middle_ready.simps)
qed (auto simp: list_all2_Nil)

lemma middles_backward_ok:
  assumes "list_all2 (middle_ready P) hs cps" "msg_fits m"
    and "apply_each (apply_backward P) cps (data m) = (d, cps')"
  shows "\<exists>hs'. middles_backward rnd hs m = Some (m\<lparr>data := d\<rparr>, hs') \<and> msg_fits (m\<lparr>data := d\<rparr>) \<and>
    list_all2 (middle_ready P) hs' cps'"
  using assms
proof (induction hs arbitrary: m cps cps')
  case (Cons x hs)
  obtain e h mt where x: "x = (e, h, mt)" by (metis prod_cases3)
  obtain cp cs where c: "cps = cp # cs" "middle_ready P (e, h, mt) cp" "list_all2 (middle_ready P) hs cs"
    using Cons.prems(1) x by (auto simp: list_all2_Cons1)
  obtain d1 cp1 where d1: "apply_backward P cp (data m) = (d1, cp1)" by force
  obtain cs1 where cs1: "apply_each (apply_backward P) cs d1 = (d, cs1)" "cps' = cp1 # cs1"
    using Cons.prems(3) c d1 by (auto simp: Let_def split: prod.splits)
  have "length d1 = length (data m)" using pair.bw.ks_length [of P cp "data m"] d1 by simp
  then have fits: "msg_fits (m\<lparr>data := d1\<rparr>)" using Cons.prems(2) by (simp add: msg_fits_def msg_wf_def)
  have r: "(msg_new (circuit_id m) (stream_id m) (command m) d1)\<lparr>digest := digest m\<rparr> = m\<lparr>data := d1\<rparr>"
    by (simp add: msg_new_def)
  obtain hs' where "middles_backward rnd hs (m\<lparr>data := d1\<rparr>) = Some (m\<lparr>data := d\<rparr>, hs')" "msg_fits (m\<lparr>data := d\<rparr>)"
    "list_all2 (middle_ready P) hs' cs1"
    using Cons.IH [OF c(3) fits] cs1(1) by auto
  with c(2) d1 cs1(2) show ?case
    by (auto simp: x middle_handle_backward_relay_def r carry_cell [OF fits] c(1) split: option.splits)
qed (auto simp: list_all2_Nil)

section \<open>The whole circuit\<close>

record path_state =
  ps_client :: client_end
  ps_entry :: "relay_env \<times> entry_state"
  ps_middles :: "middle_hop list"
  ps_exit :: "relay_env \<times> exit_state"

definition ps_keys :: "path_state \<Rightarrow> onion_keys" where
  "ps_keys ps = ci_onion_keys (ce_circuit (ps_client ps))"

text \<open>A cell the client has written: through the entry and the middles, to the exit.\<close>

definition relays_forward :: "message \<Rightarrow> path_state \<Rightarrow> (message \<times> path_state) option" where
  "relays_forward m ps =
     (let (e, h, mt) = ps_entry ps in
      case entry_handle_message e m (h, mt) of
        (Inr None, (h', mt')) \<Rightarrow>
          (case (eh_next_hop h, eh_next_hop h') of
             (Some hop, Some hop') \<Rightarrow>
               (case wire (nh_write hop) (nh_write hop') of None \<Rightarrow> None
                | Some m \<Rightarrow> map_option (\<lambda>(m, hs). (m, ps\<lparr>ps_entry := (e, h', mt'), ps_middles := hs\<rparr>))
                    (middles_forward (ps_middles ps) m))
           | _ \<Rightarrow> None)
      | _ \<Rightarrow> None)"

text \<open>The client sends on a stream; the exit's reply is what it hands to its main loop.\<close>

definition send_forward ::
  "prims \<Rightarrow> u16 \<Rightarrow> message_command \<Rightarrow> bytes \<Rightarrow> path_state \<Rightarrow> (message \<times> path_state) option"
where
  "send_forward P sid cmd d ps =
     (let c = ce_circuit (ps_client ps) in
      case ci_send_message P sid cmd d c of
        (Inl _, _) \<Rightarrow> None
      | (Inr _, c') \<Rightarrow>
        case wire (ci_entry_writer c) (ci_entry_writer c') of None \<Rightarrow> None
        | Some m \<Rightarrow> relays_forward m (ps\<lparr>ps_client := (ps_client ps)\<lparr>ce_circuit := c'\<rparr>\<rparr>))"

definition path_forward ::
  "prims \<Rightarrow> u16 \<Rightarrow> message_command \<Rightarrow> bytes \<Rightarrow> path_state \<Rightarrow> (reply \<times> path_state) option"
where
  "path_forward P sid cmd d ps =
     (case send_forward P sid cmd d ps of None \<Rightarrow> None
      | Some (m, ps) \<Rightarrow>
          let (e, st) = ps_exit ps; (r, st) = exit_handle_message (e, None) m st
          in Some (r, ps\<lparr>ps_exit := (e, st)\<rparr>))"

text \<open>A cell the exit has written: through the readers of the relays to the client's reader.\<close>

definition deliver_back ::
  "(nat \<Rightarrow> byte) \<Rightarrow> prims \<Rightarrow> nat \<Rightarrow> message \<Rightarrow> path_state \<Rightarrow> path_state option"
where
  "deliver_back rnd P now m ps =
     (let (e, st) = ps_entry ps in
      case middles_backward rnd (rev (ps_middles ps)) m of None \<Rightarrow> None
      | Some (m, hs) \<Rightarrow>
          (case entry_handle_backward_relay e m st of
             (Inr (Some r), st) \<Rightarrow>
               (case carry rnd r of None \<Rightarrow> None
                | Some m \<Rightarrow>
                    (case reader_message P now m (ps_client ps) of
                       (True, ce) \<Rightarrow> Some (ps\<lparr>ps_client := ce, ps_entry := (e, st), ps_middles := rev hs\<rparr>)
                     | (False, ce) \<Rightarrow> None))
           | _ \<Rightarrow> None))"

text \<open>Stream task \<open>t\<close> of the exit sends a cell; the client's reader takes it.\<close>

definition path_backward ::
  "(nat \<Rightarrow> byte) \<Rightarrow> prims \<Rightarrow> nat \<Rightarrow> nat \<Rightarrow> message_command \<Rightarrow> bytes \<Rightarrow> path_state \<Rightarrow> path_state option"
where
  "path_backward rnd P now t cmd d ps =
     (let (xe, xh, w) = ps_exit ps; prev = tk_writer (xw_tasks w ! t);
          (ok, w') = task_send P t cmd d w
      in case wire (xw_writers w ! prev) (xw_writers w' ! prev) of None \<Rightarrow> None
      | Some m \<Rightarrow> deliver_back rnd P now m (ps\<lparr>ps_exit := (xe, xh, w')\<rparr>))"

text \<open>
  Client and relays agree: each hop holds the client's cipher for it, the exit the client's
  digests, and every connection of the path is up.
\<close>

definition path_sync :: "prims \<Rightarrow> path_state \<Rightarrow> bool" where
  "path_sync P ps =
     (case ps_entry ps of (e, h, mt) \<Rightarrow> case ps_exit ps of (xe, xh, w) \<Rightarrow>
      case (cx_cipher_pair (eh_context h), eh_next_hop h, xh_shared xh) of
        (Some cp, Some hop, Some a) \<Rightarrow>
          re_prims e = P \<and> re_prims xe = P \<and> exit_wf (xh, w) \<and> wr_room (nh_write hop) = None \<and>
          wr_room (ci_entry_writer (ce_circuit (ps_client ps))) = None \<and>
          ok_forward_digest (ps_keys ps) = ec_forward_digest (xw_cryptos w ! a) \<and>
          ok_backward_digest (ps_keys ps) = ec_backward_digest (xw_cryptos w ! a) \<and>
          (case ok_ciphers (ps_keys ps) of [] \<Rightarrow> False
           | c # cs \<Rightarrow> c = cp \<and> cs \<noteq> [] \<and> last cs = ec_cipher (xw_cryptos w ! a) \<and>
               list_all2 (middle_ready P) (ps_middles ps) (butlast cs))
      | _ \<Rightarrow> False)"

lemma path_syncE:
  assumes "path_sync P ps"
  obtains e h mt xe xh w cp hop a cs x where
    "ps_entry ps = (e, h, mt)" "ps_exit ps = (xe, xh, w)" "cx_cipher_pair (eh_context h) = Some cp"
    "eh_next_hop h = Some hop" "xh_shared xh = Some a" "re_prims e = P" "re_prims xe = P" "exit_wf (xh, w)"
    "wr_room (nh_write hop) = None" "wr_room (ci_entry_writer (ce_circuit (ps_client ps))) = None"
    "x = xw_cryptos w ! a" "a < length (xw_cryptos w)" "ok_ciphers (ps_keys ps) = cp # cs @ [ec_cipher x]"
    "list_all2 (middle_ready P) (ps_middles ps) cs"
    "ok_forward_digest (ps_keys ps) = ec_forward_digest x" "ok_backward_digest (ps_keys ps) = ec_backward_digest x"
proof -
  obtain e h mt where e: "ps_entry ps = (e, h, mt)" by (metis prod_cases3)
  obtain xe xh w where x: "ps_exit ps = (xe, xh, w)" by (metis prod_cases3)
  obtain cp hop a where s: "cx_cipher_pair (eh_context h) = Some cp" "eh_next_hop h = Some hop" "xh_shared xh = Some a"
    using assms e x by (auto simp: path_sync_def split: option.splits)
  obtain cs where cs: "ok_ciphers (ps_keys ps) = cp # cs" "cs \<noteq> []" "last cs = ec_cipher (xw_cryptos w ! a)"
    "list_all2 (middle_ready P) (ps_middles ps) (butlast cs)"
    using assms e x s by (auto simp: path_sync_def split: list.splits)
  have a: "a < length (xw_cryptos w)" using assms e x s by (simp add: path_sync_def exit_wf_def)
  show ?thesis
    by (rule that [of e h mt xe xh w cp hop a "xw_cryptos w ! a" "butlast cs"])
      (use assms e x s cs a append_butlast_last_id [OF cs(2)] in \<open>simp_all add: path_sync_def\<close>)
qed

lemma path_syncI:
  assumes "ps_entry ps = (e, h, mt)" "ps_exit ps = (xe, xh, w)" "cx_cipher_pair (eh_context h) = Some cp"
    "eh_next_hop h = Some hop" "xh_shared xh = Some a" "re_prims e = P" "re_prims xe = P" "exit_wf (xh, w)"
    "wr_room (nh_write hop) = None" "wr_room (ci_entry_writer (ce_circuit (ps_client ps))) = None"
    "ok_ciphers (ps_keys ps) = cp # cs @ [ec_cipher (xw_cryptos w ! a)]"
    "list_all2 (middle_ready P) (ps_middles ps) cs"
    "ok_forward_digest (ps_keys ps) = ec_forward_digest (xw_cryptos w ! a)"
    "ok_backward_digest (ps_keys ps) = ec_backward_digest (xw_cryptos w ! a)"
  shows "path_sync P ps"
  using assms by (simp add: path_sync_def)

section \<open>Forward\<close>

text \<open>What the exit is handed, and that the agreement is restored once it has opened the cell.\<close>

lemma client_send_ok:
  assumes "wr_room (ci_entry_writer c) = None" "length d \<le> MAX_PAYLOAD_SIZE"
    and "rd_update P (ok_forward_digest (ci_onion_keys c)) sid (to_u8 cmd) d = (tag, fd)"
    and "onion_encrypt P (ci_onion_keys c) d = (x, k)"
    and "m = \<lparr>circuit_id = ci_circuit_id c, stream_id = sid, command = cmd, data = x, digest = tag\<rparr>"
  shows "\<exists>wr. ci_send_message P sid cmd d c =
      (Inr (), c\<lparr>ci_onion_keys := k\<lparr>ok_forward_digest := fd\<rparr>, ci_entry_writer := wr\<rparr>) \<and>
    msg_fits m \<and> wire (ci_entry_writer c) wr = Some m \<and> wr_room wr = None"
proof -
  have enc: "onion_encrypt P ((ci_onion_keys c)\<lparr>ok_forward_digest := fd\<rparr>) d = (x, k\<lparr>ok_forward_digest := fd\<rparr>)"
    using assms(4) by (auto simp: onion_encrypt_def split: prod.splits)
  have "length x = length d" using onion_forward [OF assms(4)] by simp
  moreover have "length tag = 4"
    using length_rd_update [of P "ok_forward_digest (ci_onion_keys c)" sid "to_u8 cmd" d] assms(3) by simp
  ultimately have fits: "msg_fits m" using assms(2) by (simp add: assms(5) msg_fits_def msg_wf_def)
  have mm: "(msg_new (ci_circuit_id c) sid cmd x)\<lparr>digest := tag\<rparr> = m" by (simp add: msg_new_def assms(5))
  show ?thesis
    by (rule exI [of _ "snd (write_to_stream m (ci_entry_writer c))"])
      (simp add: ci_send_message_def assms(1,3) enc mm write_to_stream_ok [OF fits assms(1)] fits wire_cell [OF fits, of _ _ "wr_rnd (ci_entry_writer c)"])
qed

lemma entry_forward_step:
  assumes "re_prims e = P" "cx_cipher_pair (eh_context h) = Some cp" "eh_next_hop h = Some hop" "wr_room (nh_write hop) = None"
    and "relayed_command (command m)" "msg_fits m" "apply_forward P cp (data m) = (d, cp')"
  shows "\<exists>h' hop'. entry_handle_message e m (h, mt) = (Inr None, (h', mt)) \<and> eh_next_hop h' = Some hop' \<and>
    wire (nh_write hop) (nh_write hop') = Some (m\<lparr>data := d\<rparr>) \<and> msg_fits (m\<lparr>data := d\<rparr>) \<and>
    cx_cipher_pair (eh_context h') = Some cp' \<and> wr_room (nh_write hop') = None"
proof -
  have len: "length d = length (data m)" using pair.fw.ks_length [of P cp "data m"] assms(7) by simp
  then have fits: "msg_fits (m\<lparr>data := d\<rparr>)" using assms(6) by (simp add: msg_fits_def msg_wf_def)
  have wf: "msg_wf m" "length d \<le> MAX_PAYLOAD_SIZE" using assms(6) len by (simp_all add: msg_fits_def)
  note st = entry_relay_step [OF assms(2,3) assms(7)[folded assms(1)] wf(2) assms(4) wf(1), of mt]
  have "entry_handle_message e m (h, mt) = entry_handle_relay e m (h, mt)"
    by (rule entry_dispatch_relay) (use assms(3,5) in auto)
  with st assms(4) show ?thesis by (auto intro!: fits wire_cell [OF fits])
qed

lemma forward_layers:
  assumes "onion_encrypt P k d = (x, k')" "ok_ciphers k = cp # cs @ [xc]"
  obtains d1 d2 cp' cs' xc' where
    "apply_forward P cp x = (d1, cp')" "apply_each (apply_forward P) cs d1 = (d2, cs')"
    "apply_forward P xc d = (d2, xc')" "ok_ciphers k' = cp' # cs' @ [xc']"
proof -
  obtain d1 cp' where 1: "apply_forward P cp x = (d1, cp')" by force
  obtain d2 cs' where 2: "apply_each (apply_forward P) cs d1 = (d2, cs')" by force
  obtain d3 xc' where 3: "apply_forward P xc d2 = (d3, xc')" by force
  have "d3 = d" "ok_ciphers k' = cp' # cs' @ [xc']"
    using onion_forward [OF assms(1)] assms(2) 1 2 3
    by (simp_all add: hops_forward_def apply_each_append Let_def)
  with 3 pair.fw.sync [OF 3] that [OF 1 2] show ?thesis by simp
qed

lemma send_forward_ok:
  assumes "path_sync P ps" "relayed_command cmd" "length d \<le> MAX_PAYLOAD_SIZE"
    and "ps_exit ps = (xe, xh, w)" "xh_shared xh = Some a" "x = xw_cryptos w ! a"
  shows "\<exists>m ps'. send_forward P sid cmd d ps = Some (m, ps') \<and> ps_exit ps' = ps_exit ps \<and>
    circuit_id m = ci_circuit_id (ce_circuit (ps_client ps)) \<and> stream_id m = sid \<and> command m = cmd \<and>
    data m = fst (apply_forward P (ec_cipher x) d) \<and>
    digest m = fst (rd_update P (ec_forward_digest x) sid (to_u8 cmd) d) \<and>
    ps_client ps' = (ps_client ps)\<lparr>ce_circuit := (ce_circuit (ps_client ps))
      \<lparr>ci_onion_keys := ps_keys ps', ci_entry_writer := ci_entry_writer (ce_circuit (ps_client ps'))\<rparr>\<rparr> \<and>
    (\<forall>xh' w'. exit_wf (xh', w') \<and> xh_shared xh' = Some a \<and>
         xw_cryptos w' ! a = x\<lparr>ec_cipher := snd (apply_forward P (ec_cipher x) d),
         ec_forward_digest := snd (rd_update P (ec_forward_digest x) sid (to_u8 cmd) d)\<rparr>
       \<longrightarrow> path_sync P (ps'\<lparr>ps_exit := (xe, xh', w')\<rparr>))"
proof -
  let ?c = "ce_circuit (ps_client ps)"
  obtain e h mt cp hop cs where s: "ps_entry ps = (e, h, mt)" "cx_cipher_pair (eh_context h) = Some cp"
    "eh_next_hop h = Some hop" "re_prims e = P" "re_prims xe = P" "wr_room (nh_write hop) = None"
    "wr_room (ci_entry_writer ?c) = None" "ok_ciphers (ps_keys ps) = cp # cs @ [ec_cipher x]"
    "list_all2 (middle_ready P) (ps_middles ps) cs"
    "ok_forward_digest (ps_keys ps) = ec_forward_digest x" "ok_backward_digest (ps_keys ps) = ec_backward_digest x"
  proof (rule path_syncE [OF assms(1)], goal_cases)
    case (1 e h mt xe' xh' w' cp hop a' cs x')
    from 1(3,6) assms(4,5,6) have "a' = a" "x' = x" "xe' = xe" using 1(12) by simp_all
    with 1 show thesis by blast
  qed
  obtain tag fd where tag: "rd_update P (ec_forward_digest x) sid (to_u8 cmd) d = (tag, fd)" by force
  obtain y k where enc: "onion_encrypt P (ps_keys ps) d = (y, k)" by force
  obtain d1 d2 cp' cs' xc' where l: "apply_forward P cp y = (d1, cp')"
    "apply_each (apply_forward P) cs d1 = (d2, cs')" "apply_forward P (ec_cipher x) d = (d2, xc')"
    "ok_ciphers k = cp' # cs' @ [xc']"
    by (rule forward_layers [OF enc s(8)]) (rule that)
  have bd: "ok_backward_digest k = ok_backward_digest (ps_keys ps)"
    using enc by (auto simp: onion_encrypt_def split: prod.splits)
  let ?m = "\<lparr>circuit_id = ci_circuit_id ?c, stream_id = sid, command = cmd, data = y, digest = tag\<rparr>"
  obtain wr where c': "ci_send_message P sid cmd d ?c =
      (Inr (), ?c\<lparr>ci_onion_keys := k\<lparr>ok_forward_digest := fd\<rparr>, ci_entry_writer := wr\<rparr>)"
    "msg_fits ?m" "wire (ci_entry_writer ?c) wr = Some ?m" "wr_room wr = None"
    using client_send_ok [OF s(7) assms(3) tag [folded s(10), unfolded ps_keys_def] enc [unfolded ps_keys_def] refl] by blast
  let ?c' = "?c\<lparr>ci_onion_keys := k\<lparr>ok_forward_digest := fd\<rparr>, ci_entry_writer := wr\<rparr>"
  obtain h' hop' where e: "entry_handle_message e ?m (h, mt) = (Inr None, (h', mt))" "eh_next_hop h' = Some hop'"
    "wire (nh_write hop) (nh_write hop') = Some (?m\<lparr>data := d1\<rparr>)" "msg_fits (?m\<lparr>data := d1\<rparr>)"
    "cx_cipher_pair (eh_context h') = Some cp'" "wr_room (nh_write hop') = None"
    using entry_forward_step [OF s(4,2,3,6) _ c'(2), of d1 cp' mt] assms(2) l(1) by auto
  obtain hs' where hs: "middles_forward (ps_middles ps) (?m\<lparr>data := d1\<rparr>) = Some (?m\<lparr>data := d2\<rparr>, hs')"
    "list_all2 (middle_ready P) hs' cs'"
    using middles_forward_ok [OF s(9) _ e(4), of d2 cs'] assms(2) l(2) by auto
  let ?ps = "ps\<lparr>ps_client := (ps_client ps)\<lparr>ce_circuit := ?c'\<rparr>, ps_entry := (e, h', mt), ps_middles := hs'\<rparr>"
  have run: "send_forward P sid cmd d ps = Some (?m\<lparr>data := d2\<rparr>, ?ps)"
    using s(1,3) c'(1,3) e(1-3) hs(1) by (simp add: send_forward_def relays_forward_def Let_def)
  have sync: "path_sync P (?ps\<lparr>ps_exit := (xe, xh', w')\<rparr>)"
    if "exit_wf (xh', w')" "xh_shared xh' = Some a" "xw_cryptos w' ! a = x\<lparr>ec_cipher := snd (apply_forward P (ec_cipher x) d),
       ec_forward_digest := snd (rd_update P (ec_forward_digest x) sid (to_u8 cmd) d)\<rparr>" for xh' w'
    by (rule path_syncI [of _ e h' mt xe xh' w' cp' hop' a P cs'])
      (use that e hs s c'(4) assms(5) l tag bd in \<open>simp_all add: ps_keys_def\<close>)
  have cl: "ps_client ?ps = (ps_client ps)\<lparr>ce_circuit := ?c
      \<lparr>ci_onion_keys := ps_keys ?ps, ci_entry_writer := ci_entry_writer (ce_circuit (ps_client ?ps))\<rparr>\<rparr>"
    by (simp add: ps_keys_def)
  show ?thesis
    using run sync assms(4) tag l(3) cl by (intro exI [of _ "?m\<lparr>data := d2\<rparr>"] exI [of _ ?ps]) simp
qed

text \<open>
  Data sent on an open stream ends up, as plaintext, at the end of the queue of the exit's
  task of that stream; nothing else at the exit moves, and the two ends agree again.
\<close>

lemma path_forward_data:
  assumes "path_sync P ps" "length d \<le> MAX_PAYLOAD_SIZE" "ps_exit ps = (xe, xh, w)"
    and "hm_get (xh_streams xh) sid = Some s" "tk_running (xw_tasks w ! es_task s)"
  shows "\<exists>ps' w'. path_forward P sid Data d ps = Some (Inr None, ps') \<and> path_sync P ps' \<and>
    ps_exit ps' = (xe, xh, w') \<and>
    xw_tasks w' = (xw_tasks w)[es_task s := (xw_tasks w ! es_task s)
      \<lparr>tk_queue := tk_queue (xw_tasks w ! es_task s) @ [d]\<rparr>] \<and> xw_writers w' = xw_writers w \<and>
    ps_client ps' = (ps_client ps)\<lparr>ce_circuit := (ce_circuit (ps_client ps))
      \<lparr>ci_onion_keys := ps_keys ps', ci_entry_writer := ci_entry_writer (ce_circuit (ps_client ps'))\<rparr>\<rparr>"
proof -
  obtain a where a: "xh_shared xh = Some a" "re_prims xe = P" "exit_wf (xh, w)"
    by (rule path_syncE [OF assms(1)]) (use assms(3) in auto)
  obtain m ps1 where m: "send_forward P sid Data d ps = Some (m, ps1)" "ps_exit ps1 = ps_exit ps"
    "stream_id m = sid" "command m = Data" "data m = fst (apply_forward P (ec_cipher (xw_cryptos w ! a)) d)"
    "digest m = fst (rd_update P (ec_forward_digest (xw_cryptos w ! a)) sid (to_u8 Data) d)"
    "ps_client ps1 = (ps_client ps)\<lparr>ce_circuit := (ce_circuit (ps_client ps))
      \<lparr>ci_onion_keys := ps_keys ps1, ci_entry_writer := ci_entry_writer (ce_circuit (ps_client ps1))\<rparr>\<rparr>"
    and sync: "\<And>w'. exit_wf (xh, w') \<Longrightarrow>
       xw_cryptos w' ! a = (xw_cryptos w ! a)\<lparr>ec_cipher := snd (apply_forward P (ec_cipher (xw_cryptos w ! a)) d),
         ec_forward_digest := snd (rd_update P (ec_forward_digest (xw_cryptos w ! a)) sid (to_u8 Data) d)\<rparr> \<Longrightarrow>
       path_sync P (ps1\<lparr>ps_exit := (xe, xh, w')\<rparr>)"
    using send_forward_ok [OF assms(1) _ assms(2,3) a(1) refl, of Data sid] a(1) by (auto simp: relayed_command_def)
  obtain w' where w': "exit_handle_message (xe, None) m (xh, w) = (Inr None, (xh, w'))"
    "xw_tasks w' = (xw_tasks w)[es_task s := (xw_tasks w ! es_task s)
      \<lparr>tk_queue := tk_queue (xw_tasks w ! es_task s) @ [d]\<rparr>]" "xw_writers w' = xw_writers w"
    "xw_cryptos w' ! a = (xw_cryptos w ! a)\<lparr>ec_cipher := snd (apply_forward P (ec_cipher (xw_cryptos w ! a)) d),
         ec_forward_digest := snd (rd_update P (ec_forward_digest (xw_cryptos w ! a)) sid (to_u8 Data) d)\<rparr>"
    using exit_data_delivered [OF a(3,1) refl m(4), of xe d s None] assms(4,5) a(2) m(3,5,6) by auto
  have wf: "exit_wf (xh, w')" by (rule exit_message_wf [OF a(3) w'(1)])
  let ?ps = "ps1\<lparr>ps_exit := (xe, xh, w')\<rparr>"
  have "path_forward P sid Data d ps = Some (Inr None, ?ps)"
    using m(1,2) assms(3) w'(1) by (simp add: path_forward_def)
  with sync [OF wf w'(4)] w'(2,3) m(7) show ?thesis
    by (intro exI [of _ ?ps] exI [of _ w']) (simp add: ps_keys_def)
qed

section \<open>Backward\<close>

lemma backward_layers:
  assumes "apply_backward P xc d = (d0, xc')" "apply_each (apply_backward P) (rev cs) d0 = (d1, rcs')"
    and "apply_backward P cp d1 = (d2, cp')" "ok_ciphers k = cp # cs @ [xc]"
  shows "onion_decrypt P k d2 = (d, k\<lparr>ok_ciphers := cp' # rev rcs' @ [xc']\<rparr>)"
proof -
  have "hops_backward P (ok_ciphers k) d = (d2, cp' # rev rcs' @ [xc'])"
    using assms by (simp add: hops_backward_def apply_each_append Let_def)
  then show ?thesis using onion_backward by blast
qed

lemma entry_backward_step:
  assumes "re_prims e = P" "cx_cipher_pair (eh_context h) = Some cp" "msg_fits m" "apply_backward P cp (data m) = (d, cp')"
  shows "entry_handle_backward_relay e m (h, mt) =
    (Inr (Some (m\<lparr>data := d\<rparr>)), (h\<lparr>eh_context := (eh_context h)\<lparr>cx_cipher_pair := Some cp'\<rparr>\<rparr>, mt)) \<and>
    msg_fits (m\<lparr>data := d\<rparr>)"
proof -
  have "(msg_new (circuit_id m) (stream_id m) (command m) d)\<lparr>digest := digest m\<rparr> = m\<lparr>data := d\<rparr>"
    by (simp add: msg_new_def)
  moreover have "length d = length (data m)" using pair.bw.ks_length [of P cp "data m"] assms(4) by simp
  ultimately show ?thesis
    using assms by (simp add: entry_handle_backward_relay_def msg_fits_def msg_wf_def)
qed

lemma exit_wf_task_send: "exit_wf (h, w) \<Longrightarrow> exit_wf (h, snd (task_send P t cmd d w))"
  by (simp add: task_send_def Let_def exit_wf_def split_beta)

lemma wr_room_write: "wr_room wr = None \<Longrightarrow> wr_room (snd (write_to_stream m wr)) = None"
  by (simp add: write_to_stream_def next_cell_def write_all_def)

lemma task_send_keeps_ready:
  "task_ready t w \<Longrightarrow> task_ready u w \<Longrightarrow> task_ready u (snd (task_send P t cmd d w))"
  by (auto simp: task_send_def task_ready_def Let_def split_beta wr_room_write nth_list_update)

text \<open>
  A cell that was sealed in the state the exit shares with the client reaches the channel of
  its stream at the client, as plaintext under its command, if the stream is registered;
  nothing else at the client moves, and the agreement holds again with an exit that has
  sealed the cell.
\<close>

lemma deliver_back_ok:
  assumes "path_sync P ps" "ps_exit ps = (xe, xh, w)" "xh_shared xh = Some a" "x = xw_cryptos w ! a"
    and "exit_seal P cid sid cmd d x = (m, x')" "length d \<le> MAX_PAYLOAD_SIZE" "cmd \<noteq> Destroy"
    and "exit_wf (xh', w')" "xh_shared xh' = Some a" "xw_cryptos w' ! a = x'"
  shows "\<exists>ps'. deliver_back rnd P now m (ps\<lparr>ps_exit := (xe, xh', w')\<rparr>) = Some ps' \<and> path_sync P ps' \<and>
    ps_exit ps' = (xe, xh', w') \<and>
    ce_channels (ps_client ps') = (case hm_get (ci_stream_senders (ce_circuit (ps_client ps))) sid of
        None \<Rightarrow> ce_channels (ps_client ps)
      | Some b \<Rightarrow> chan_send b (msg_new cid sid cmd d) (ce_channels (ps_client ps))) \<and>
    ce_circuit (ps_client ps') = (ce_circuit (ps_client ps))\<lparr>ci_onion_keys := ps_keys ps'\<rparr>"
proof -
  let ?c = "ce_circuit (ps_client ps)"
  obtain e h mt cp hop cs where s: "ps_entry ps = (e, h, mt)" "cx_cipher_pair (eh_context h) = Some cp"
    "eh_next_hop h = Some hop" "re_prims e = P" "re_prims xe = P" "wr_room (nh_write hop) = None"
    "wr_room (ci_entry_writer ?c) = None" "ok_ciphers (ps_keys ps) = cp # cs @ [ec_cipher x]"
    "list_all2 (middle_ready P) (ps_middles ps) cs"
    "ok_forward_digest (ps_keys ps) = ec_forward_digest x" "ok_backward_digest (ps_keys ps) = ec_backward_digest x"
  proof (rule path_syncE [OF assms(1)], goal_cases)
    case (1 e h mt xe' xh' w' cp hop a' cs y)
    with assms(2,3,4) have "a' = a" "y = x" "xe' = xe" by simp_all
    with 1 show thesis by blast
  qed
  obtain tag bd where tag: "rd_update P (ec_backward_digest x) sid (to_u8 cmd) d = (tag, bd)" by force
  obtain d0 xc' where l0: "apply_backward P (ec_cipher x) d = (d0, xc')" by force
  have m: "m = \<lparr>circuit_id = cid, stream_id = sid, command = cmd, data = d0, digest = tag\<rparr>"
    "x' = x\<lparr>ec_cipher := xc', ec_backward_digest := bd\<rparr>"
    using assms(5) tag l0 by (simp_all add: exit_seal_def msg_new_def)
  have fits: "msg_fits m" by (rule exit_seal_fits [OF assms(5,6)])
  obtain d1 rcs' where l1: "apply_each (apply_backward P) (rev cs) d0 = (d1, rcs')" by force
  obtain hs' where hs: "middles_backward rnd (rev (ps_middles ps)) m = Some (m\<lparr>data := d1\<rparr>, hs')"
    "msg_fits (m\<lparr>data := d1\<rparr>)" "list_all2 (middle_ready P) hs' rcs'"
    using middles_backward_ok [OF _ fits, of P "rev (ps_middles ps)" "rev cs" d1 rcs' rnd] s(9) l1 m(1) by auto
  obtain d2 cp' where l2: "apply_backward P cp d1 = (d2, cp')" by force
  let ?h = "h\<lparr>eh_context := (eh_context h)\<lparr>cx_cipher_pair := Some cp'\<rparr>\<rparr>"
  have en: "entry_handle_backward_relay e (m\<lparr>data := d1\<rparr>) (h, mt) = (Inr (Some (m\<lparr>data := d2\<rparr>)), (?h, mt))"
    "msg_fits (m\<lparr>data := d2\<rparr>)"
    using entry_backward_step [OF s(4,2) hs(2), of d2 cp' mt] l2 by simp_all
  let ?k = "(ps_keys ps)\<lparr>ok_ciphers := cp' # rev rcs' @ [xc'], ok_backward_digest := bd\<rparr>"
  have chk: "backward_check P (m\<lparr>data := d2\<rparr>) (ci_onion_keys ?c) = ((True, d), ?k)"
    using backward_layers [OF l0 l1 l2 s(8)] tag s(11)
    by (simp add: backward_check_def rd_verify_def ps_keys_def m(1))
  obtain ce where ce: "reader_message P now (m\<lparr>data := d2\<rparr>) (ps_client ps) = (True, ce)"
    "ce_circuit ce = ?c\<lparr>ci_onion_keys := ?k\<rparr>"
    "ce_channels ce = (case hm_get (ci_stream_senders ?c) sid of None \<Rightarrow> ce_channels (ps_client ps)
      | Some b \<Rightarrow> chan_send b (msg_new cid sid cmd d) (ce_channels (ps_client ps)))"
    using reader_message_good [OF _ chk, of now] assms(7) m(1) by (auto cong: option.case_cong)
  let ?ps = "\<lparr>ps_client = ce, ps_entry = (e, ?h, mt), ps_middles = rev hs', ps_exit = (xe, xh', w')\<rparr>"
  have "deliver_back rnd P now m (ps\<lparr>ps_exit := (xe, xh', w')\<rparr>) = Some ?ps"
    using s(1) hs(1) en ce(1) by (simp add: deliver_back_def carry_cell)
  moreover have "path_sync P ?ps"
    by (rule path_syncI [of _ e ?h mt xe xh' w' cp' hop a P "rev rcs'"])
      (use s ce(2) assms(8-10) m(2) hs(3) in \<open>simp_all add: ps_keys_def list_all2_rev1\<close>)
  ultimately show ?thesis
    using ce(2,3) by (intro exI [of _ ?ps]) (simp add: ps_keys_def)
qed

text \<open>What a stream task of the exit sends.\<close>

lemma path_backward_ok:
  assumes "path_sync P ps" "ps_exit ps = (xe, xh, w)" "task_ready t w" "tk = xw_tasks w ! t"
    and "xh_shared xh = Some (tk_crypto tk)" "length d \<le> MAX_PAYLOAD_SIZE" "cmd \<noteq> Destroy"
    and "hm_get (ci_stream_senders (ce_circuit (ps_client ps))) (tk_stream tk) = Some b"
    and "b < length (ce_channels (ps_client ps))" "chan_receiver (ce_channels (ps_client ps) ! b)"
  shows "\<exists>ps' w'. path_backward rnd P now t cmd d ps = Some ps' \<and> path_sync P ps' \<and>
    ps_exit ps' = (xe, xh, w') \<and> xw_tasks w' = xw_tasks w \<and> (\<forall>u. task_ready u w \<longrightarrow> task_ready u w') \<and>
    ce_channels (ps_client ps') = (ce_channels (ps_client ps))[b := (ce_channels (ps_client ps) ! b)
      \<lparr>chan_queue := chan_queue (ce_channels (ps_client ps) ! b) @ [msg_new (tk_circuit tk) (tk_stream tk) cmd d]\<rparr>] \<and>
    ce_circuit (ps_client ps') = (ce_circuit (ps_client ps))\<lparr>ci_onion_keys := ps_keys ps'\<rparr>"
proof -
  let ?x = "xw_cryptos w ! tk_crypto tk"
  have xwf: "exit_wf (xh, w)" by (rule path_syncE [OF assms(1)]) (use assms(2) in auto)
  obtain m x' where seal: "exit_seal P (tk_circuit tk) (tk_stream tk) cmd d ?x = (m, x')" by force
  obtain w' where w': "task_send P t cmd d w = (True, w')" "xw_tasks w' = xw_tasks w" "xw_cryptos w' ! tk_crypto tk = x'"
    "wire (xw_writers w ! tk_writer tk) (xw_writers w' ! tk_writer tk) = Some m"
    using task_send_ok [OF assms(3,4,6) seal] wire_cell [OF exit_seal_fits [OF seal assms(6)]] by auto
  have ready: "\<forall>u. task_ready u w \<longrightarrow> task_ready u w'"
    using task_send_keeps_ready [OF assms(3), of _ P cmd d] w'(1) by simp
  have wf: "exit_wf (xh, w')" using exit_wf_task_send [OF xwf, of P t cmd d] w'(1) by simp
  from deliver_back_ok [OF assms(1,2,5) refl seal assms(6,7) wf assms(5) w'(3), of rnd now]
  show ?thesis using assms(2,4,8,10) w'(1,2,4) ready by (auto simp: path_backward_def chan_send_def)
qed

section \<open>The circuit as a pair of queues per stream\<close>

text \<open>A round of the keepalive: a padding cell for the entry, which drops it.\<close>

definition path_pad :: "(nat \<Rightarrow> nat) \<Rightarrow> (nat \<Rightarrow> byte) \<Rightarrow> path_state \<Rightarrow> path_state option" where
  "path_pad pick rnd ps =
     (let c = ce_circuit (ps_client ps); (e, st) = ps_entry ps;
          (r, wr) = write_to_stream (msg_padding pick rnd (ci_circuit_id c)) (ci_entry_writer c)
      in case wire (ci_entry_writer c) wr of None \<Rightarrow> None
      | Some m \<Rightarrow>
          (case entry_handle_message e m st of
             (Inr None, st') \<Rightarrow> Some (ps\<lparr>ps_client := (ps_client ps)\<lparr>ce_circuit := c\<lparr>ci_entry_writer := wr\<rparr>\<rparr>, ps_entry := (e, st')\<rparr>)
           | _ \<Rightarrow> None))"

lemma path_pad_ok:
  assumes "path_sync P ps" "pick MAX_PAYLOAD_SIZE \<le> MAX_PAYLOAD_SIZE"
  shows "\<exists>ps' wr. path_pad pick rnd ps = Some ps' \<and> path_sync P ps' \<and> ps_exit ps' = ps_exit ps \<and>
    ps_client ps' = (ps_client ps)\<lparr>ce_circuit := (ce_circuit (ps_client ps))\<lparr>ci_entry_writer := wr\<rparr>\<rparr>"
proof -
  let ?c = "ce_circuit (ps_client ps)"
  let ?m = "msg_padding pick rnd (ci_circuit_id ?c)"
  obtain e h mt xe xh w cp hop a cs x where s: "ps_entry ps = (e, h, mt)" "ps_exit ps = (xe, xh, w)"
    "cx_cipher_pair (eh_context h) = Some cp" "eh_next_hop h = Some hop" "xh_shared xh = Some a" "re_prims e = P"
    "re_prims xe = P" "exit_wf (xh, w)" "wr_room (nh_write hop) = None" "wr_room (ci_entry_writer ?c) = None"
    "x = xw_cryptos w ! a" "ok_ciphers (ps_keys ps) = cp # cs @ [ec_cipher x]" "list_all2 (middle_ready P) (ps_middles ps) cs"
    "ok_forward_digest (ps_keys ps) = ec_forward_digest x" "ok_backward_digest (ps_keys ps) = ec_backward_digest x"
    by (rule path_syncE [OF assms(1)]) (rule that)
  have fits: "msg_fits ?m" "command ?m = Padding"
    using assms(2) by (simp_all add: msg_padding_def msg_fits_def msg_wf_def msg_defs)
  let ?wr = "snd (write_to_stream ?m (ci_entry_writer ?c))"
  let ?ps = "ps\<lparr>ps_client := (ps_client ps)\<lparr>ce_circuit := ?c\<lparr>ci_entry_writer := ?wr\<rparr>\<rparr>, ps_entry := (e, h, mt)\<rparr>"
  note w = write_to_stream_ok [OF fits(1) s(10)]
  have "wire (ci_entry_writer ?c) ?wr = Some ?m" using w wire_cell [OF fits(1)] by auto
  moreover have "entry_handle_message e ?m (h, mt) = (Inr None, (h, mt))" by (simp add: entry_handle_message_def fits(2))
  ultimately have "path_pad pick rnd ps = Some ?ps" by (simp add: path_pad_def s(1) split_beta Let_def)
  moreover have "path_sync P ?ps"
    by (rule path_syncI [of _ e h mt xe xh w cp hop a P cs]) (use s w in \<open>simp_all add: ps_keys_def\<close>)
  ultimately show ?thesis by (intro exI [of _ ?ps] exI [of _ ?wr]) simp
qed

text \<open>
  The specification: every stream is two queues, the bytes for the destination and the cells
  for the client; sending appends, and the keepalive changes nothing.
\<close>

record stream_pipe =
  sp_up :: "bytes list"
  sp_down :: "(message_command \<times> bytes) list"

datatype circuit_op = Up u16 bytes | Down u16 message_command bytes | Pad "nat \<Rightarrow> nat" "nat \<Rightarrow> byte"

fun op_on :: "u16 set \<Rightarrow> circuit_op \<Rightarrow> bool" where
  "op_on sids (Up sid d) = (sid \<in> sids)"
| "op_on sids (Down sid cmd d) = (sid \<in> sids)"
| "op_on sids (Pad pick rnd) = True"

fun op_ok :: "circuit_op \<Rightarrow> bool" where
  "op_ok (Up sid d) = (length d \<le> MAX_PAYLOAD_SIZE)"
| "op_ok (Down sid cmd d) = (length d \<le> MAX_PAYLOAD_SIZE \<and> cmd \<noteq> Destroy)"
| "op_ok (Pad pick rnd) = (pick MAX_PAYLOAD_SIZE \<le> MAX_PAYLOAD_SIZE)"

fun pipe_step :: "circuit_op \<Rightarrow> (u16 \<Rightarrow> stream_pipe) \<Rightarrow> u16 \<Rightarrow> stream_pipe" where
  "pipe_step (Up sid d) p = p(sid := (p sid)\<lparr>sp_up := sp_up (p sid) @ [d]\<rparr>)"
| "pipe_step (Down sid cmd d) p = p(sid := (p sid)\<lparr>sp_down := sp_down (p sid) @ [(cmd, d)]\<rparr>)"
| "pipe_step (Pad pick rnd) p = p"

lemma pipe_step_local: "p sid = q sid \<Longrightarrow> pipe_step op p sid = pipe_step op q sid"
  by (cases op) auto

lemma pipe_steps_local: "p sid = q sid \<Longrightarrow> fold pipe_step ops p sid = fold pipe_step ops q sid"
proof (induction ops arbitrary: p q)
  case (Cons op ops)
  have "pipe_step op p sid = pipe_step op q sid" using Cons.prems by (rule pipe_step_local)
  then show ?case using Cons.IH [of "pipe_step op p" "pipe_step op q"] by simp
qed simp

text \<open>The implementation: both journeys, through every hop.\<close>

fun path_step :: "(nat \<Rightarrow> byte) \<Rightarrow> prims \<Rightarrow> nat \<Rightarrow> circuit_op \<Rightarrow> path_state \<Rightarrow> path_state option" where
  "path_step rnd P now (Up sid d) ps =
     (case path_forward P sid Data d ps of Some (Inr None, ps') \<Rightarrow> Some ps' | _ \<Rightarrow> None)"
| "path_step rnd P now (Down sid cmd d) ps =
     (case hm_get (xh_streams (fst (snd (ps_exit ps)))) sid of None \<Rightarrow> None
      | Some s \<Rightarrow> path_backward rnd P now (es_task s) cmd d ps)"
| "path_step rnd P now (Pad pick filler) ps = path_pad pick filler ps"

fun path_run :: "(nat \<Rightarrow> byte) \<Rightarrow> prims \<Rightarrow> nat \<Rightarrow> circuit_op list \<Rightarrow> path_state \<Rightarrow> path_state option" where
  "path_run rnd P now [] ps = Some ps"
| "path_run rnd P now (op # ops) ps =
     (case path_step rnd P now op ps of None \<Rightarrow> None | Some ps' \<Rightarrow> path_run rnd P now ops ps')"

text \<open>What a stream's queues hold in the implementation.\<close>

definition pipe_of :: "path_state \<Rightarrow> u16 \<Rightarrow> stream_pipe" where
  "pipe_of ps sid = (let (xe, xh, w) = ps_exit ps in
     \<lparr>sp_up = (case hm_get (xh_streams xh) sid of None \<Rightarrow> [] | Some s \<Rightarrow> tk_queue (xw_tasks w ! es_task s)),
      sp_down = (case hm_get (ci_stream_senders (ce_circuit (ps_client ps))) sid of None \<Rightarrow> []
        | Some b \<Rightarrow> map (\<lambda>m. (command m, data m)) (chan_queue (ce_channels (ps_client ps) ! b)))\<rparr>)"

text \<open>A stream that is open at both ends.\<close>

definition stream_open :: "path_state \<Rightarrow> u16 \<Rightarrow> bool" where
  "stream_open ps sid =
     (case ps_exit ps of (xe, xh, w) \<Rightarrow>
      case (hm_get (xh_streams xh) sid, hm_get (ci_stream_senders (ce_circuit (ps_client ps))) sid) of
        (Some s, Some b) \<Rightarrow>
          tk_running (xw_tasks w ! es_task s) \<and> task_ready (es_task s) w \<and>
          xh_shared xh = Some (tk_crypto (xw_tasks w ! es_task s)) \<and>
          b < length (ce_channels (ps_client ps)) \<and> chan_receiver (ce_channels (ps_client ps) ! b)
      | _ \<Rightarrow> False)"

definition streams_open :: "path_state \<Rightarrow> u16 set \<Rightarrow> bool" where
  "streams_open ps sids = ((\<forall>sid \<in> sids. stream_open ps sid) \<and>
     inj_on (hm_get (ci_stream_senders (ce_circuit (ps_client ps)))) sids)"

lemma stream_openE:
  assumes "stream_open ps sid" "ps_exit ps = (xe, xh, w)"
  obtains s b where "hm_get (xh_streams xh) sid = Some s"
    "hm_get (ci_stream_senders (ce_circuit (ps_client ps))) sid = Some b"
    "tk_running (xw_tasks w ! es_task s)" "task_ready (es_task s) w"
    "xh_shared xh = Some (tk_crypto (xw_tasks w ! es_task s))"
    "b < length (ce_channels (ps_client ps))" "chan_receiver (ce_channels (ps_client ps) ! b)"
  using assms by (auto simp: stream_open_def split: option.splits)

lemma path_sync_exit_wf:
  assumes "path_sync P ps" "ps_exit ps = (xe, xh, w)"
  shows "exit_wf (xh, w)"
  by (rule path_syncE [OF assms(1)]) (use assms(2) in auto)

lemma stream_task_inject:
  assumes "exit_wf (h, w)" "hm_get (xh_streams h) i = Some s" "hm_get (xh_streams h) j = Some s'"
  shows "es_task s = es_task s' \<longleftrightarrow> i = j"
proof
  assume "es_task s = es_task s'"
  moreover have "tk_stream (xw_tasks w ! es_task s) = i" "tk_stream (xw_tasks w ! es_task s') = j"
    using assms by (simp_all add: exit_wf_def)
  ultimately show "i = j" by simp
qed (use assms in simp)

lemma up_step:
  assumes "path_sync P ps" "streams_open ps sids" "sid \<in> sids" "length d \<le> MAX_PAYLOAD_SIZE"
  shows "\<exists>ps'. path_step rnd P now (Up sid d) ps = Some ps' \<and> path_sync P ps' \<and> streams_open ps' sids \<and>
    (\<forall>j \<in> sids. pipe_of ps' j = pipe_step (Up sid d) (pipe_of ps) j)"
proof -
  obtain xe xh w where x: "ps_exit ps = (xe, xh, w)" by (metis prod_cases3)
  have wf: "exit_wf (xh, w)" by (rule path_sync_exit_wf [OF assms(1) x])
  have open_sid: "stream_open ps sid" using assms(2,3) by (simp add: streams_open_def)
  obtain s b where s: "hm_get (xh_streams xh) sid = Some s" "tk_running (xw_tasks w ! es_task s)"
    "task_ready (es_task s) w"
    by (rule stream_openE [OF open_sid x]) (rule that)
  obtain ps' w' where p: "path_forward P sid Data d ps = Some (Inr None, ps')" "path_sync P ps'"
    "ps_exit ps' = (xe, xh, w')" "xw_writers w' = xw_writers w"
    "xw_tasks w' = (xw_tasks w)[es_task s := (xw_tasks w ! es_task s)
      \<lparr>tk_queue := tk_queue (xw_tasks w ! es_task s) @ [d]\<rparr>]"
    "ps_client ps' = (ps_client ps)\<lparr>ce_circuit := (ce_circuit (ps_client ps))
      \<lparr>ci_onion_keys := ps_keys ps', ci_entry_writer := ci_entry_writer (ce_circuit (ps_client ps'))\<rparr>\<rparr>"
    using path_forward_data [OF assms(1,4) x s(1,2)] by blast
  have client: "ce_channels (ps_client ps') = ce_channels (ps_client ps)"
    "ci_stream_senders (ce_circuit (ps_client ps')) = ci_stream_senders (ce_circuit (ps_client ps))"
    by (subst p(6), simp)+
  have wf': "exit_wf (xh, w')" by (rule path_sync_exit_wf [OF p(2,3)])
  have len: "es_task s < length (xw_tasks w)" using s(3) by (simp add: task_ready_def Let_def)
  have task: "xw_tasks w' ! es_task s' = (if j = sid then (xw_tasks w ! es_task s)
      \<lparr>tk_queue := tk_queue (xw_tasks w ! es_task s) @ [d]\<rparr> else xw_tasks w ! es_task s')"
    if "hm_get (xh_streams xh) j = Some s'" for j s'
  proof -
    have *: "es_task s' = es_task s \<longleftrightarrow> j = sid" by (rule stream_task_inject [OF wf that s(1)])
    show ?thesis
    proof (cases "j = sid")
      case True
      with * len show ?thesis by (simp add: p(5))
    next
      case False
      with * show ?thesis by (simp add: p(5))
    qed
  qed
  have "stream_open ps' j" if "j \<in> sids" for j
  proof -
    have "stream_open ps j" using assms(2) that by (simp add: streams_open_def)
    then obtain s' b' where s': "hm_get (xh_streams xh) j = Some s'"
      "hm_get (ci_stream_senders (ce_circuit (ps_client ps))) j = Some b'"
      "tk_running (xw_tasks w ! es_task s')" "task_ready (es_task s') w"
      "xh_shared xh = Some (tk_crypto (xw_tasks w ! es_task s'))"
      "b' < length (ce_channels (ps_client ps))" "chan_receiver (ce_channels (ps_client ps) ! b')"
      by (rule stream_openE [OF _ x]) (rule that)
    have "tk_crypto (xw_tasks w ! es_task s') < length (xw_cryptos w')" using wf' s'(5) by (simp add: exit_wf_def)
    then show ?thesis
      using s' s task [OF s'(1)] client p(3,4) wf'
      by (cases "j = sid") (auto simp: stream_open_def task_ready_def Let_def p(5))
  qed
  moreover have "pipe_of ps' j = pipe_step (Up sid d) (pipe_of ps) j" for j
    using task [of j] client p(3) x s(1) by (cases "hm_get (xh_streams xh) j") (auto simp: pipe_of_def split: option.split)
  ultimately show ?thesis
    using p(1,2) assms(2) client(2) by (auto simp: streams_open_def)
qed

lemma down_step:
  assumes "path_sync P ps" "streams_open ps sids" "sid \<in> sids" "length d \<le> MAX_PAYLOAD_SIZE" "cmd \<noteq> Destroy"
  shows "\<exists>ps'. path_step rnd P now (Down sid cmd d) ps = Some ps' \<and> path_sync P ps' \<and> streams_open ps' sids \<and>
    (\<forall>j \<in> sids. pipe_of ps' j = pipe_step (Down sid cmd d) (pipe_of ps) j)"
proof -
  let ?chs = "ce_channels (ps_client ps)" let ?senders = "ci_stream_senders (ce_circuit (ps_client ps))"
  obtain xe xh w where x: "ps_exit ps = (xe, xh, w)" by (metis prod_cases3)
  have wf: "exit_wf (xh, w)" by (rule path_sync_exit_wf [OF assms(1) x])
  have open_sid: "stream_open ps sid" using assms(2,3) by (simp add: streams_open_def)
  obtain s b where s: "hm_get (xh_streams xh) sid = Some s" "hm_get ?senders sid = Some b"
    "tk_running (xw_tasks w ! es_task s)" "task_ready (es_task s) w"
    "xh_shared xh = Some (tk_crypto (xw_tasks w ! es_task s))" "b < length ?chs" "chan_receiver (?chs ! b)"
    by (rule stream_openE [OF open_sid x]) (rule that)
  have sid: "tk_stream (xw_tasks w ! es_task s) = sid" using wf s(1) by (simp add: exit_wf_def)
  let ?m = "msg_new (tk_circuit (xw_tasks w ! es_task s)) sid cmd d"
  obtain ps' w' where p: "path_backward rnd P now (es_task s) cmd d ps = Some ps'" "path_sync P ps'"
    "ps_exit ps' = (xe, xh, w')" "xw_tasks w' = xw_tasks w" "\<forall>u. task_ready u w \<longrightarrow> task_ready u w'"
    "ce_channels (ps_client ps') = ?chs[b := (?chs ! b)\<lparr>chan_queue := chan_queue (?chs ! b) @ [?m]\<rparr>]"
    "ce_circuit (ps_client ps') = (ce_circuit (ps_client ps))\<lparr>ci_onion_keys := ps_keys ps'\<rparr>"
    using path_backward_ok [OF assms(1) x s(4) refl s(5) assms(4,5), of b rnd now] s(2,6,7) sid by auto
  have senders: "ci_stream_senders (ce_circuit (ps_client ps')) = ?senders" by (subst p(7)) simp
  have other: "ce_channels (ps_client ps') ! b' = ?chs ! b'" if "j \<in> sids" "hm_get ?senders j = Some b'" "j \<noteq> sid" for j b'
  proof -
    have "b' \<noteq> b"
      using assms(2,3) that s(2) inj_onD [of "hm_get ?senders" sids j sid] by (auto simp: streams_open_def)
    then show ?thesis by (simp add: p(6))
  qed
  have open': "stream_open ps' j" if "j \<in> sids" for j
  proof -
    have "stream_open ps j" using assms(2) that by (simp add: streams_open_def)
    then obtain s' b' where s': "hm_get (xh_streams xh) j = Some s'" "hm_get ?senders j = Some b'"
      "tk_running (xw_tasks w ! es_task s')" "task_ready (es_task s') w"
      "xh_shared xh = Some (tk_crypto (xw_tasks w ! es_task s'))" "b' < length ?chs" "chan_receiver (?chs ! b')"
      by (rule stream_openE [OF _ x]) (rule that)
    have "chan_receiver (ce_channels (ps_client ps') ! b')"
      using s'(6,7) by (cases "b' = b") (simp_all add: p(6))
    moreover have "b' < length (ce_channels (ps_client ps'))" using s'(6) by (simp add: p(6))
    ultimately show ?thesis using s' senders p(3,4,5) by (simp add: stream_open_def)
  qed
  have pipe: "pipe_of ps' j = pipe_step (Down sid cmd d) (pipe_of ps) j" if j: "j \<in> sids" for j
  proof (cases "j = sid")
    case True
    then show ?thesis using s(1,2,6) p(3,4,6) senders x by (simp add: pipe_of_def msg_new_def)
  next
    case False
    then show ?thesis
      using other [OF j] p(3,4) senders x by (cases "hm_get ?senders j") (simp_all add: pipe_of_def split: option.split)
  qed
  show ?thesis
    using p(1,2) s(1) x open' pipe assms(2) senders by (intro exI [of _ ps']) (simp add: streams_open_def)
qed

lemma pad_step:
  assumes "path_sync P ps" "streams_open ps sids" "pick MAX_PAYLOAD_SIZE \<le> MAX_PAYLOAD_SIZE"
  shows "\<exists>ps'. path_step rnd P now (Pad pick filler) ps = Some ps' \<and> path_sync P ps' \<and> streams_open ps' sids \<and>
    (\<forall>j \<in> sids. pipe_of ps' j = pipe_step (Pad pick filler) (pipe_of ps) j)"
proof -
  obtain ps' wr where p: "path_pad pick filler ps = Some ps'" "path_sync P ps'" "ps_exit ps' = ps_exit ps"
    "ps_client ps' = (ps_client ps)\<lparr>ce_circuit := (ce_circuit (ps_client ps))\<lparr>ci_entry_writer := wr\<rparr>\<rparr>"
    using path_pad_ok [OF assms(1), of pick filler] assms(3) by blast
  have c: "ci_stream_senders (ce_circuit (ps_client ps')) = ci_stream_senders (ce_circuit (ps_client ps))"
    "ce_channels (ps_client ps') = ce_channels (ps_client ps)" using p(4) by simp_all
  have "stream_open ps' = stream_open ps" "pipe_of ps' = pipe_of ps"
    unfolding fun_eq_iff stream_open_def pipe_of_def p(3) c by simp_all
  with p(1,2) c assms(2) show ?thesis by (simp add: streams_open_def)
qed

lemma path_op_step:
  assumes "path_sync P ps" "streams_open ps sids" "op_on sids op" "op_ok op"
  shows "\<exists>ps'. path_step rnd P now op ps = Some ps' \<and> path_sync P ps' \<and> streams_open ps' sids \<and>
    (\<forall>j \<in> sids. pipe_of ps' j = pipe_step op (pipe_of ps) j)"
  using assms up_step [of P ps sids] down_step [of P ps sids] pad_step [of P ps sids]
  by (cases op) (auto simp del: path_step.simps pipe_step.simps)

lemma path_run_pipes:
  assumes "path_sync P ps" "streams_open ps sids" "\<forall>op \<in> set ops. op_on sids op \<and> op_ok op"
  shows "\<exists>ps'. path_run rnd P now ops ps = Some ps' \<and> path_sync P ps' \<and> streams_open ps' sids \<and>
    (\<forall>j \<in> sids. pipe_of ps' j = fold pipe_step ops (pipe_of ps) j)"
  using assms
proof (induction ops arbitrary: ps)
  case (Cons op ops)
  obtain ps1 where 1: "path_step rnd P now op ps = Some ps1" "path_sync P ps1" "streams_open ps1 sids"
    "\<forall>j \<in> sids. pipe_of ps1 j = pipe_step op (pipe_of ps) j"
    using path_op_step [OF Cons.prems(1,2), of op rnd now] Cons.prems(3) by auto
  obtain ps2 where 2: "path_run rnd P now ops ps1 = Some ps2" "path_sync P ps2" "streams_open ps2 sids"
    "\<forall>j \<in> sids. pipe_of ps2 j = fold pipe_step ops (pipe_of ps1) j"
    using Cons.IH [OF 1(2,3)] Cons.prems(3) by auto
  have "fold pipe_step ops (pipe_of ps1) j = fold pipe_step ops (pipe_step op (pipe_of ps)) j" if "j \<in> sids" for j
    by (rule pipe_steps_local) (use 1(4) that in auto)
  with 1(1) 2 show ?case by (intro exI [of _ ps2]) simp
qed simp

section \<open>A sample circuit\<close>

definition sample_path :: path_state where
  "sample_path = \<lparr>ps_client = \<lparr>ce_circuit = \<lparr>ci_circuit_id = 7, ci_state = CReady, ci_entry_writer = sample_writer,
       ci_onion_keys = onion_keys_new [sk_zero, sk_zero, sk_zero]
         [cipher_pair_new sk_zero, cipher_pair_new sk_zero, cipher_pair_new sk_zero],
       ci_stream_senders = [(1, 0)], ci_next_stream_id = 2, ci_path_display = None\<rparr>,
     ce_channels = [\<lparr>chan_queue = [], chan_sender = True, chan_receiver = True\<rparr>], ce_metrics = client_metrics_new 0\<rparr>,
   ps_entry = (sample_env, sample_entry, relay_metrics_new 0),
   ps_middles = [(sample_env, sample_middle, relay_metrics_new 0)],
   ps_exit = (sample_env, sample_exit, sample_world)\<rparr>"

lemma sample_path_sync: "path_sync toy_prims sample_path"
  using sample_exit_wf
  by (simp add: path_sync_def sample_path_def ps_keys_def onion_keys_new_def sample_entry_def sample_middle_def
    sample_hop_def sample_writer_def sample_env_def sample_exit_def sample_world_def sample_crypto_def)

lemma sample_path_open: "streams_open sample_path {1}"
  by (simp add: streams_open_def stream_open_def sample_path_def sample_exit_def sample_world_def hm_get_def
    sample_task_def task_ready_def sample_writer_def)

end
