(* ===== verification/Net_Text.thy ===== *)
theory Net_Text
  imports Tor_Net "HOL-Library.Sublist"
begin

text \<open>
  The text of an address reads back as the address, for IPv6 too: \<open>parse\<close> undoes
  \<open>to_string\<close> on every \<open>SocketAddr\<close> and every \<open>IpAddr\<close>, through the compressed
  \<open>::\<close>, the mapped IPv4 tail, the scope and the port. Then \<open>trim\<close> and its halves.
\<close>

section \<open>Hexadecimal groups\<close>

fun hex_digits :: "nat \<Rightarrow> nat list" where
  "hex_digits n = (if n < 16 then [n] else hex_digits (n div 16) @ [n mod 16])"

declare hex_digits.simps [simp del]

lemma show_hex_digits: "show_hex n = map digit_char (hex_digits n)"
proof (induction n rule: hex_digits.induct)
  case (1 n)
  then show ?case by (subst show_hex.simps, subst hex_digits.simps) simp
qed

lemma hex_digits_lt: "d \<in> set (hex_digits n) \<Longrightarrow> d < 16"
proof (induction n rule: hex_digits.induct)
  case (1 n)
  from 1(2) have "d \<in> set (if n < 16 then [n] else hex_digits (n div 16) @ [n mod 16])"
    by (simp only: hex_digits.simps [of n])
  with 1(1) show ?case by (auto split: if_splits)
qed

lemma hex_digits_nonempty [simp]: "hex_digits n \<noteq> []"
  by (subst hex_digits.simps) simp

lemma digits_value_hex [simp]: "digits_value 16 (hex_digits n) = n"
proof (induction n rule: hex_digits.induct)
  case (1 n)
  then show ?case by (subst hex_digits.simps) (simp add: digits_value_def)
qed

lemma hex_digits_length: "n < 16 ^ k \<Longrightarrow> 0 < k \<Longrightarrow> length (hex_digits n) \<le> k"
proof (induction k arbitrary: n)
  case (Suc k)
  show ?case
  proof (cases "n < 16")
    case True
    then show ?thesis by (subst hex_digits.simps) simp
  next
    case False
    with Suc.prems have "0 < k" by (cases k) auto
    moreover have "n div 16 < 16 ^ k" using Suc.prems(1) by (simp add: less_mult_imp_div_less)
    ultimately have "length (hex_digits (n div 16)) \<le> k" using Suc.IH by blast
    with False show ?thesis by (subst hex_digits.simps) simp
  qed
qed simp

text \<open>What may follow a group: nothing that continues it.\<close>

definition ends_group :: "string \<Rightarrow> bool" where
  "ends_group r = (r = [] \<or> (to_digit 16 (hd r) = None \<and> to_digit 10 (hd r) = None \<and> hd r \<noteq> CHR ''.''))"

lemma read_seg_show: "ends_group r \<Longrightarrow> read_seg (show_hex (unat (s :: u16)) @ r) = Some (s, r)"
proof -
  assume r: "ends_group r"
  have s: "unat s < 16 ^ 4" using unat_bounds(2) [of s] by simp
  have "span_digits 16 (show_hex (unat s) @ r) = (hex_digits (unat s), r)"
    unfolding show_hex_digits
    by (rule span_digits_append) (use r hex_digits_lt in \<open>auto simp: ends_group_def\<close>)
  then show ?thesis
    using hex_digits_length [OF s] s by (simp add: read_seg_def read_number_def)
qed

text \<open>A group is no IPv4 address: the decimal digits it starts with are not followed by a dot.\<close>

lemma span_digits_rest:
  "\<forall>c \<in> set xs. c \<noteq> CHR ''.'' \<Longrightarrow> ends_group r \<Longrightarrow> span_digits 10 (xs @ r) = (ds, q) \<Longrightarrow> q = [] \<or> hd q \<noteq> CHR ''.''"
proof (induction xs arbitrary: ds)
  case Nil
  then show ?case by (cases r) (auto simp: ends_group_def)
next
  case (Cons c xs)
  show ?case
  proof (cases "to_digit 10 c")
    case None
    then have "q = c # xs @ r" using Cons.prems(3) by simp
    then show ?thesis using Cons.prems(1) by simp
  next
    case (Some d)
    obtain es p where sp: "span_digits 10 (xs @ r) = (es, p)" by force
    then have "span_digits 10 (xs @ r) = (es, q)" using Some Cons.prems(3) by simp
    then show ?thesis using Cons.IH [OF _ Cons.prems(2)] Cons.prems(1) by simp
  qed
qed

lemma digit_char_no_dot: "d < 16 \<Longrightarrow> digit_char d \<noteq> CHR ''.''"
proof -
  assume "d < 16"
  then have "to_digit 16 (digit_char d) = Some d" by (simp add: to_digit_digit_char)
  moreover have "to_digit 16 CHR ''.'' = None" by (simp add: to_digit_def)
  ultimately show ?thesis by (metis option.distinct(1))
qed

lemma read_ipv4_group: "ends_group r \<Longrightarrow> read_ipv4 (show_hex n @ r) = None"
proof -
  assume r: "ends_group r"
  obtain ds q where sp: "span_digits 10 (show_hex n @ r) = (ds, q)" by force
  have "q = [] \<or> hd q \<noteq> CHR ''.''"
    by (rule span_digits_rest [OF _ r sp]) (use hex_digits_lt digit_char_no_dot in \<open>auto simp: show_hex_digits\<close>)
  then have "read_char CHR ''.'' q = None" by (cases q) (auto simp: read_char_def)
  with sp show ?thesis
    by (auto simp: read_ipv4_def read_sep_def read_octet_def read_number_def Let_def split: option.splits)
qed

section \<open>Runs of groups\<close>

text \<open>Groups, each after its colon; and what ends a run of them.\<close>

definition colon_groups :: "u16 list \<Rightarrow> string" where
  "colon_groups gs = concat (map (\<lambda>s. CHR '':'' # show_hex (unat s)) gs)"

definition ends_run :: "string \<Rightarrow> bool" where
  "ends_run r = (ends_group r \<and> (r = [] \<or> hd r \<noteq> CHR '':'' \<or> (\<exists>q. r = CHR '':'' # CHR '':'' # q)))"

lemma ends_group_colon [simp]: "ends_group (CHR '':'' # q)"
  by (simp add: ends_group_def to_digit_def)

lemma ends_group_not_read: "ends_group r \<Longrightarrow> read_ipv4 r = None \<and> read_seg r = None"
  by (cases r) (auto simp: ends_group_def read_ipv4_def read_sep_def read_octet_def read_number_def read_seg_def)

lemma ends_group_groups: "ends_group r \<Longrightarrow> ends_group (colon_groups gs @ r)"
  by (cases gs) (simp_all add: colon_groups_def)

lemma read_groups_stop:
  assumes "ends_run r"
  shows "read_groups fuel i limit r = (([], False), r)"
proof (cases fuel)
  case (Suc k)
  have "read_sep CHR '':'' i read_ipv4 r = None" "read_sep CHR '':'' i read_seg r = None"
    using assms ends_group_not_read
    by (cases r; force simp: ends_run_def read_sep_def read_char_def)+
  with Suc show ?thesis by simp
qed simp

lemma read_groups_colon:
  assumes "length gs \<le> fuel" "ends_run r" "0 < i"
  shows "read_groups fuel i limit (colon_groups gs @ r) = ((gs, False), r)"
  using assms
proof (induction gs arbitrary: fuel i)
  case Nil
  then show ?case using read_groups_stop by (simp add: colon_groups_def)
next
  case (Cons g gs)
  then obtain k where k: "fuel = Suc k" "length gs \<le> k" by (cases fuel) auto
  have r: "ends_group (colon_groups gs @ r)" using Cons.prems(2) by (simp add: ends_group_groups ends_run_def)
  have "read_groups k (Suc i) limit (colon_groups gs @ r) = ((gs, False), r)" using Cons k by simp
  then show ?case
    using read_seg_show [OF r] read_ipv4_group [OF r] Cons.prems(3)
    by (simp add: k colon_groups_def read_sep_def)
qed

lemma show_segs_Cons: "show_segs (g # gs) = show_hex (unat g) @ colon_groups gs"
  by (induction gs arbitrary: g) (simp_all add: show_segs_def colon_groups_def)

lemma read_groups_segs:
  assumes "length gs \<le> fuel" "ends_run r"
  shows "read_groups fuel 0 limit (show_segs gs @ r) = ((gs, False), r)"
proof (cases gs)
  case Nil
  then show ?thesis using read_groups_stop [OF assms(2)] by (simp add: show_segs_def)
next
  case (Cons g hs)
  then obtain k where k: "fuel = Suc k" "length hs \<le> k" using assms(1) by (cases fuel) auto
  have r: "ends_group (colon_groups hs @ r)" using assms(2) by (simp add: ends_group_groups ends_run_def)
  show ?thesis
    using read_seg_show [OF r] read_ipv4_group [OF r] read_groups_colon [OF k(2) assms(2), of "Suc 0" limit]
    by (simp add: k Cons show_segs_Cons read_sep_def)
qed

section \<open>IPv6\<close>

text \<open>The run \<open>zero_span\<close> finds is a run of zeros.\<close>

definition zero_run :: "u16 list \<Rightarrow> nat \<times> nat \<Rightarrow> bool" where
  "zero_run ss b = (fst b + snd b \<le> length ss \<and> take (snd b) (drop (fst b) ss) = replicate (snd b) 0)"

lemma zero_run_append: "zero_run xs b \<Longrightarrow> zero_run (xs @ ys) b"
  by (auto simp: zero_run_def)

lemma zero_run_extend:
  assumes "zero_run xs c" "fst c + snd c = length xs"
  shows "zero_run (xs @ [0]) (fst c, Suc (snd c))"
proof -
  have "take (snd c) (drop (fst c) xs) = replicate (snd c) 0" "length (drop (fst c) xs) = snd c"
    using assms by (auto simp: zero_run_def)
  then have "drop (fst c) xs = replicate (snd c) 0" by simp
  then show ?thesis using assms(2) by (simp add: zero_run_def replicate_append_same)
qed

lemma zero_span_run:
  assumes "zero_run xs best" "snd cur \<noteq> 0 \<Longrightarrow> zero_run xs cur \<and> fst cur + snd cur = length xs"
  shows "zero_run (xs @ ss) (zero_span ss (length xs) cur best)"
  using assms
proof (induction ss arbitrary: xs cur best)
  case (Cons s ss)
  show ?case
  proof (cases "s = 0")
    case True
    let ?c = "if snd cur = 0 then (length xs, 1) else (fst cur, Suc (snd cur))"
    have "zero_run (xs @ [0]) ?c \<and> fst ?c + snd ?c = length (xs @ [0])"
      using Cons.prems(2) zero_run_extend [of xs cur] by (auto simp: zero_run_def)
    moreover have "zero_run (xs @ [0]) (if snd best < snd ?c then ?c else best)"
      using calculation zero_run_append [OF Cons.prems(1)] by simp
    ultimately have "zero_run ((xs @ [0]) @ ss) (zero_span ss (length (xs @ [0])) ?c (if snd best < snd ?c then ?c else best))"
      using Cons.IH by blast
    with True show ?thesis by (simp add: Let_def)
  next
    case False
    have "zero_run ((xs @ [s]) @ ss) (zero_span ss (length (xs @ [s])) (0, 0) best)"
      using Cons.IH [of "xs @ [s]" best "(0, 0)"] zero_run_append [OF Cons.prems(1)] by simp
    with False show ?thesis by simp
  qed
qed simp

lemma read_ipv6_show:
  assumes "length ss = 8" "ends_run r" "r = [] \<or> hd r \<noteq> CHR '':''"
  shows "read_ipv6 (show_v6 ss @ r) = Some (ss, r)"
proof (cases "take 6 ss = [0, 0, 0, 0, 0, 0xFFFF]")
  case True
  obtain a b where ab: "ss = [0, 0, 0, 0, 0, 0xFFFF, a, b]"
  proof -
    define d where "d = drop 6 ss"
    have "length d = 2" using assms(1) by (simp add: d_def)
    then obtain a b where "d = [a, b]" by (auto simp: length_Suc_conv numeral_2_eq_2)
    with True have "ss = [0, 0, 0, 0, 0, 0xFFFF, a, b]"
      using append_take_drop_id [of 6 ss] by (simp add: d_def)
    then show thesis by (rule that)
  qed
  have v4: "read_ipv4 (show_v4 (be16 a @ be16 b) @ r) = Some (be16 a @ be16 b, r)"
    by (rule read_ipv4_show) (use assms(2) in \<open>auto simp: ends_run_def ends_group_def\<close>)
  have hex: "show_hex (unat (0xFFFF :: u16)) = ''ffff''"
    by (simp add: show_hex.simps digit_char_def) code_simp
  have g1: "read_groups 8 0 8 (''::ffff:'' @ show_v4 (be16 a @ be16 b) @ r) =
      (([], False), ''::ffff:'' @ show_v4 (be16 a @ be16 b) @ r)"
    by (rule read_groups_stop) (simp add: ends_run_def)
  have seg: "read_seg (''ffff'' @ CHR '':'' # q) = Some (0xFFFF, CHR '':'' # q)"
    "read_ipv4 (''ffff'' @ CHR '':'' # q) = None" for q
    using read_seg_show [of "CHR '':'' # q" "0xFFFF"] read_ipv4_group [of "CHR '':'' # q" "unat (0xFFFF :: u16)"]
    unfolding hex by simp_all
  have g2: "read_groups 7 0 7 (''ffff:'' @ show_v4 (be16 a @ be16 b) @ r) = (([0xFFFF, a, b], True), r)"
    using seg v4 by (simp add: eval_nat_numeral read_sep_def)
  show ?thesis
    using g1 g2 by (simp add: ab show_v6_def v4_of_segs_def read_ipv6_def eval_nat_numeral)
next
  case False
  obtain st len where z: "zero_span ss 0 (0, 0) (0, 0) = (st, len)" by force
  have run: "zero_run ss (st, len)"
    using zero_span_run [of "[]" "(0, 0)" "(0, 0)" ss] z by (simp add: zero_run_def)
  show ?thesis
  proof (cases "1 < len")
    case True
    let ?A = "take st ss" let ?B = "drop (st + len) ss"
    have run': "st + len \<le> 8" "take len (drop st ss) = replicate len 0" using run assms(1) by (simp_all add: zero_run_def)
    have whole: "ss = ?A @ replicate len 0 @ ?B"
      using run'(2) by (metis add.commute append_take_drop_id drop_drop)
    have g1: "read_groups 8 0 8 (show_segs ?A @ CHR '':'' # CHR '':'' # show_segs ?B @ r) =
        ((?A, False), CHR '':'' # CHR '':'' # show_segs ?B @ r)"
      by (rule read_groups_segs) (use assms(1) in \<open>simp_all add: ends_run_def\<close>)
    have g2: "read_groups (8 - (length ?A + 1)) 0 (8 - (length ?A + 1)) (show_segs ?B @ r) = ((?B, False), r)"
      by (rule read_groups_segs) (use assms(1,2) True in auto)
    have len: "8 - length ?A - length ?B = len" "length ?A \<noteq> 8" using run'(1) assms(1) True by auto
    have "read_ipv6 (show_segs ?A @ CHR '':'' # CHR '':'' # show_segs ?B @ r) = Some (?A @ replicate len 0 @ ?B, r)"
      unfolding read_ipv6_def g1 using g2 len by simp
    with whole z True False show ?thesis by (simp add: show_v6_def)
  next
    case no: False
    have "read_groups 8 0 8 (show_segs ss @ r) = ((ss, False), r)"
      by (rule read_groups_segs) (use assms(1,2) in simp_all)
    with z no False assms(1) show ?thesis by (simp add: show_v6_def read_ipv6_def)
  qed
qed

section \<open>Addresses\<close>

lemma read_ipv4_segs: "ends_group r \<Longrightarrow> read_ipv4 (show_segs gs @ r) = None"
proof (cases gs)
  case (Cons g hs)
  assume "ends_group r"
  then have "ends_group (colon_groups hs @ r)" by (rule ends_group_groups)
  then show ?thesis by (simp add: Cons show_segs_Cons read_ipv4_group)
qed (simp add: show_segs_def ends_group_not_read)

lemma read_ipv4_v6: "ends_group r \<Longrightarrow> read_ipv4 (show_v6 ss @ r) = None"
  using ends_group_not_read [OF ends_group_colon]
  by (auto simp: show_v6_def split: prod.split intro!: read_ipv4_segs)

lemma parse_show_ip: "ip_wf a \<Longrightarrow> parse_ip (show_ip a) = Some a"
proof (cases a)
  case (V6 ss)
  assume "ip_wf a"
  then have "read_ipv6 (show_v6 ss) = Some (ss, [])" "read_ipv4 (show_v6 ss) = None"
    using read_ipv6_show [of ss "[]"] read_ipv4_v6 [of "[]" ss] V6 by (simp_all add: ends_run_def ends_group_def)
  then show ?thesis by (simp add: V6 parse_ip_def)
qed (use parse_ip_show_v4 in simp)

text \<open>What may follow the address between the brackets.\<close>

lemma ends_run_tail [simp]: "ends_run (CHR '']'' # q)" "ends_run (CHR ''%'' # q)"
  by (simp_all add: ends_run_def ends_group_def to_digit_def)

lemma read_scope_show:
  "read_scope (CHR ''%'' # show_nat (unat (sc :: u32)) @ CHR '']'' # q) = Some (sc, CHR '']'' # q)"
proof -
  have "unat sc \<le> 2 ^ 32 - 1" using unsigned_less [where 'a = nat, of sc] by simp
  then have "read_number 10 None True (2 ^ 32 - 1) (show_nat (unat sc) @ CHR '']'' # q) = Some (unat sc, CHR '']'' # q)"
    by (intro read_number_show) (simp_all add: to_digit_def)
  then show ?thesis by (simp add: read_scope_def)
qed

lemma parse_show_socket_addr: "socket_wf a \<Longrightarrow> parse_socket_addr (show_socket_addr a) = Some a"
proof (cases a)
  case (SocketAddr ip p sc)
  assume wf: "socket_wf a"
  show ?thesis
  proof (cases ip)
    case (V4 os)
    then show ?thesis using wf SocketAddr parse_show_v4 [of os p] by (simp add: socket_wf_def)
  next
    case (V6 ss)
    then have len: "length ss = 8" using wf SocketAddr by (simp add: socket_wf_def)
    let ?port = "CHR '']'' # CHR '':'' # show_nat (unat p)"
    let ?tail = "(if sc = 0 then '''' else ''%'' @ show_nat (unat sc)) @ ?port"
    have v6: "read_ipv6 (show_v6 ss @ ?tail) = Some (ss, ?tail)" by (rule read_ipv6_show [OF len]) simp_all
    have "read_ipv4 (CHR ''['' # q) = None" for q
      using ends_group_not_read [of "CHR ''['' # q"] by (simp add: ends_group_def to_digit_def)
    then have "read_socket_v4 (CHR ''['' # q) = None" for q by (simp add: read_socket_v4_def)
    moreover have "(case read_scope ?tail of None \<Rightarrow> (0, ?tail) | Some (sc, r) \<Rightarrow> (sc, r)) = (sc, ?port)"
      using read_scope_show [of sc "CHR '':'' # show_nat (unat p)"] by (simp add: read_scope_def read_char_def)
    ultimately show ?thesis
      using v6 read_port_show [of p] by (simp add: SocketAddr V6 parse_socket_addr_def read_socket_v6_def)
  qed
qed

section \<open>What the parser yields is well formed\<close>

lemma read_groups_length:
  "read_groups fuel i limit s = ((gs, v4), r) \<Longrightarrow> i + fuel \<le> limit \<Longrightarrow> i + length gs \<le> limit"
proof (induction fuel arbitrary: i s gs v4 r)
  case (Suc fuel)
  show ?case
  proof (cases "if i + 1 < limit then read_sep CHR '':'' i read_ipv4 s else None")
    case (Some x)
    then have "i + 1 < limit" by (auto split: if_splits)
    moreover have "length gs = 2" using Suc.prems(1) Some by (cases x) auto
    ultimately show ?thesis by simp
  next
    case None
    show ?thesis
    proof (cases "read_sep CHR '':'' i read_seg s")
      case no: None
      then show ?thesis using Suc.prems None by simp
    next
      case (Some y)
      obtain g q where y: "y = (g, q)" by force
      obtain hs w p where rec: "read_groups fuel (Suc i) limit q = ((hs, w), p)" by (metis surj_pair)
      then have "gs = g # hs" using Suc.prems(1) None Some y by simp
      with Suc.IH [OF rec] Suc.prems(2) show ?thesis by simp
    qed
  qed
qed simp

lemma read_ipv4_wf: "read_ipv4 s = Some (os, r) \<Longrightarrow> length os = 4"
  by (auto simp: read_ipv4_def split: option.splits)

lemma read_ipv6_wf:
  assumes "read_ipv6 s = Some (ss, r)"
  shows "length ss = 8"
proof -
  obtain h hv s1 where h: "read_groups 8 0 8 s = ((h, hv), s1)" by (metis surj_pair)
  have h8: "length h \<le> 8" using read_groups_length [OF h] by simp
  show ?thesis
  proof (cases "length h = 8")
    case True
    then show ?thesis using assms h by (simp add: read_ipv6_def)
  next
    case False
    then obtain s3 where s3: "(let limit = 8 - (length h + 1); ((tl_gs, _), s4) = read_groups limit 0 limit s3
        in Some (h @ replicate (8 - length h - length tl_gs) 0 @ tl_gs, s4)) = Some (ss, r)"
      using assms h by (auto simp: read_ipv6_def split: if_splits option.splits)
    obtain t tv s4 where t: "read_groups (8 - (length h + 1)) 0 (8 - (length h + 1)) s3 = ((t, tv), s4)" by (metis surj_pair)
    have "length t \<le> 8 - (length h + 1)" using read_groups_length [OF t] by simp
    moreover have "ss = h @ replicate (8 - length h - length t) 0 @ t" using s3 t by (simp add: Let_def)
    ultimately show ?thesis using h8 False by simp
  qed
qed

lemma parse_ip_wf: "parse_ip s = Some a \<Longrightarrow> ip_wf a"
  by (auto simp: parse_ip_def split: option.splits if_splits; (erule read_ipv4_wf | erule read_ipv6_wf))

lemma parse_socket_addr_wf: "parse_socket_addr s = Some a \<Longrightarrow> socket_wf a"
  by (auto simp: parse_socket_addr_def read_socket_v4_def read_socket_v6_def socket_wf_def Let_def
      split: option.splits if_splits prod.splits; (erule read_ipv4_wf | erule read_ipv6_wf))

section \<open>White space\<close>

text \<open>\<open>trim_start\<close> and \<open>trim\<close>: the white space of Unicode, in UTF-8.\<close>

definition white_space :: "string list" where
  "white_space = [[CHR 0x09], [CHR 0x0A], [CHR 0x0B], [CHR 0x0C], [CHR 0x0D], [CHR 0x20],
     [CHR 0xC2, CHR 0x85], [CHR 0xC2, CHR 0xA0], [CHR 0xE1, CHR 0x9A, CHR 0x80],
     [CHR 0xE2, CHR 0x80, CHR 0x80], [CHR 0xE2, CHR 0x80, CHR 0x81], [CHR 0xE2, CHR 0x80, CHR 0x82],
     [CHR 0xE2, CHR 0x80, CHR 0x83], [CHR 0xE2, CHR 0x80, CHR 0x84], [CHR 0xE2, CHR 0x80, CHR 0x85],
     [CHR 0xE2, CHR 0x80, CHR 0x86], [CHR 0xE2, CHR 0x80, CHR 0x87], [CHR 0xE2, CHR 0x80, CHR 0x88],
     [CHR 0xE2, CHR 0x80, CHR 0x89], [CHR 0xE2, CHR 0x80, CHR 0x8A], [CHR 0xE2, CHR 0x80, CHR 0xA8],
     [CHR 0xE2, CHR 0x80, CHR 0xA9], [CHR 0xE2, CHR 0x80, CHR 0xAF], [CHR 0xE2, CHR 0x81, CHR 0x9F],
     [CHR 0xE3, CHR 0x80, CHR 0x80]]"

definition leading_space :: "string \<Rightarrow> nat" where
  "leading_space s = (case filter (\<lambda>w. prefix w s) white_space of [] \<Rightarrow> 0 | w # _ \<Rightarrow> length w)"

function trim_start :: "string \<Rightarrow> string" where
  "trim_start s = (if s = [] \<or> leading_space s = 0 then s else trim_start (drop (leading_space s) s))"
  by pat_completeness auto
termination by (relation "measure length") auto

declare trim_start.simps [simp del]

text \<open>At the end, with the string and the encodings read backwards.\<close>

definition trailing_space :: "string \<Rightarrow> nat" where
  "trailing_space s = (case filter (\<lambda>w. suffix w s) white_space of [] \<Rightarrow> 0 | w # _ \<Rightarrow> length w)"

function trim_end :: "string \<Rightarrow> string" where
  "trim_end s = (if s = [] \<or> trailing_space s = 0 then s else trim_end (take (length s - trailing_space s) s))"
  by pat_completeness auto
termination by (relation "measure length") (auto simp: diff_less)

declare trim_end.simps [simp del]

definition str_trim :: "string \<Rightarrow> string" where
  "str_trim s = trim_end (trim_start s)"

end
