(* ===== verification/Dir_Service.thy ===== *)
theory Dir_Service
  imports Dir_Registry Relay_Node Net_Text
begin

text \<open>
  The discovery service around its registry: the messages on the wire and their conversions
  (\<open>proto/src/lib.rs\<close>, \<open>proto/definitions\<close>), the gRPC handlers
  (\<open>discovery/src/api/grpc.rs\<close>), its metrics (\<open>discovery/src/core/metrics.rs\<close>) and the
  cleanup task (\<open>discovery/src/main.rs\<close>); and the two ends that call it, a relay
  (\<open>relay-node/src/main.rs\<close>) and the client's directory (\<open>tor-client/src/client\<close>). A call
  is its handler; the encoding of messages as bytes is the library's. \<open>et\<close> is the text of
  the library's error for a number that is no node type.
\<close>

section \<open>Messages\<close>

datatype proto_node_type = PUnspecified | PEntry | PMiddle | PExit

text \<open>The numbers of the enumeration, \<open>as i32\<close> and \<open>try_from\<close>.\<close>

fun proto_type_code :: "proto_node_type \<Rightarrow> int" where
  "proto_type_code PUnspecified = 0"
| "proto_type_code PEntry = 1"
| "proto_type_code PMiddle = 2"
| "proto_type_code PExit = 3"

definition proto_type_of_code :: "int \<Rightarrow> proto_node_type option" where
  "proto_type_of_code c =
     (if c = 0 then Some PUnspecified else if c = 1 then Some PEntry
      else if c = 2 then Some PMiddle else if c = 3 then Some PExit else None)"

record proto_policy =
  pp_allowed_ports :: "u32 list"
  pp_blocked_ports :: "u32 list"
  pp_allowed_ips :: "bytes list"
  pp_blocked_ips :: "bytes list"

record proto_descriptor =
  pd_node_id :: string
  pd_node_type :: int
  pd_address :: string
  pd_public_key :: "bytes option"
  pd_bandwidth :: u64
  pd_exit_policy :: "proto_policy option"
  pd_operator_id :: "string option"
  pd_tls_cert_fingerprint :: string

record proto_metrics =
  pm_connections_accepted :: u64
  pm_circuits_active :: u64
  pm_circuits_created :: u64
  pm_circuits_destroyed :: u64
  pm_bytes_forwarded :: u64
  pm_bytes_received :: u64
  pm_streams_opened :: u64
  pm_uptime_secs :: u64
  pm_event_snapshot :: "string list"

record proto_stats =
  ps_total_nodes :: u64
  ps_entry_count :: u64
  ps_middle_count :: u64
  ps_exit_count :: u64
  ps_oldest_node_age_secs :: "u64 option"
  ps_newest_node_age_secs :: "u64 option"

datatype grpc_code = InvalidArgument | NotFound | Unavailable | Internal

datatype status = Status grpc_code string

section \<open>Conversions\<close>

fun node_type_to_proto :: "node_type \<Rightarrow> proto_node_type" where
  "node_type_to_proto Entry = PEntry"
| "node_type_to_proto Middle = PMiddle"
| "node_type_to_proto Exit = PExit"

fun node_type_from_proto :: "proto_node_type \<Rightarrow> status + node_type" where
  "node_type_from_proto PEntry = Inr Entry"
| "node_type_from_proto PMiddle = Inr Middle"
| "node_type_from_proto PExit = Inr Exit"
| "node_type_from_proto PUnspecified = Inl (Status InvalidArgument ''NodeType unspecified'')"

definition public_key_to_proto :: "public_key \<Rightarrow> bytes" where
  "public_key_to_proto k = pk_bytes k"

definition public_key_from_proto :: "bytes \<Rightarrow> status + public_key" where
  "public_key_from_proto bs =
     (if length bs = 32 then Inr (pk_new bs)
      else Inl (Status InvalidArgument ''PublicKey must be exactly 32 bytes''))"

fun ip_to_bytes :: "ip_addr \<Rightarrow> bytes" where
  "ip_to_bytes (V4 os) = os"
| "ip_to_bytes (V6 ss) = concat (map be16 ss)"

definition segs_of_octets :: "bytes \<Rightarrow> u16 list" where
  "segs_of_octets bs = map (\<lambda>i. of_be16 (take 2 (drop (2 * i) bs))) [0..<8]"

definition ip_from_bytes :: "bytes \<Rightarrow> status + ip_addr" where
  "ip_from_bytes bs =
     (if length bs = 4 then Inr (V4 bs)
      else if length bs = 16 then Inr (V6 (segs_of_octets bs))
      else Inl (Status InvalidArgument (''Invalid IP byte length: '' @ show_nat (length bs))))"

definition policy_to_proto :: "exit_policy \<Rightarrow> proto_policy" where
  "policy_to_proto p = \<lparr>pp_allowed_ports = map ucast (allowed_ports p), pp_blocked_ports = map ucast (blocked_ports p),
     pp_allowed_ips = map ip_to_bytes (allowed_ips p), pp_blocked_ips = map ip_to_bytes (blocked_ips p)\<rparr>"

text \<open>\<open>p as u16\<close> keeps the low sixteen bits.\<close>

definition policy_from_proto :: "proto_policy \<Rightarrow> status + exit_policy" where
  "policy_from_proto p =
     (case collect_results ip_from_bytes (pp_allowed_ips p) of Inl e \<Rightarrow> Inl e | Inr al \<Rightarrow>
      (case collect_results ip_from_bytes (pp_blocked_ips p) of Inl e \<Rightarrow> Inl e | Inr bl \<Rightarrow>
       Inr \<lparr>allowed_ports = map ucast (pp_allowed_ports p), blocked_ports = map ucast (pp_blocked_ports p),
            allowed_ips = al, blocked_ips = bl\<rparr>))"

definition descriptor_to_proto :: "node_descriptor \<Rightarrow> proto_descriptor" where
  "descriptor_to_proto d = \<lparr>pd_node_id = node_id d, pd_node_type = proto_type_code (node_type_to_proto (node_type d)),
     pd_address = show_socket_addr (address d), pd_public_key = Some (public_key_to_proto (public_key d)),
     pd_bandwidth = bandwidth d, pd_exit_policy = map_option policy_to_proto (nd_exit_policy d),
     pd_operator_id = operator_id d, pd_tls_cert_fingerprint = tls_cert_fingerprint d\<rparr>"

definition descriptor_from_proto :: "(int \<Rightarrow> string) \<Rightarrow> proto_descriptor \<Rightarrow> status + node_descriptor" where
  "descriptor_from_proto et d =
     (case proto_type_of_code (pd_node_type d) of
        None \<Rightarrow> Inl (Status InvalidArgument (''Invalid node type: '' @ et (pd_node_type d)))
      | Some t \<Rightarrow>
     (case node_type_from_proto t of Inl e \<Rightarrow> Inl e | Inr nt \<Rightarrow>
     (case parse_socket_addr (pd_address d) of
        None \<Rightarrow> Inl (Status InvalidArgument ''Invalid address: invalid socket address syntax'')
      | Some a \<Rightarrow>
     (case pd_public_key d of
        None \<Rightarrow> Inl (Status InvalidArgument ''PublicKey is required'')
      | Some pk \<Rightarrow>
     (case public_key_from_proto pk of Inl e \<Rightarrow> Inl e | Inr k \<Rightarrow>
     (case (case pd_exit_policy d of
              None \<Rightarrow> Inr None
            | Some p \<Rightarrow> (case policy_from_proto p of Inl e \<Rightarrow> Inl e | Inr p \<Rightarrow> Inr (Some p))) of
        Inl e \<Rightarrow> Inl e
      | Inr pol \<Rightarrow>
          Inr \<lparr>node_id = pd_node_id d, node_type = nt, address = a, public_key = k, bandwidth = pd_bandwidth d,
               nd_exit_policy = pol, operator_id = pd_operator_id d,
               tls_cert_fingerprint = pd_tls_cert_fingerprint d\<rparr>))))))"

definition metrics_to_proto :: "node_metrics \<Rightarrow> proto_metrics" where
  "metrics_to_proto m = \<lparr>pm_connections_accepted = connections_accepted m, pm_circuits_active = circuits_active m,
     pm_circuits_created = circuits_created m, pm_circuits_destroyed = circuits_destroyed m,
     pm_bytes_forwarded = bytes_forwarded m, pm_bytes_received = bytes_received m,
     pm_streams_opened = streams_opened m, pm_uptime_secs = uptime_secs m, pm_event_snapshot = event_snapshot m\<rparr>"

definition metrics_from_proto :: "proto_metrics \<Rightarrow> node_metrics" where
  "metrics_from_proto m = \<lparr>connections_accepted = pm_connections_accepted m, circuits_active = pm_circuits_active m,
     circuits_created = pm_circuits_created m, circuits_destroyed = pm_circuits_destroyed m,
     bytes_forwarded = pm_bytes_forwarded m, bytes_received = pm_bytes_received m,
     streams_opened = pm_streams_opened m, uptime_secs = pm_uptime_secs m, event_snapshot = pm_event_snapshot m\<rparr>"

definition stats_to_proto :: "registry_stats \<Rightarrow> proto_stats" where
  "stats_to_proto s = \<lparr>ps_total_nodes = word_of_nat (total_nodes s), ps_entry_count = word_of_nat (entry_count s),
     ps_middle_count = word_of_nat (middle_count s), ps_exit_count = word_of_nat (exit_count s),
     ps_oldest_node_age_secs = map_option word_of_nat (oldest_node_age_secs s),
     ps_newest_node_age_secs = map_option word_of_nat (newest_node_age_secs s)\<rparr>"

section \<open>Metrics of the service\<close>

datatype dir_event =
    NodeRegistered string string string
  | NodeRemoved string
  | HeartbeatReceived string
  | PathRequested
  | StaleCleanup nat
  | StatsQueried
  | HealthCheck bool
  | DirError string

record dir_metrics =
  dm_registrations :: u64
  dm_removals :: u64
  dm_heartbeats :: u64
  dm_path_requests :: u64
  dm_stale_cleaned :: u64
  dm_events :: "dir_event event_buffer"
  dm_start_time :: nat

definition dir_metrics_new :: "nat \<Rightarrow> dir_metrics" where
  "dir_metrics_new now = \<lparr>dm_registrations = 0, dm_removals = 0, dm_heartbeats = 0, dm_path_requests = 0,
     dm_stale_cleaned = 0, dm_events = eb_new now EVENT_BUFFER_CAPACITY, dm_start_time = now\<rparr>"

definition dm_push_event :: "nat \<Rightarrow> dir_event \<Rightarrow> dir_metrics \<Rightarrow> dir_metrics" where
  "dm_push_event now k m = m\<lparr>dm_events := eb_push now k (dm_events m)\<rparr>"

definition dm_uptime :: "nat \<Rightarrow> dir_metrics \<Rightarrow> nat" where
  "dm_uptime now m = now - dm_start_time m"

section \<open>The handlers\<close>

text \<open>\<open>AppState\<close>.\<close>

record dir_state =
  ds_registry :: node_registry
  ds_metrics :: "dir_metrics option"

definition dir_state_new :: "nat \<Rightarrow> bool \<Rightarrow> dir_state" where
  "dir_state_new now same_ip = \<lparr>ds_registry = registry_new same_ip, ds_metrics = Some (dir_metrics_new now)\<rparr>"

text \<open>\<open>if let Some(m) = &self.state.metrics\<close>.\<close>

definition on_metrics :: "(dir_metrics \<Rightarrow> dir_metrics) \<Rightarrow> dir_state \<Rightarrow> dir_state" where
  "on_metrics f st = st\<lparr>ds_metrics := map_option f (ds_metrics st)\<rparr>"

fun show_registry_error :: "registry_error \<Rightarrow> string" where
  "show_registry_error (NodeNotFound s) = ''Node not found: '' @ s"
| "show_registry_error (InsufficientNodes s) = ''Insufficient nodes: '' @ s"
| "show_registry_error (NodeAlreadyExists s) = ''Node already registered: '' @ s"
| "show_registry_error (InvalidNode s) = ''Invalid node data: '' @ s"

text \<open>The two \<open>map_err\<close> of the handlers.\<close>

definition node_status :: "registry_error \<Rightarrow> status" where
  "node_status e = (case e of NodeNotFound _ \<Rightarrow> Status NotFound (show_registry_error e)
     | _ \<Rightarrow> Status Internal (show_registry_error e))"

definition path_status :: "registry_error \<Rightarrow> status" where
  "path_status e = (case e of InsufficientNodes _ \<Rightarrow> Status Unavailable (show_registry_error e)
     | _ \<Rightarrow> Status Internal (show_registry_error e))"

definition not_ready_message :: string where
  "not_ready_message =
     ''Insufficient nodes to build circuits. Need at least 1 entry, 1 middle, and 1 exit node.''"

record health_response =
  hr_status :: string
  hr_ready :: bool
  hr_message :: "string option"

definition rpc_health_check :: "nat \<Rightarrow> dir_state \<Rightarrow> (status + health_response) \<times> dir_state" where
  "rpc_health_check now st =
     (let ready = is_ready (ds_registry st)
      in (Inr \<lparr>hr_status = ''ok'', hr_ready = ready, hr_message = (if ready then None else Some not_ready_message)\<rparr>,
          on_metrics (dm_push_event now (HealthCheck ready)) st))"

definition rpc_readiness_check :: "dir_state \<Rightarrow> (status + unit) \<times> dir_state" where
  "rpc_readiness_check st =
     (if is_ready (ds_registry st) then (Inr (), st) else (Inl (Status Unavailable not_ready_message), st))"

definition rpc_register_node ::
  "(int \<Rightarrow> string) \<Rightarrow> nat \<Rightarrow> proto_descriptor \<Rightarrow> dir_state \<Rightarrow> (status + string) \<times> dir_state"
where
  "rpc_register_node et now pd st =
     (case descriptor_from_proto et pd of
        Inl e \<Rightarrow> (Inl e, st)
      | Inr d \<Rightarrow>
          if node_id d = '''' then (Inl (Status InvalidArgument ''Node ID cannot be empty''), st)
          else if bandwidth d = 0 then (Inl (Status InvalidArgument ''Bandwidth must be greater than 0''), st)
          else (Inr ''Node registered successfully'',
                on_metrics (\<lambda>m. dm_push_event now
                    (NodeRegistered (node_id d) (show_node_type (node_type d)) (show_socket_addr (address d)))
                    (m\<lparr>dm_registrations := dm_registrations m + 1\<rparr>))
                  (st\<lparr>ds_registry := register_node now d (ds_registry st)\<rparr>)))"

definition rpc_remove_node :: "nat \<Rightarrow> string \<Rightarrow> dir_state \<Rightarrow> (status + unit) \<times> dir_state" where
  "rpc_remove_node now i st =
     (case remove_node i (ds_registry st) of
        (Inl e, reg) \<Rightarrow> (Inl (node_status e), st\<lparr>ds_registry := reg\<rparr>)
      | (Inr _, reg) \<Rightarrow>
          (Inr (), on_metrics (\<lambda>m. dm_push_event now (NodeRemoved i) (m\<lparr>dm_removals := dm_removals m + 1\<rparr>))
             (st\<lparr>ds_registry := reg\<rparr>)))"

definition rpc_update_heartbeat ::
  "nat \<Rightarrow> string \<Rightarrow> proto_metrics option \<Rightarrow> dir_state \<Rightarrow> (status + unit) \<times> dir_state"
where
  "rpc_update_heartbeat now i pm st =
     (case pm of
        None \<Rightarrow> (Inl (Status InvalidArgument ''Metrics are required''), st)
      | Some m \<Rightarrow>
          (case update_heartbeat_with_metrics now i (metrics_from_proto m) (ds_registry st) of
             (Inl e, reg) \<Rightarrow> (Inl (node_status e), st\<lparr>ds_registry := reg\<rparr>)
           | (Inr _, reg) \<Rightarrow>
               (Inr (), on_metrics (\<lambda>m. dm_push_event now (HeartbeatReceived i) (m\<lparr>dm_heartbeats := dm_heartbeats m + 1\<rparr>))
                  (st\<lparr>ds_registry := reg\<rparr>))))"

definition rpc_get_all_nodes :: "dir_state \<Rightarrow> proto_descriptor list \<times> u64" where
  "rpc_get_all_nodes st =
     (let ns = get_all_nodes (ds_registry st)
      in (map descriptor_to_proto ns, word_of_nat (length ns)))"

definition rpc_get_random_path ::
  "'r draw \<Rightarrow> nat \<Rightarrow> u32 \<Rightarrow> dir_state \<times> 'r \<Rightarrow> (status + proto_descriptor list) \<times> dir_state \<times> 'r"
where
  "rpc_get_random_path rr now count str =
     (let (st, r) = str; n = max (unat count) 3 in
      case get_random_path rr (ds_registry st) n r of
        (Inl e, r) \<Rightarrow> (Inl (path_status e), st, r)
      | (Inr path, r) \<Rightarrow>
          (Inr (map descriptor_to_proto path),
           on_metrics (\<lambda>m. dm_push_event now PathRequested (m\<lparr>dm_path_requests := dm_path_requests m + 1\<rparr>)) st, r))"

definition rpc_get_stats :: "nat \<Rightarrow> dir_state \<Rightarrow> proto_stats \<times> dir_state" where
  "rpc_get_stats now st =
     (stats_to_proto (get_stats now (ds_registry st)), on_metrics (dm_push_event now StatsQueried) st)"

text \<open>One tick of the cleanup task.\<close>

definition cleanup_tick :: "nat \<Rightarrow> nat \<Rightarrow> dir_state \<Rightarrow> dir_state" where
  "cleanup_tick now timeout st =
     (let (removed, reg) = cleanup_stale_nodes now timeout (ds_registry st); st = st\<lparr>ds_registry := reg\<rparr>
      in if 0 < removed
         then on_metrics (\<lambda>m. dm_push_event now (StaleCleanup removed)
                (m\<lparr>dm_stale_cleaned := dm_stale_cleaned m + word_of_nat removed\<rparr>)) st
         else st)"

section \<open>The callers\<close>

text \<open>
  A relay: registration at start-up, a heartbeat per tick, removal at shutdown; each answers
  what \<open>?\<close> or the log makes of the call. \<open>call\<close> is the call over the channel.
\<close>

definition register_with_directory ::
  "(proto_descriptor \<Rightarrow> (status + string) \<times> 'd) \<Rightarrow> node_descriptor \<Rightarrow> (status + unit) \<times> 'd"
where
  "register_with_directory call d =
     (case call (descriptor_to_proto d) of (Inl e, st) \<Rightarrow> (Inl e, st) | (Inr _, st) \<Rightarrow> (Inr (), st))"

definition unregister_from_directory ::
  "(string \<Rightarrow> (status + unit) \<times> 'd) \<Rightarrow> string \<Rightarrow> (status + unit) \<times> 'd"
where
  "unregister_from_directory call i =
     (case call i of (Inl e, st) \<Rightarrow> (Inl e, st) | (Inr _, st) \<Rightarrow> (Inr (), st))"

definition heartbeat_tick ::
  "(string \<Rightarrow> proto_metrics option \<Rightarrow> (status + unit) \<times> 'd) \<Rightarrow> nat \<Rightarrow> string \<Rightarrow> relay_node \<Rightarrow> 'd"
where
  "heartbeat_tick call now i n =
     (let body = build_metrics now n in snd (call i (Some (metrics_to_proto body))))"

text \<open>\<open>DirectoryClient\<close>: its cache, and the request for a path.\<close>

record dir_client =
  dc_cached_nodes :: "node_descriptor list"
  dc_cache_expiry :: "nat option"
  dc_cache_ttl :: nat

definition dir_client_new :: dir_client where
  "dir_client_new = \<lparr>dc_cached_nodes = [], dc_cache_expiry = None, dc_cache_ttl = 300 * 10 ^ 9\<rparr>"

definition dc_get_random_path ::
  "(int \<Rightarrow> string) \<Rightarrow> (u32 \<Rightarrow> (status + proto_descriptor list) \<times> 'd) \<Rightarrow> nat
   \<Rightarrow> (any_error + node_descriptor list) \<times> 'd"
where
  "dc_get_random_path et call hop_count =
     (case call (word_of_nat hop_count) of
        (Inl e, st) \<Rightarrow> (Inl (Msg ''Failed to get random path from discovery service''), st)
      | (Inr pds, st) \<Rightarrow>
          (case collect_results (descriptor_from_proto et) pds of
             Inl e \<Rightarrow> (Inl (Msg ''Failed to parse node descriptors''), st)
           | Inr ns \<Rightarrow>
               if length ns \<noteq> hop_count
               then (Inl (Msg (''Expected '' @ show_nat hop_count @ '' nodes from directory, got '' @ show_nat (length ns))), st)
               else (Inr ns, st)))"

definition dc_get_all_nodes ::
  "(int \<Rightarrow> string) \<Rightarrow> (status + proto_descriptor list) \<Rightarrow> nat \<Rightarrow> dir_client \<Rightarrow> (any_error + node_descriptor list) \<times> dir_client"
where
  "dc_get_all_nodes et answer now c =
     (if (case dc_cache_expiry c of None \<Rightarrow> False | Some expiry \<Rightarrow> now < expiry) then (Inr (dc_cached_nodes c), c)
      else case answer of
        Inl e \<Rightarrow> (Inl (Msg ''Failed to get all nodes from discovery service''), c)
      | Inr pds \<Rightarrow>
          (case collect_results (descriptor_from_proto et) pds of
             Inl e \<Rightarrow> (Inl (Msg ''Failed to parse node descriptors''), c)
           | Inr ns \<Rightarrow> (Inr ns, c\<lparr>dc_cached_nodes := ns, dc_cache_expiry := Some (now + dc_cache_ttl c)\<rparr>)))"

definition is_cache_valid :: "nat \<Rightarrow> dir_client \<Rightarrow> bool" where
  "is_cache_valid now c = (case dc_cache_expiry c of None \<Rightarrow> False | Some expiry \<Rightarrow> now < expiry)"

text \<open>\<open>MockDirectory\<close>: the paths are taken from the end.\<close>

definition mock_get_random_path ::
  "nat \<Rightarrow> node_descriptor list list \<Rightarrow> (any_error + node_descriptor list) \<times> node_descriptor list list"
where
  "mock_get_random_path hop_count paths =
     (if paths = [] then (Inl (Msg ''MockDirectory: no paths remaining''), paths)
      else let path = last paths; paths = butlast paths in
        if length path \<noteq> hop_count
        then (Inl (Msg (''MockDirectory: expected '' @ show_nat hop_count @ '' nodes, got '' @ show_nat (length path))), paths)
        else (Inr path, paths))"

section \<open>What survives the wire\<close>

definition policy_wf :: "exit_policy \<Rightarrow> bool" where
  "policy_wf p = (\<forall>a \<in> set (allowed_ips p) \<union> set (blocked_ips p). ip_wf a)"

definition descriptor_wf :: "node_descriptor \<Rightarrow> bool" where
  "descriptor_wf d = (socket_wf (address d) \<and> pk_wf (public_key d) \<and>
     (case nd_exit_policy d of None \<Rightarrow> True | Some p \<Rightarrow> policy_wf p))"

lemma segs_of_octets_be: "length ss = 8 \<Longrightarrow> segs_of_octets (concat (map be16 ss)) = ss"
proof -
  have slice: "take 2 (drop (2 * i) (concat (map be16 ss))) = be16 (ss ! i)" if "i < length ss" for i
    using that
  proof (induction ss arbitrary: i)
    case (Cons s ss)
    then show ?case by (cases i) (simp_all add: be16_def)
  qed simp
  assume "length ss = 8"
  then show ?thesis by (intro nth_equalityI) (simp_all add: segs_of_octets_def slice)
qed

lemma ip_bytes_roundtrip: "ip_wf a \<Longrightarrow> ip_from_bytes (ip_to_bytes a) = Inr a"
  by (cases a) (simp_all add: ip_from_bytes_def segs_of_octets_be length_concat o_def sum_list_triv)

lemma port_roundtrip: "map ucast (map (\<lambda>p :: u16. ucast p :: u32) ps) = ps"
proof -
  have "(ucast (ucast p :: u32) :: u16) = p" for p :: u16
    by (rule bit_word_eqI) (auto simp: bit_ucast_iff)
  then show ?thesis by (simp add: o_def)
qed

lemma policy_roundtrip: "policy_wf p \<Longrightarrow> policy_from_proto (policy_to_proto p) = Inr p"
proof -
  assume wf: "policy_wf p"
  have ips: "collect_results ip_from_bytes (map ip_to_bytes l) = Inr l" if "\<forall>a \<in> set l. ip_wf a" for l
    using that by (induction l) (simp_all add: ip_bytes_roundtrip)
  then have "collect_results ip_from_bytes (map ip_to_bytes (allowed_ips p)) = Inr (allowed_ips p)"
    "collect_results ip_from_bytes (map ip_to_bytes (blocked_ips p)) = Inr (blocked_ips p)"
    using wf by (simp_all add: policy_wf_def)
  then show ?thesis
    using port_roundtrip by (simp add: policy_from_proto_def policy_to_proto_def)
qed

lemma type_roundtrip:
  "proto_type_of_code (proto_type_code (node_type_to_proto t)) = Some (node_type_to_proto t)"
  "node_type_from_proto (node_type_to_proto t) = Inr t"
  by (cases t; simp add: proto_type_of_code_def)+

lemma metrics_roundtrip: "metrics_from_proto (metrics_to_proto m) = m"
  by (simp add: metrics_from_proto_def metrics_to_proto_def)

lemma descriptor_from_to:
  assumes "descriptor_wf d"
  shows "descriptor_from_proto et (descriptor_to_proto d) = Inr d"
proof -
  have a: "parse_socket_addr (show_socket_addr (address d)) = Some (address d)"
    using assms by (simp add: descriptor_wf_def parse_show_socket_addr)
  have k: "public_key_from_proto (public_key_to_proto (public_key d)) = Inr (public_key d)"
    using assms by (simp add: descriptor_wf_def pk_wf_def public_key_from_proto_def public_key_to_proto_def pk_new_def)
  show ?thesis
  proof (cases "nd_exit_policy d")
    case None
    then show ?thesis by (simp add: descriptor_from_proto_def descriptor_to_proto_def type_roundtrip a k)
  next
    case (Some p)
    then have "policy_from_proto (policy_to_proto p) = Inr p"
      using assms by (simp add: descriptor_wf_def policy_roundtrip)
    then show ?thesis using Some by (simp add: descriptor_from_proto_def descriptor_to_proto_def type_roundtrip a k)
  qed
qed

text \<open>
  C21. A descriptor survives the directory's wire: whatever node type, IPv4 or IPv6 address with
  its scope and port, 32-byte key, exit policy and tags it has, parsing the message made of
  it gives it back.
\<close>

theorem descriptor_roundtrip:
  assumes "descriptor_wf d"
  shows "descriptor_from_proto et (descriptor_to_proto d) = Inr d \<and> metrics_from_proto (metrics_to_proto m) = m"
  using descriptor_from_to [OF assms] metrics_roundtrip by blast

definition sample_v6_node :: node_descriptor where
  "sample_v6_node = (nd_new ''x'' Exit (SocketAddr (V6 [0x2001, 0xDB8, 0, 0, 0, 0, 0, 1]) 9001 0)
     (pk_new (replicate 32 7)) 5 (Some default_policy))\<lparr>operator_id := Some ''op''\<rparr>"

theorem descriptor_roundtrip_witness:
  "descriptor_from_proto (\<lambda>c. '''') (descriptor_to_proto sample_v6_node) = Inr sample_v6_node"
  using descriptor_roundtrip [of sample_v6_node]
  by (simp add: descriptor_wf_def sample_v6_node_def nd_new_def socket_wf_def pk_wf_def pk_new_def policy_wf_def default_policy_def)

text \<open>Ports above 65535 lose their high bits on the way in.\<close>

lemma policy_port_truncated:
  "policy_from_proto \<lparr>pp_allowed_ports = [65536 + 80], pp_blocked_ports = [], pp_allowed_ips = [], pp_blocked_ips = []\<rparr> =
     Inr \<lparr>allowed_ports = [80], blocked_ports = [], allowed_ips = [], blocked_ips = []\<rparr>"
  by (simp add: policy_from_proto_def)

section \<open>Runs of the service\<close>

datatype dir_op =
    OpHealth
  | OpReady
  | OpRegister proto_descriptor
  | OpRemove string
  | OpHeartbeat string "proto_metrics option"
  | OpNodes
  | OpPath u32
  | OpStats
  | OpCleanup nat

fun dir_exec :: "(int \<Rightarrow> string) \<Rightarrow> 'r draw \<Rightarrow> nat \<Rightarrow> dir_op \<Rightarrow> dir_state \<times> 'r \<Rightarrow> dir_state \<times> 'r" where
  "dir_exec et rr now OpHealth (st, r) = (snd (rpc_health_check now st), r)"
| "dir_exec et rr now OpReady (st, r) = (snd (rpc_readiness_check st), r)"
| "dir_exec et rr now (OpRegister pd) (st, r) = (snd (rpc_register_node et now pd st), r)"
| "dir_exec et rr now (OpRemove i) (st, r) = (snd (rpc_remove_node now i st), r)"
| "dir_exec et rr now (OpHeartbeat i pm) (st, r) = (snd (rpc_update_heartbeat now i pm st), r)"
| "dir_exec et rr now OpNodes (st, r) = (st, r)"
| "dir_exec et rr now (OpPath count) (st, r) = snd (rpc_get_random_path rr now count (st, r))"
| "dir_exec et rr now OpStats (st, r) = (snd (rpc_get_stats now st), r)"
| "dir_exec et rr now (OpCleanup timeout) (st, r) = (cleanup_tick now timeout st, r)"

text \<open>Operations at times that do not decrease; the last time and the state.\<close>

inductive dir_run :: "(int \<Rightarrow> string) \<Rightarrow> 'r draw \<Rightarrow> nat \<times> dir_state \<times> 'r \<Rightarrow> (nat \<times> dir_op) list \<Rightarrow> nat \<times> dir_state \<times> 'r \<Rightarrow> bool"
  for et rr where
  Done: "dir_run et rr s [] s"
| Step: "t \<le> now \<Longrightarrow> dir_run et rr (now, dir_exec et rr now op st) ops s \<Longrightarrow> dir_run et rr (t, st) ((now, op) # ops) s"

inductive_cases dir_run_ConsE: "dir_run et rr (t, st) ((now, op) # ops) s"

text \<open>What the service does to its registry, in the registry's own terms.\<close>

definition exec_registry :: "(int \<Rightarrow> string) \<Rightarrow> nat \<Rightarrow> dir_op \<Rightarrow> node_registry \<Rightarrow> node_registry" where
  "exec_registry et now op reg =
     (case op of
        OpRegister pd \<Rightarrow>
          (case descriptor_from_proto et pd of
             Inl _ \<Rightarrow> reg
           | Inr d \<Rightarrow> if node_id d = '''' \<or> bandwidth d = 0 then reg else register_node now d reg)
      | OpRemove i \<Rightarrow> snd (remove_node i reg)
      | OpHeartbeat i (Some m) \<Rightarrow> snd (update_heartbeat_with_metrics now i (metrics_from_proto m) reg)
      | OpCleanup timeout \<Rightarrow> snd (cleanup_stale_nodes now timeout reg)
      | _ \<Rightarrow> reg)"

lemma on_metrics_registry [simp]: "ds_registry (on_metrics f st) = ds_registry st"
  by (simp add: on_metrics_def)

lemma exec_registry_eq: "ds_registry (fst (dir_exec et rr now op (st, r))) = exec_registry et now op (ds_registry st)"
  by (cases op)
    (auto simp: exec_registry_def rpc_health_check_def rpc_readiness_check_def rpc_register_node_def rpc_remove_node_def
      rpc_update_heartbeat_def rpc_get_random_path_def rpc_get_stats_def cleanup_tick_def Let_def
      split: sum.splits option.splits prod.splits if_splits)

text \<open>A node the service accepts, and the invariant of its runs.\<close>

definition valid_node :: "node_descriptor \<Rightarrow> bool" where
  "valid_node d = (descriptor_wf d \<and> node_id d \<noteq> '''' \<and> bandwidth d \<noteq> 0)"

definition dir_inv :: "nat \<Rightarrow> node_registry \<Rightarrow> bool" where
  "dir_inv now reg = (reg_inv now reg \<and> (\<forall>i d. reg_lookup reg i = Some d \<longrightarrow> valid_node d))"

lemma ip_from_bytes_wf: "ip_from_bytes bs = Inr a \<Longrightarrow> ip_wf a"
  by (auto simp: ip_from_bytes_def segs_of_octets_def split: if_splits)

lemma collect_ips_wf: "collect_results ip_from_bytes bs = Inr l \<Longrightarrow> a \<in> set l \<Longrightarrow> ip_wf a"
  by (induction bs arbitrary: l) (auto split: sum.splits intro: ip_from_bytes_wf)

lemma policy_from_proto_wf: "policy_from_proto p = Inr q \<Longrightarrow> policy_wf q"
  by (auto simp: policy_from_proto_def policy_wf_def split: sum.splits intro: collect_ips_wf)

lemma descriptor_from_proto_wf: "descriptor_from_proto et pd = Inr d \<Longrightarrow> descriptor_wf d"
  by (auto simp: descriptor_from_proto_def descriptor_wf_def public_key_from_proto_def pk_wf_def pk_new_def
      split: sum.splits option.splits if_splits intro: parse_socket_addr_wf policy_from_proto_wf)

lemma dir_inv_exec:
  assumes "dir_inv t reg" "t \<le> now"
  shows "dir_inv now (exec_registry et now op reg)"
proof -
  have inv: "reg_inv t reg" "reg_inv now reg" and valid: "\<And>i d. reg_lookup reg i = Some d \<Longrightarrow> valid_node d"
    using assms by (auto simp: dir_inv_def intro: reg_inv_later)
  have keep: "dir_inv now reg" using inv valid by (simp add: dir_inv_def)
  show ?thesis
  proof (cases op)
    case (OpRegister pd)
    show ?thesis
    proof (cases "exec_registry et now op reg = reg")
      case True
      with keep show ?thesis by simp
    next
      case False
      then obtain d where d: "descriptor_from_proto et pd = Inr d" "node_id d \<noteq> ''''" "bandwidth d \<noteq> 0"
        and e: "exec_registry et now op reg = register_node now d reg"
        by (auto simp: OpRegister exec_registry_def split: sum.splits if_splits)
      have "valid_node d" using d by (simp add: valid_node_def descriptor_from_proto_wf)
      then have "valid_node d'" if "reg_lookup (register_node now d reg) i = Some d'" for i d'
        using that valid by (auto simp: registry.lookup_register [OF inv(1)] split: if_splits option.splits)
      with e registry.inv_register [OF inv(1) assms(2)] show ?thesis by (simp add: dir_inv_def)
    qed
  next
    case (OpRemove i)
    then show ?thesis
      using registry.inv_remove [OF inv(1) assms(2)] valid
      by (auto simp: exec_registry_def dir_inv_def registry.lookup_remove split: if_splits)
  next
    case (OpHeartbeat i pm)
    then show ?thesis
      using keep registry.inv_heartbeat [OF inv(1) assms(2)] valid
      by (auto simp: exec_registry_def dir_inv_def registry.lookup_heartbeat split: option.splits)
  next
    case (OpCleanup timeout)
    have "valid_node d" if "reg_lookup (snd (cleanup_stale_nodes now timeout reg)) i = Some d" for i d
      using valid registry.lookup_cleanup [OF inv(1) that] by blast
    with OpCleanup registry.inv_cleanup [OF inv(1) assms(2)] show ?thesis
      by (simp add: exec_registry_def dir_inv_def)
  qed (use keep in \<open>simp_all add: exec_registry_def\<close>)
qed

lemma dir_inv_run:
  "dir_run et rr s ops s' \<Longrightarrow> dir_inv (fst s) (ds_registry (fst (snd s))) \<Longrightarrow>
   fst s \<le> fst s' \<and> dir_inv (fst s') (ds_registry (fst (snd s')))"
proof (induction rule: dir_run.induct)
  case (Step t now op st ops s)
  obtain d r where st: "st = (d, r)" by force
  have "dir_inv now (ds_registry (fst (dir_exec et rr now op st)))"
    using Step.prems dir_inv_exec [of t "ds_registry d" now et op] Step.hyps(1)
    by (simp add: st exec_registry_eq)
  with Step show ?case by simp
qed simp

lemma dir_inv_new: "dir_inv t (ds_registry (dir_state_new t0 b))"
  by (simp add: dir_inv_def dir_state_new_def reg_lookup_def registry_new_def reg_inv_def)

lemma registered_nodes:
  "hm_wf (nodes reg) \<Longrightarrow> d \<in> set (get_all_nodes reg) \<longleftrightarrow> (\<exists>i. reg_lookup reg i = Some d)"
proof -
  assume wf: "hm_wf (nodes reg)"
  have "hm_get (nodes reg) i = Some e \<longleftrightarrow> (i, e) \<in> set (nodes reg)" for i e
    using wf by (simp add: hm_get_def hm_wf_def)
  then show ?thesis by (force simp: get_all_nodes_def reg_lookup_def hm_values_def)
qed

text \<open>
  C19. Whatever is called on a fresh service, in whatever order and with whatever messages,
  everything it ever hands out is well typed: each node is filed under its own nonempty id, has a
  positive bandwidth, a 32-byte key, an IPv4 or IPv6 address and an exit policy over such
  addresses, no two share an address, and the list of all nodes parses back at the caller.
\<close>

theorem directory_nodes_valid:
  assumes "dir_run et rr (t, dir_state_new t b, r) ops (now, st, r')"
  shows "(\<forall>i d. reg_lookup (ds_registry st) i = Some d \<longrightarrow> node_id d = i \<and> valid_node d) \<and>
    (\<forall>i j d e. reg_lookup (ds_registry st) i = Some d \<and> reg_lookup (ds_registry st) j = Some e \<and>
       address d = address e \<longrightarrow> i = j) \<and>
    collect_results (descriptor_from_proto et) (fst (rpc_get_all_nodes st)) = Inr (get_all_nodes (ds_registry st))"
proof -
  have inv: "dir_inv now (ds_registry st)"
    using dir_inv_run [OF assms] dir_inv_new by simp
  then have reg: "reg_inv now (ds_registry st)" and valid: "\<And>i d. reg_lookup (ds_registry st) i = Some d \<Longrightarrow> valid_node d"
    by (simp_all add: dir_inv_def)
  have "descriptor_from_proto et (descriptor_to_proto d) = Inr d" if "d \<in> set (get_all_nodes (ds_registry st))" for d
    using that valid registered_nodes [OF reg_invD(1) [OF reg]]
    by (auto simp: valid_node_def intro: descriptor_from_to)
  then have "collect_results (descriptor_from_proto et) (map descriptor_to_proto ns) = Inr ns"
    if "set ns \<subseteq> set (get_all_nodes (ds_registry st))" for ns
    using that by (induction ns) simp_all
  then have "collect_results (descriptor_from_proto et) (fst (rpc_get_all_nodes st)) = Inr (get_all_nodes (ds_registry st))"
    by (simp add: rpc_get_all_nodes_def Let_def)
  with valid registry.inv_id [OF reg] registry.inv_address [OF reg] show ?thesis by blast
qed

text \<open>What the client makes of an answer of the service is the path the registry chose.\<close>

lemma path_parses_back:
  assumes "dir_inv now (ds_registry st)" "set path \<subseteq> set (get_all_nodes (ds_registry st))"
  shows "collect_results (descriptor_from_proto et) (map descriptor_to_proto path) = Inr path"
  using assms(2)
proof (induction path)
  case (Cons d ds)
  have "valid_node d"
    using assms(1) Cons.prems registered_nodes [of "ds_registry st" d] by (auto simp: dir_inv_def dest: reg_invD(1))
  with Cons show ?case by (simp add: valid_node_def descriptor_from_to)
qed simp

lemma path_request_sound:
  assumes "dir_inv now (ds_registry st)" "draw_ok rr" "hops < 2 ^ 32"
    and "dc_get_random_path et (\<lambda>n. rpc_get_random_path rr now n (st, r)) hops = (Inr path, st', r')"
  shows "3 \<le> hops \<and> length path = hops \<and> fst (get_random_path rr (ds_registry st) hops r) = Inr path \<and>
    node_type (hd path) = Entry \<and> node_type (last path) = Exit \<and>
    (\<forall>n \<in> set (butlast (tl path)). node_type n = Middle) \<and>
    distinct path \<and> set path \<subseteq> set (get_all_nodes (ds_registry st)) \<and>
    distinct (ip_keys (allow_same_ip (ds_registry st)) path) \<and> distinct (op_keys path)"
proof -
  have reg: "reg_inv now (ds_registry st)" using assms(1) by (simp add: dir_inv_def)
  have n: "unat (word_of_nat hops :: u32) = hops" using assms(3) by (simp add: unsigned_of_nat take_bit_nat_eq_self)
  obtain q r1 where q: "get_random_path rr (ds_registry st) (max hops 3) r = (Inr q, r1)"
    using assms(4) by (auto simp: dc_get_random_path_def rpc_get_random_path_def n Let_def
        split: sum.splits prod.splits if_splits)
  note sound = get_random_path_sound [OF assms(2) reg q]
  have "collect_results (descriptor_from_proto et) (map descriptor_to_proto q) = Inr q"
    using path_parses_back [OF assms(1)] sound by blast
  then have "path = q" "length q = hops"
    using assms(4) q by (auto simp: dc_get_random_path_def rpc_get_random_path_def n Let_def split: if_splits)
  moreover from this sound have "max hops 3 = hops" by metis
  ultimately show ?thesis using sound q by auto
qed

text \<open>
  C17. A path, from the client's request to its descriptors: when the client asks a service for
  a path and gets one, it has exactly the hops it asked for, at least three, it is the path the
  registry chose, descriptor for descriptor, and so an entry, middles and an exit, all
  registered and different, with no shared address (unless allowed) and no shared operator.
\<close>

theorem path_request_end_to_end:
  assumes "dir_run et rr (t, dir_state_new t b, r0) ops (now, st, r)" "draw_ok rr" "hops < 2 ^ 32"
    and "dc_get_random_path et (\<lambda>n. rpc_get_random_path rr now n (st, r)) hops = (Inr path, st', r')"
  shows "3 \<le> hops \<and> length path = hops \<and> fst (get_random_path rr (ds_registry st) hops r) = Inr path \<and>
    node_type (hd path) = Entry \<and> node_type (last path) = Exit \<and>
    (\<forall>n \<in> set (butlast (tl path)). node_type n = Middle) \<and>
    distinct path \<and> set path \<subseteq> set (get_all_nodes (ds_registry st)) \<and>
    distinct (ip_keys (allow_same_ip (ds_registry st)) path) \<and> distinct (op_keys path)"
  using path_request_sound [OF _ assms(2-4)] dir_inv_run [OF assms(1)] dir_inv_new by simp

section \<open>Staying registered\<close>

text \<open>
  What keeps the node \<open>i\<close> at address \<open>a\<close>, last heard of at \<open>seen\<close>: no cleanup comes later than
  its timeout after the last sign of life, nobody removes it, and nobody registers under its id or
  takes its address.
\<close>

fun kept_alive :: "(int \<Rightarrow> string) \<Rightarrow> string \<Rightarrow> socket_addr \<Rightarrow> nat \<Rightarrow> (nat \<times> dir_op) list \<Rightarrow> bool" where
  "kept_alive et i a seen [] = True"
| "kept_alive et i a seen ((t, op) # ops) =
     (case op of
        OpHeartbeat j (Some m) \<Rightarrow> kept_alive et i a (if j = i then t else seen) ops
      | OpRemove j \<Rightarrow> j \<noteq> i \<and> kept_alive et i a seen ops
      | OpCleanup timeout \<Rightarrow> t - seen \<le> timeout \<and> kept_alive et i a seen ops
      | OpRegister pd \<Rightarrow>
          (case descriptor_from_proto et pd of Inl _ \<Rightarrow> True | Inr d \<Rightarrow> node_id d \<noteq> i \<and> address d \<noteq> a) \<and>
          kept_alive et i a seen ops
      | _ \<Rightarrow> kept_alive et i a seen ops)"

definition heard_since :: "string \<Rightarrow> node_descriptor \<Rightarrow> nat \<Rightarrow> node_registry \<Rightarrow> bool" where
  "heard_since i d seen reg =
     (case hm_get (nodes reg) i of None \<Rightarrow> False | Some e \<Rightarrow> descriptor e = d \<and> seen \<le> last_heartbeat e)"

lemma heard_since_step:
  assumes "hm_wf (nodes reg)" "heard_since i d seen reg" "kept_alive et i (address d) seen ((now, op) # ops)"
  shows "\<exists>seen'. heard_since i d seen' (exec_registry et now op reg) \<and> kept_alive et i (address d) seen' ops"
proof -
  obtain e where e: "hm_get (nodes reg) i = Some e" "descriptor e = d" "seen \<le> last_heartbeat e"
    using assms(2) by (auto simp: heard_since_def split: option.splits)
  show ?thesis
  proof (cases "exec_registry et now op reg = reg")
    case True
    show ?thesis
    proof (cases "\<exists>m. op = OpHeartbeat i (Some m)")
      case hb: True
      then have "heard_since i d now (exec_registry et now op reg)"
        using e by (auto simp: exec_registry_def update_heartbeat_with_metrics_def heard_since_def)
      then show ?thesis using assms(3) hb by auto
    next
      case False
      then show ?thesis using True assms(2,3) by (auto split: dir_op.splits option.splits)
    qed
  next
    case False
    show ?thesis
    proof (cases op)
      case (OpRegister pd)
      then obtain d' where d': "descriptor_from_proto et pd = Inr d'" "exec_registry et now op reg = register_node now d' reg"
        using False by (auto simp: exec_registry_def split: sum.splits if_splits)
      then have "heard_since i d seen (exec_registry et now op reg)"
        using e assms(3) OpRegister by (auto simp: heard_since_def get_register [OF assms(1)])
      then show ?thesis using assms(3) OpRegister by auto
    next
      case (OpRemove j)
      then have "heard_since i d seen (exec_registry et now op reg)"
        using e assms(3) by (auto simp: exec_registry_def heard_since_def remove_node_def split: option.splits)
      then show ?thesis using assms(3) OpRemove by auto
    next
      case (OpHeartbeat j pm)
      then obtain m where m: "pm = Some m" using False by (cases pm) (auto simp: exec_registry_def)
      have "heard_since i d (if j = i then now else seen) (exec_registry et now op reg)"
        using e by (auto simp: OpHeartbeat m exec_registry_def update_heartbeat_with_metrics_def heard_since_def split: option.splits)
      then show ?thesis using assms(3) OpHeartbeat m by auto
    next
      case (OpCleanup timeout)
      then have "heard_since i d seen (exec_registry et now op reg)"
        using e assms(3) by (auto simp: exec_registry_def heard_since_def get_cleanup [OF assms(1)])
      then show ?thesis using assms(3) OpCleanup by auto
    qed (use False in \<open>simp_all add: exec_registry_def\<close>)
  qed
qed

lemma kept_alive_run:
  assumes "dir_run et rr s ops s'" "dir_inv (fst s) (ds_registry (fst (snd s)))"
    and "heard_since i d seen (ds_registry (fst (snd s)))" "kept_alive et i (address d) seen ops"
  shows "reg_lookup (ds_registry (fst (snd s'))) i = Some d"
  using assms
proof (induction arbitrary: seen rule: dir_run.induct)
  case (Done s)
  then show ?case by (auto simp: heard_since_def reg_lookup_def split: option.splits)
next
  case (Step t now op st ops s)
  obtain ds r where st: "st = (ds, r)" by force
  have wf: "hm_wf (nodes (ds_registry ds))" using Step.prems(1) by (auto simp: st dir_inv_def dest: reg_invD(1))
  have "heard_since i d seen (ds_registry ds)" using Step.prems(2) by (simp add: st)
  from heard_since_step [OF wf this Step.prems(3)] obtain seen' where
    l: "heard_since i d seen' (exec_registry et now op (ds_registry ds))" "kept_alive et i (address d) seen' ops" by blast
  have "dir_inv now (exec_registry et now op (ds_registry ds))"
    using Step.prems(1) Step.hyps(1) by (auto simp: st intro: dir_inv_exec)
  with l Step.IH show ?case by (simp add: st exec_registry_eq)
qed

text \<open>
  A relay that keeps sending heartbeats stays in the directory: after a registration the
  service accepted, as long as every cleanup comes within its timeout of the last heartbeat and
  nobody removes the node, registers its id anew or takes its address, its descriptor remains
  the one on file, whatever else happens in between.
\<close>

theorem heartbeats_keep_registered:
  assumes "dir_run et rr (t0, dir_state_new t0 b, r0) ops0 (t, st, r)" "valid_node d" "t \<le> now"
    and "register_with_directory (\<lambda>pd. rpc_register_node et now pd st) d = (Inr (), st1)"
    and "dir_run et rr (now, st1, r) ops (now', st', r')" "kept_alive et (node_id d) (address d) now ops"
  shows "reg_lookup (ds_registry st') (node_id d) = Some d"
proof -
  have inv: "dir_inv t (ds_registry st)" using dir_inv_run [OF assms(1)] dir_inv_new by simp
  have parse: "descriptor_from_proto et (descriptor_to_proto d) = Inr d" "node_id d \<noteq> ''''" "bandwidth d \<noteq> 0"
    using assms(2) by (simp_all add: valid_node_def descriptor_from_to)
  then have st1: "ds_registry st1 = register_node now d (ds_registry st)"
    using assms(4) by (auto simp: register_with_directory_def rpc_register_node_def)
  have "dir_inv now (ds_registry st1)"
    using dir_inv_exec [OF inv assms(3), of et "OpRegister (descriptor_to_proto d)"] parse st1 by (simp add: exec_registry_def)
  moreover have "heard_since (node_id d) d now (ds_registry st1)"
    using inv by (auto simp: st1 heard_since_def get_register dir_inv_def reg_invD(1) node_entry_new_def split: option.splits)
  ultimately show ?thesis using kept_alive_run [OF assms(5), of "node_id d" d now] assms(6) by simp
qed

section \<open>Samples\<close>

definition sample_peer_node :: "string \<Rightarrow> node_type \<Rightarrow> bytes \<Rightarrow> node_descriptor" where
  "sample_peer_node i t os = nd_new i t (SocketAddr (V4 os) 9001 0) (pk_new (replicate 32 7)) 5 None"

definition sample_ops :: "(nat \<times> dir_op) list" where
  "sample_ops = [(1, OpRegister (descriptor_to_proto (sample_peer_node ''e'' Entry [10, 0, 0, 1]))),
     (2, OpRegister (descriptor_to_proto (sample_peer_node ''m'' Middle [10, 0, 0, 2]))),
     (3, OpRegister (descriptor_to_proto (sample_peer_node ''x'' Exit [10, 0, 0, 3])))]"

definition sample_draw :: "unit draw" where
  "sample_draw r n = (0, r)"

lemma sample_peer_valid: "length os = 4 \<Longrightarrow> i \<noteq> '''' \<Longrightarrow> valid_node (sample_peer_node i t os)"
  by (simp add: valid_node_def descriptor_wf_def sample_peer_node_def nd_new_def socket_wf_def pk_wf_def pk_new_def)

lemma exec_register:
  assumes "valid_node d"
  obtains st' where "dir_exec et rr now (OpRegister (descriptor_to_proto d)) (st, r) = (st', r)"
    "ds_registry st' = register_node now d (ds_registry st)"
  using assms that by (simp add: valid_node_def rpc_register_node_def descriptor_from_to)

lemma sample_run:
  obtains st where "dir_run (\<lambda>c. '''') sample_draw (0, dir_state_new 0 False, ()) sample_ops (3, st, ())"
    "ds_registry st = register_node 3 (sample_peer_node ''x'' Exit [10, 0, 0, 3])
       (register_node 2 (sample_peer_node ''m'' Middle [10, 0, 0, 2])
         (register_node 1 (sample_peer_node ''e'' Entry [10, 0, 0, 1]) (registry_new False)))"
proof -
  let ?e = "sample_peer_node ''e'' Entry [10, 0, 0, 1]" let ?m = "sample_peer_node ''m'' Middle [10, 0, 0, 2]"
  let ?x = "sample_peer_node ''x'' Exit [10, 0, 0, 3]"
  have valid: "valid_node ?e" "valid_node ?m" "valid_node ?x" by (simp_all add: sample_peer_valid)
  obtain s1 where 1: "dir_exec (\<lambda>c. '''') sample_draw 1 (OpRegister (descriptor_to_proto ?e)) (dir_state_new 0 False, ()) = (s1, ())"
    "ds_registry s1 = register_node 1 ?e (ds_registry (dir_state_new 0 False))" by (rule exec_register [OF valid(1)])
  obtain s2 where 2: "dir_exec (\<lambda>c. '''') sample_draw 2 (OpRegister (descriptor_to_proto ?m)) (s1, ()) = (s2, ())"
    "ds_registry s2 = register_node 2 ?m (ds_registry s1)" by (rule exec_register [OF valid(2)])
  obtain s3 where 3: "dir_exec (\<lambda>c. '''') sample_draw 3 (OpRegister (descriptor_to_proto ?x)) (s2, ()) = (s3, ())"
    "ds_registry s3 = register_node 3 ?x (ds_registry s2)" by (rule exec_register [OF valid(3)])
  have "dir_run (\<lambda>c. '''') sample_draw (0, dir_state_new 0 False, ()) sample_ops (3, s3, ())"
    unfolding sample_ops_def
    by (rule dir_run.Step, simp, unfold 1, rule dir_run.Step, simp, unfold 2, rule dir_run.Step, simp, unfold 3, rule dir_run.Done)
  with that 1(2) 2(2) 3(2) show thesis by (simp add: dir_state_new_def)
qed

theorem directory_nodes_valid_witness:
  "\<exists>st. dir_run (\<lambda>c. '''') sample_draw (0, dir_state_new 0 False, ()) sample_ops (3, st, ()) \<and>
     collect_results (descriptor_from_proto (\<lambda>c. '''')) (fst (rpc_get_all_nodes st)) = Inr (get_all_nodes (ds_registry st))"
proof (rule sample_run)
  fix st assume run: "dir_run (\<lambda>c. '''') sample_draw (0, dir_state_new 0 False, ()) sample_ops (3, st, ())"
  from directory_nodes_valid [OF run] run show ?thesis by blast
qed

lemma sample_draw_ok: "draw_ok sample_draw"
  by (simp add: draw_ok_def sample_draw_def)

theorem path_request_end_to_end_witness:
  "\<exists>st path st' r'. dc_get_random_path (\<lambda>c. '''') (\<lambda>n. rpc_get_random_path sample_draw 3 n (st, ())) 3 = (Inr path, st', r') \<and>
     distinct path \<and> length path = 3"
proof (rule sample_run)
  let ?e = "sample_peer_node ''e'' Entry [10, 0, 0, 1]" let ?m = "sample_peer_node ''m'' Middle [10, 0, 0, 2]"
  let ?x = "sample_peer_node ''x'' Exit [10, 0, 0, 3]"
  fix st assume run: "dir_run (\<lambda>c. '''') sample_draw (0, dir_state_new 0 False, ()) sample_ops (3, st, ())"
    and reg: "ds_registry st = register_node 3 ?x (register_node 2 ?m (register_node 1 ?e (registry_new False)))"
  have path: "get_random_path sample_draw (ds_registry st) 3 () = (Inr [?e, ?m, ?x], ())"
    unfolding reg by code_simp
  have parse: "descriptor_from_proto (\<lambda>c. '''') (descriptor_to_proto d) = Inr d" if "d \<in> {?e, ?m, ?x}" for d
    using that sample_peer_valid by (intro descriptor_from_to) (auto simp: valid_node_def)
  obtain st' r' where got: "dc_get_random_path (\<lambda>c. '''') (\<lambda>n. rpc_get_random_path sample_draw 3 n (st, ())) 3 =
      (Inr [?e, ?m, ?x], st', r')"
    by (simp add: dc_get_random_path_def rpc_get_random_path_def path parse)
  have "distinct [?e, ?m, ?x] \<and> length [?e, ?m, ?x] = 3"
    using path_request_end_to_end [OF run sample_draw_ok _ got] by simp
  with got show ?thesis by blast
qed

theorem heartbeats_keep_registered_witness:
  "\<exists>st' r'. dir_run (\<lambda>c. '''') sample_draw
     (0, dir_exec (\<lambda>c. '''') sample_draw 0 (OpRegister (descriptor_to_proto sample_v6_node)) (dir_state_new 0 False, ()))
     [(50, OpHeartbeat ''x'' (Some (metrics_to_proto node_metrics_default))), (100, OpCleanup 60)] (100, st', r') \<and>
   reg_lookup (ds_registry st') ''x'' = Some sample_v6_node"
proof -
  let ?hb = "OpHeartbeat ''x'' (Some (metrics_to_proto node_metrics_default))"
  have valid: "valid_node sample_v6_node"
    by (simp add: valid_node_def descriptor_wf_def sample_v6_node_def nd_new_def socket_wf_def pk_wf_def pk_new_def
        policy_wf_def default_policy_def)
  obtain st1 where ex: "dir_exec (\<lambda>c. '''') sample_draw 0 (OpRegister (descriptor_to_proto sample_v6_node)) (dir_state_new 0 False, ()) = (st1, ())"
    by (rule exec_register [OF valid])
  have call: "register_with_directory (\<lambda>pd. rpc_register_node (\<lambda>c. '''') 0 pd (dir_state_new 0 False)) sample_v6_node = (Inr (), st1)"
    using ex valid by (simp add: register_with_directory_def rpc_register_node_def descriptor_from_to valid_node_def)
  obtain st' r' where run: "dir_run (\<lambda>c. '''') sample_draw (0, st1, ()) [(50, ?hb), (100, OpCleanup 60)] (100, st', r')"
  proof -
    let ?s = "dir_exec (\<lambda>c. '''') sample_draw 100 (OpCleanup 60) (dir_exec (\<lambda>c. '''') sample_draw 50 ?hb (st1, ()))"
    have "dir_run (\<lambda>c. '''') sample_draw (0, st1, ()) [(50, ?hb), (100, OpCleanup 60)] (100, ?s)"
      by (rule dir_run.Step, simp, rule dir_run.Step, simp, rule dir_run.Done)
    then show thesis using that by (metis surj_pair)
  qed
  have id: "node_id sample_v6_node = ''x''" by (simp add: sample_v6_node_def nd_new_def)
  have "reg_lookup (ds_registry st') (node_id sample_v6_node) = Some sample_v6_node"
    by (rule heartbeats_keep_registered [OF dir_run.Done valid _ call run]) (simp_all add: id)
  with run ex show ?thesis by (auto simp: id)
qed

section \<open>The directory as the builder sees it\<close>

text \<open>
  \<open>NodeDirectory\<close>: what circuit building relies on, whatever stands behind it. A path that
  is handed out has the length that was asked for.
\<close>

locale node_directory =
  fixes path_for :: "nat \<Rightarrow> 'd \<Rightarrow> (any_error + node_descriptor list) \<times> 'd"
  assumes path_length: "path_for n d = (Inr path, d') \<Longrightarrow> length path = n"
begin

lemma path_hop_exists: "path_for n d = (Inr path, d') \<Longrightarrow> k < n \<Longrightarrow> get_at path k = Some (path ! k)"
  using path_length by (simp add: get_at_def)

lemma empty_only_for_zero: "path_for n d = (Inr [], d') \<Longrightarrow> n = 0"
  using path_length by fastforce

end

text \<open>The client's directory over a channel, and the mock of the tests.\<close>

definition directory_path ::
  "(int \<Rightarrow> string) \<Rightarrow> 'r draw \<Rightarrow> nat \<Rightarrow> nat \<Rightarrow> dir_state \<times> 'r \<Rightarrow> (any_error + node_descriptor list) \<times> dir_state \<times> 'r"
where
  "directory_path et rr now n str = dc_get_random_path et (\<lambda>c. rpc_get_random_path rr now c str) n"

interpretation grpc_directory: node_directory "directory_path et rr now" for et :: "int \<Rightarrow> string" and rr :: "'r draw" and now
  by unfold_locales
    (auto simp: directory_path_def dc_get_random_path_def split: sum.splits prod.splits if_splits)

interpretation mock_directory: node_directory mock_get_random_path
  by unfold_locales (auto simp: mock_get_random_path_def Let_def split: if_splits)

text \<open>The mock takes its paths from the end of the queue.\<close>

lemma mock_takes_last:
  "length p = n \<Longrightarrow> mock_get_random_path n (ps @ [p]) = (Inr p, ps)"
  by (simp add: mock_get_random_path_def)

text \<open>\<open>RegistryStatsConverted\<close>: the statistics as the caller reads them.\<close>

definition stats_from_proto :: "proto_stats \<Rightarrow> registry_stats" where
  "stats_from_proto s = \<lparr>total_nodes = unat (ps_total_nodes s), entry_count = unat (ps_entry_count s),
     middle_count = unat (ps_middle_count s), exit_count = unat (ps_exit_count s),
     oldest_node_age_secs = map_option unat (ps_oldest_node_age_secs s),
     newest_node_age_secs = map_option unat (ps_newest_node_age_secs s)\<rparr>"

lemma stats_roundtrip:
  assumes "total_nodes s < 2 ^ 64" "entry_count s < 2 ^ 64" "middle_count s < 2 ^ 64" "exit_count s < 2 ^ 64"
    and "case oldest_node_age_secs s of None \<Rightarrow> True | Some t \<Rightarrow> t < 2 ^ 64"
    and "case newest_node_age_secs s of None \<Rightarrow> True | Some t \<Rightarrow> t < 2 ^ 64"
  shows "stats_from_proto (stats_to_proto s) = s"
proof -
  have w: "unat (word_of_nat n :: u64) = n" if "n < 2 ^ 64" for n
    using that by (simp add: unsigned_of_nat take_bit_nat_eq_self)
  show ?thesis
    using assms
    by (cases "oldest_node_age_secs s"; cases "newest_node_age_secs s") (simp_all add: stats_from_proto_def stats_to_proto_def w)
qed

end
