(* ===== verification/Node_Setup.thy ===== *)
theory Node_Setup
  imports Dir_Service
begin

text \<open>
  How a service gets its configuration: the command line (\<open>core/config.rs\<close> of the relay, the
  client and the directory), the setup wizards (\<open>wizard/mod.rs\<close> of the relay and the client)
  as state machines over keys, and the start of a relay up to its registration
  (\<open>relay-node/src/main.rs\<close>). A string is the list of its characters here; drawing is the
  terminal library's.
\<close>

section \<open>Command lines\<close>

record relay_config =
  rc_node_type :: "node_type option"
  rc_port :: u16
  rc_host :: string
  rc_bind_host :: string
  rc_directory_url :: string
  rc_bandwidth :: u64
  rc_heartbeat_interval :: u64
  rc_exit_allow_all :: bool
  rc_tui :: bool
  rc_operator_id :: "string option"

text \<open>The values without arguments.\<close>

definition relay_config_default :: relay_config where
  "relay_config_default = \<lparr>rc_node_type = None, rc_port = 9001, rc_host = ''127.0.0.1'', rc_bind_host = ''0.0.0.0'',
     rc_directory_url = ''http://localhost:8080'', rc_bandwidth = 1048576, rc_heartbeat_interval = 60,
     rc_exit_allow_all = False, rc_tui = False, rc_operator_id = None\<rparr>"

definition rc_bind_addr :: "relay_config \<Rightarrow> any_error + socket_addr" where
  "rc_bind_addr c = (case parse_ip (rc_host c) of None \<Rightarrow> Inl AddrParse | Some ip \<Rightarrow> Inr (SocketAddr ip (rc_port c) 0))"

definition rc_listener_addr :: "relay_config \<Rightarrow> any_error + socket_addr" where
  "rc_listener_addr c = (case parse_ip (rc_bind_host c) of None \<Rightarrow> Inl AddrParse | Some ip \<Rightarrow> Inr (SocketAddr ip (rc_port c) 0))"

definition rc_exit_policy :: "node_type \<Rightarrow> relay_config \<Rightarrow> exit_policy option" where
  "rc_exit_policy t c =
     (if t = Exit
      then Some (if rc_exit_allow_all c
        then \<lparr>allowed_ports = [], blocked_ports = [], allowed_ips = [], blocked_ips = []\<rparr>
        else \<lparr>allowed_ports = [80, 443, 8080, 8443], blocked_ports = [25, 465, 587], allowed_ips = [],
              blocked_ips = [V4 [127, 0, 0, 1], V4 [10, 0, 0, 0], V4 [172, 16, 0, 0], V4 [192, 168, 0, 0]]\<rparr>)
      else None)"

definition quoted :: "string \<Rightarrow> string" where
  "quoted s = [CHR 0x27] @ s @ [CHR 0x27]"

definition parse_node_type :: "string \<Rightarrow> string + node_type" where
  "parse_node_type s =
     (if to_lower s = ''entry'' then Inr Entry
      else if to_lower s = ''middle'' then Inr Middle
      else if to_lower s = ''exit'' then Inr Exit
      else Inl (''Invalid node type: '' @ quoted s @ ''. Must be '' @ quoted ''entry'' @ '', '' @ quoted ''middle'' @
        '', or '' @ quoted ''exit''))"

text \<open>\<open>parse::<usize>()\<close> on a 64-bit target, \<open>parse::<u64>()\<close> and \<open>parse::<u16>()\<close>.\<close>

definition parse_u64 :: "string \<Rightarrow> nat option" where
  "parse_u64 s = from_str_radix 10 (2 ^ 64 - 1) s"

definition parse_u16 :: "string \<Rightarrow> nat option" where
  "parse_u16 s = from_str_radix 10 65535 s"

definition MAX_HOPS :: nat where "MAX_HOPS = 10"

record client_config =
  cc_socks_addr :: string
  cc_directory_url :: string
  cc_pool_size :: nat
  cc_hops :: nat
  cc_tui :: bool
  cc_max_rebuild_attempts :: nat

definition client_config_default :: client_config where
  "client_config_default = \<lparr>cc_socks_addr = ''127.0.0.1:1080'', cc_directory_url = ''http://localhost:8080'',
     cc_pool_size = 3, cc_hops = 3, cc_tui = False, cc_max_rebuild_attempts = 3\<rparr>"

definition parse_rebuild_attempts :: "string \<Rightarrow> string + nat" where
  "parse_rebuild_attempts s =
     (case parse_u64 s of
        None \<Rightarrow> Inl (quoted s @ '' is not a valid integer'')
      | Some n \<Rightarrow> if n < 1 then Inl (''max-rebuild-attempts must be >= 1, got '' @ show_nat n) else Inr n)"

definition parse_hop_count :: "string \<Rightarrow> string + nat" where
  "parse_hop_count s =
     (case parse_u64 s of
        None \<Rightarrow> Inl (quoted s @ '' is not a valid integer'')
      | Some n \<Rightarrow>
          if n < 3 then Inl (''hops must be >= 3 (1 entry + N-2 middles + 1 exit), got '' @ show_nat n)
          else if MAX_HOPS < n
          then Inl (''hops must be <= '' @ show_nat MAX_HOPS @ '' (maximum circuit size), got '' @ show_nat n)
          else Inr n)"

record dir_config =
  dcf_port :: u16
  dcf_web_port :: u16
  dcf_host :: string
  dcf_tui :: bool
  dcf_stale_timeout_secs :: u64
  dcf_allow_same_ip :: bool

definition dir_config_default :: dir_config where
  "dir_config_default = \<lparr>dcf_port = 8080, dcf_web_port = 8081, dcf_host = ''0.0.0.0'', dcf_tui = False,
     dcf_stale_timeout_secs = 120, dcf_allow_same_ip = False\<rparr>"

definition dcf_bind_addr :: "dir_config \<Rightarrow> string" where
  "dcf_bind_addr c = dcf_host c @ '':'' @ show_u16 (dcf_port c)"

definition dcf_web_bind_addr :: "dir_config \<Rightarrow> string" where
  "dcf_web_bind_addr c = dcf_host c @ '':'' @ show_u16 (dcf_web_port c)"

section \<open>Keys\<close>

datatype key = KEsc | KUp | KBackTab | KDown | KTab | KLeft | KRight | KBackspace | KEnter | KChar char | KOther

text \<open>A wizard after a key: still editing, launched with a configuration, or left.\<close>

datatype ('s, 'c) wizard = Editing 's | Launched 'c | Quit

text \<open>\<open>starts_with("http://")\<close> or \<open>starts_with("https://")\<close>.\<close>

definition url_ok :: "string \<Rightarrow> bool" where
  "url_ok s = (take 7 s = ''http://'' \<or> take 8 s = ''https://'')"

section \<open>The relay's wizard\<close>

definition NODE_TYPES :: "node_type list" where "NODE_TYPES = [Entry, Middle, Exit]"

datatype relay_field = FNodeType | FPort | FHost | FDirectoryUrl | FBandwidth | FHeartbeat | FExitAllowAll | FOperatorId

fun rf_label :: "relay_field \<Rightarrow> string" where
  "rf_label FNodeType = ''Node Type''"
| "rf_label FPort = ''Port''"
| "rf_label FHost = ''Host''"
| "rf_label FDirectoryUrl = ''Directory URL''"
| "rf_label FBandwidth = ''Bandwidth''"
| "rf_label FHeartbeat = ''Heartbeat (s)''"
| "rf_label FExitAllowAll = ''Exit Allow All''"
| "rf_label FOperatorId = ''Operator ID''"

definition rf_is_text :: "relay_field \<Rightarrow> bool" where
  "rf_is_text f = (f \<noteq> FNodeType \<and> f \<noteq> FExitAllowAll)"

record relay_wizard =
  rw_focused :: nat
  rw_node_type_idx :: nat
  rw_port :: string
  rw_host :: string
  rw_directory_url :: string
  rw_bandwidth :: string
  rw_heartbeat :: string
  rw_exit_allow_all :: bool
  rw_operator_id :: string
  rw_error :: "string option"

definition rw_new :: "relay_config \<Rightarrow> relay_wizard" where
  "rw_new c = \<lparr>rw_focused = 0,
     rw_node_type_idx = (case rc_node_type c of None \<Rightarrow> 0 | Some t \<Rightarrow> (case t of Entry \<Rightarrow> 0 | Middle \<Rightarrow> 1 | Exit \<Rightarrow> 2)),
     rw_port = show_u16 (rc_port c), rw_host = rc_host c, rw_directory_url = rc_directory_url c,
     rw_bandwidth = show_nat (unat (rc_bandwidth c)), rw_heartbeat = show_nat (unat (rc_heartbeat_interval c)),
     rw_exit_allow_all = (rc_node_type c = Some Exit \<and> rc_exit_allow_all c),
     rw_operator_id = (case rc_operator_id c of None \<Rightarrow> '''' | Some s \<Rightarrow> s), rw_error = None\<rparr>"

definition rw_active_fields :: "relay_wizard \<Rightarrow> relay_field list" where
  "rw_active_fields w =
     (if rw_node_type_idx w = 2
      then [FNodeType, FPort, FHost, FDirectoryUrl, FBandwidth, FHeartbeat, FExitAllowAll, FOperatorId]
      else [FNodeType, FPort, FHost, FDirectoryUrl, FBandwidth, FHeartbeat, FOperatorId])"

definition rw_current :: "relay_wizard \<Rightarrow> relay_field option" where
  "rw_current w = get_at (rw_active_fields w) (rw_focused w)"

definition rw_up :: "relay_wizard \<Rightarrow> relay_wizard" where
  "rw_up w = (if 0 < rw_focused w then w\<lparr>rw_focused := rw_focused w - 1\<rparr> else w)"

definition rw_down :: "relay_wizard \<Rightarrow> relay_wizard" where
  "rw_down w = (if rw_focused w < length (rw_active_fields w) - 1 then w\<lparr>rw_focused := rw_focused w + 1\<rparr> else w)"

definition rw_left :: "relay_wizard \<Rightarrow> relay_wizard" where
  "rw_left w =
     (case rw_current w of
        Some FNodeType \<Rightarrow> if 0 < rw_node_type_idx w then w\<lparr>rw_node_type_idx := rw_node_type_idx w - 1\<rparr> else w
      | Some FExitAllowAll \<Rightarrow> w\<lparr>rw_exit_allow_all := False\<rparr>
      | _ \<Rightarrow> w)"

definition rw_right :: "relay_wizard \<Rightarrow> relay_wizard" where
  "rw_right w =
     (case rw_current w of
        Some FNodeType \<Rightarrow>
          if rw_node_type_idx w < length NODE_TYPES - 1 then w\<lparr>rw_node_type_idx := rw_node_type_idx w + 1\<rparr> else w
      | Some FExitAllowAll \<Rightarrow> w\<lparr>rw_exit_allow_all := True\<rparr>
      | _ \<Rightarrow> w)"

text \<open>The text field under the cursor, edited.\<close>

fun rw_edit :: "(string \<Rightarrow> string) \<Rightarrow> relay_field \<Rightarrow> relay_wizard \<Rightarrow> relay_wizard" where
  "rw_edit f FPort w = w\<lparr>rw_port := f (rw_port w)\<rparr>"
| "rw_edit f FHost w = w\<lparr>rw_host := f (rw_host w)\<rparr>"
| "rw_edit f FDirectoryUrl w = w\<lparr>rw_directory_url := f (rw_directory_url w)\<rparr>"
| "rw_edit f FBandwidth w = w\<lparr>rw_bandwidth := f (rw_bandwidth w)\<rparr>"
| "rw_edit f FHeartbeat w = w\<lparr>rw_heartbeat := f (rw_heartbeat w)\<rparr>"
| "rw_edit f FOperatorId w = w\<lparr>rw_operator_id := f (rw_operator_id w)\<rparr>"
| "rw_edit f _ w = w"

definition rw_push_char :: "char \<Rightarrow> relay_wizard \<Rightarrow> relay_wizard" where
  "rw_push_char c w =
     (case rw_current w of
        Some f \<Rightarrow> if rf_is_text f then (rw_edit (\<lambda>s. s @ [c]) f w)\<lparr>rw_error := None\<rparr> else w
      | None \<Rightarrow> w)"

definition rw_pop_char :: "relay_wizard \<Rightarrow> relay_wizard" where
  "rw_pop_char w =
     (case rw_current w of
        Some f \<Rightarrow> if rf_is_text f then (rw_edit butlast f w)\<lparr>rw_error := None\<rparr> else w
      | None \<Rightarrow> w)"

text \<open>The first check that fails is shown; the en dash of the port message is its UTF-8 bytes.\<close>

definition port_message :: string where
  "port_message = ''Port must be 1'' @ [CHR 0xE2, CHR 0x80, CHR 0x93] @ ''65535''"

definition rw_validate :: "relay_wizard \<Rightarrow> relay_config option \<times> relay_wizard" where
  "rw_validate w =
     (let fail = (\<lambda>m. (None, w\<lparr>rw_error := Some m\<rparr>)) in
      case get_at NODE_TYPES (rw_node_type_idx w) of None \<Rightarrow> fail ''Node type is required'' | Some t \<Rightarrow>
     (case parse_u16 (rw_port w) of None \<Rightarrow> fail port_message | Some port \<Rightarrow>
      if \<not> 1 \<le> port then fail port_message
      else if parse_ip (rw_host w) = None then fail ''Host must be a valid IP address''
      else if \<not> url_ok (rw_directory_url w) then fail ''Directory URL must start with http:// or https://''
      else case parse_u64 (rw_bandwidth w) of None \<Rightarrow> fail ''Bandwidth must be > 0'' | Some bw \<Rightarrow>
      if \<not> 0 < bw then fail ''Bandwidth must be > 0''
      else case parse_u64 (rw_heartbeat w) of None \<Rightarrow> fail ''Heartbeat must be > 0'' | Some hb \<Rightarrow>
      if \<not> 0 < hb then fail ''Heartbeat must be > 0''
      else (Some \<lparr>rc_node_type = Some t, rc_port = word_of_nat port, rc_host = rw_host w, rc_bind_host = ''0.0.0.0'',
              rc_directory_url = rw_directory_url w, rc_bandwidth = word_of_nat bw,
              rc_heartbeat_interval = word_of_nat hb, rc_exit_allow_all = rw_exit_allow_all w, rc_tui = True,
              rc_operator_id = (if rw_operator_id w = '''' then None else Some (rw_operator_id w))\<rparr>,
            w\<lparr>rw_error := None\<rparr>)))"

definition rw_key :: "key \<Rightarrow> relay_wizard \<Rightarrow> (relay_wizard, relay_config) wizard" where
  "rw_key k w =
     (case k of
        KEsc \<Rightarrow> Quit
      | KUp \<Rightarrow> Editing (rw_up w) | KBackTab \<Rightarrow> Editing (rw_up w)
      | KDown \<Rightarrow> Editing (rw_down w) | KTab \<Rightarrow> Editing (rw_down w)
      | KLeft \<Rightarrow> Editing (rw_left w) | KRight \<Rightarrow> Editing (rw_right w)
      | KBackspace \<Rightarrow> Editing (rw_pop_char w)
      | KEnter \<Rightarrow> (case rw_validate w of (Some c, w) \<Rightarrow> Launched c | (None, w) \<Rightarrow> Editing w)
      | KChar c \<Rightarrow>
          Editing (if (case rw_current w of None \<Rightarrow> False | Some f \<Rightarrow> rf_is_text f) then rw_push_char c w else w)
      | KOther \<Rightarrow> Editing w)"

text \<open>\<open>wizard_loop\<close> on the keys that are pressed.\<close>

fun rw_loop :: "key list \<Rightarrow> relay_wizard \<Rightarrow> (relay_wizard, relay_config) wizard" where
  "rw_loop [] w = Editing w"
| "rw_loop (k # ks) w =
     (case rw_key k w of Editing w \<Rightarrow> rw_loop ks w | Launched c \<Rightarrow> Launched c | Quit \<Rightarrow> Quit)"

section \<open>The client's wizard\<close>

datatype client_field = CSocksAddr | CDirectoryUrl | CPoolSize | CHops | CMaxRebuildAttempts

fun cf_label :: "client_field \<Rightarrow> string" where
  "cf_label CSocksAddr = ''SOCKS Address''"
| "cf_label CDirectoryUrl = ''Directory URL''"
| "cf_label CPoolSize = ''Pool Size''"
| "cf_label CHops = ''Hops''"
| "cf_label CMaxRebuildAttempts = ''Max Rebuild''"

definition FIELDS :: "client_field list" where
  "FIELDS = [CSocksAddr, CDirectoryUrl, CPoolSize, CHops, CMaxRebuildAttempts]"

record client_wizard =
  cw_focused :: nat
  cw_socks_addr :: string
  cw_directory_url :: string
  cw_pool_size :: string
  cw_hops :: string
  cw_max_rebuild_attempts :: string
  cw_error :: "string option"

definition cw_new :: "client_config \<Rightarrow> client_wizard" where
  "cw_new c = \<lparr>cw_focused = 0, cw_socks_addr = cc_socks_addr c, cw_directory_url = cc_directory_url c,
     cw_pool_size = show_nat (cc_pool_size c), cw_hops = show_nat (cc_hops c),
     cw_max_rebuild_attempts = show_nat (cc_max_rebuild_attempts c), cw_error = None\<rparr>"

definition cw_current :: "client_wizard \<Rightarrow> client_field option" where
  "cw_current w = get_at FIELDS (cw_focused w)"

definition cw_up :: "client_wizard \<Rightarrow> client_wizard" where
  "cw_up w = (if 0 < cw_focused w then w\<lparr>cw_focused := cw_focused w - 1\<rparr> else w)"

definition cw_down :: "client_wizard \<Rightarrow> client_wizard" where
  "cw_down w = (if cw_focused w < length FIELDS - 1 then w\<lparr>cw_focused := cw_focused w + 1\<rparr> else w)"

fun cw_edit :: "(string \<Rightarrow> string) \<Rightarrow> client_field \<Rightarrow> client_wizard \<Rightarrow> client_wizard" where
  "cw_edit f CSocksAddr w = w\<lparr>cw_socks_addr := f (cw_socks_addr w)\<rparr>"
| "cw_edit f CDirectoryUrl w = w\<lparr>cw_directory_url := f (cw_directory_url w)\<rparr>"
| "cw_edit f CPoolSize w = w\<lparr>cw_pool_size := f (cw_pool_size w)\<rparr>"
| "cw_edit f CHops w = w\<lparr>cw_hops := f (cw_hops w)\<rparr>"
| "cw_edit f CMaxRebuildAttempts w = w\<lparr>cw_max_rebuild_attempts := f (cw_max_rebuild_attempts w)\<rparr>"

definition cw_push_char :: "char \<Rightarrow> client_wizard \<Rightarrow> client_wizard" where
  "cw_push_char c w =
     (case cw_current w of None \<Rightarrow> w | Some f \<Rightarrow> (cw_edit (\<lambda>s. s @ [c]) f w)\<lparr>cw_error := None\<rparr>)"

definition cw_pop_char :: "client_wizard \<Rightarrow> client_wizard" where
  "cw_pop_char w = (case cw_current w of None \<Rightarrow> w | Some f \<Rightarrow> (cw_edit butlast f w)\<lparr>cw_error := None\<rparr>)"

definition hops_message :: string where
  "hops_message = ''Hops must be 3'' @ [CHR 0xE2, CHR 0x80, CHR 0x93] @ ''10''"

definition cw_validate :: "client_wizard \<Rightarrow> client_config option \<times> client_wizard" where
  "cw_validate w =
     (let fail = (\<lambda>m. (None, w\<lparr>cw_error := Some m\<rparr>)) in
      if parse_socket_addr (cw_socks_addr w) = None
      then fail ''SOCKS address must be a valid host:port (e.g. 127.0.0.1:1080)''
      else if \<not> url_ok (cw_directory_url w) then fail ''Directory URL must start with http:// or https://''
      else case parse_u64 (cw_pool_size w) of None \<Rightarrow> fail ''Pool size must be > 0'' | Some pool \<Rightarrow>
      if \<not> 0 < pool then fail ''Pool size must be > 0''
      else case parse_u64 (cw_hops w) of None \<Rightarrow> fail hops_message | Some h \<Rightarrow>
      if h < 3 then fail (''Hops must be >= 3, got '' @ show_nat h)
      else if MAX_HOPS < h then fail (''Hops must be <= '' @ show_nat MAX_HOPS @ '', got '' @ show_nat h)
      else case parse_u64 (cw_max_rebuild_attempts w) of None \<Rightarrow> fail ''Max rebuild attempts must be >= 1'' | Some a \<Rightarrow>
      if \<not> 1 \<le> a then fail ''Max rebuild attempts must be >= 1''
      else (Some \<lparr>cc_socks_addr = cw_socks_addr w, cc_directory_url = cw_directory_url w, cc_pool_size = pool,
              cc_hops = h, cc_tui = True, cc_max_rebuild_attempts = a\<rparr>,
            w\<lparr>cw_error := None\<rparr>))"

definition cw_key :: "key \<Rightarrow> client_wizard \<Rightarrow> (client_wizard, client_config) wizard" where
  "cw_key k w =
     (case k of
        KEsc \<Rightarrow> Quit
      | KUp \<Rightarrow> Editing (cw_up w) | KBackTab \<Rightarrow> Editing (cw_up w)
      | KDown \<Rightarrow> Editing (cw_down w) | KTab \<Rightarrow> Editing (cw_down w)
      | KBackspace \<Rightarrow> Editing (cw_pop_char w)
      | KEnter \<Rightarrow> (case cw_validate w of (Some c, w) \<Rightarrow> Launched c | (None, w) \<Rightarrow> Editing w)
      | KChar c \<Rightarrow> Editing (cw_push_char c w)
      | _ \<Rightarrow> Editing w)"

fun cw_loop :: "key list \<Rightarrow> client_wizard \<Rightarrow> (client_wizard, client_config) wizard" where
  "cw_loop [] w = Editing w"
| "cw_loop (k # ks) w =
     (case cw_key k w of Editing w \<Rightarrow> cw_loop ks w | Launched c \<Rightarrow> Launched c | Quit \<Rightarrow> Quit)"

section \<open>Start of a relay\<close>

text \<open>
  \<open>main\<close> up to the registration, from the configuration it ends up with; \<open>fp\<close> is the
  certificate's fingerprint, \<open>connected\<close> whether the channel comes up, \<open>call\<close> the
  registration call.
\<close>

datatype start_error = StartError any_error | StartRefused status

definition relay_descriptor :: "string \<Rightarrow> node_type \<Rightarrow> socket_addr \<Rightarrow> key_pair \<Rightarrow> string \<Rightarrow> relay_config \<Rightarrow> node_descriptor" where
  "relay_descriptor i t a kp fp c = \<lparr>node_id = i, node_type = t, address = a, public_key = kp_public kp,
     bandwidth = rc_bandwidth c, nd_exit_policy = rc_exit_policy t c, operator_id = rc_operator_id c,
     tls_cert_fingerprint = fp\<rparr>"

definition relay_start ::
  "relay_config \<Rightarrow> string \<Rightarrow> key_pair \<Rightarrow> any_error + string \<Rightarrow> bool \<Rightarrow> (proto_descriptor \<Rightarrow> (status + string) \<times> 'd) \<Rightarrow> 'd
   \<Rightarrow> (start_error + node_descriptor) \<times> 'd"
where
  "relay_start c i kp fp connected call dir =
     (case rc_node_type c of
        None \<Rightarrow> (Inl (StartError (Msg ''--type is required (or use --tui for interactive setup)'')), dir)
      | Some t \<Rightarrow>
     (case rc_bind_addr c of Inl e \<Rightarrow> (Inl (StartError e), dir) | Inr a \<Rightarrow>
     (case rc_listener_addr c of Inl e \<Rightarrow> (Inl (StartError e), dir) | Inr la \<Rightarrow>
     (case fp of Inl e \<Rightarrow> (Inl (StartError (Msg ''Failed to generate TLS certificate'')), dir) | Inr f \<Rightarrow>
      if \<not> connected then (Inl (StartError (Msg ''Failed to connect to discovery gRPC service'')), dir)
      else let d = relay_descriptor i t a kp f c in
        (case register_with_directory call d of
           (Inl e, dir) \<Rightarrow> (Inl (StartRefused e), dir)
         | (Inr _, dir) \<Rightarrow> (Inr d, dir))))))"

section \<open>What the wizards guarantee\<close>

definition rw_inv :: "relay_wizard \<Rightarrow> bool" where
  "rw_inv w = (rw_node_type_idx w < length NODE_TYPES \<and> rw_focused w < length (rw_active_fields w))"

lemma rw_inv_current: "rw_inv w \<Longrightarrow> \<exists>f. rw_current w = Some f"
  by (simp add: rw_inv_def rw_current_def get_at_def)

lemma rw_current_type: "rw_current w = Some FNodeType \<Longrightarrow> rw_focused w = 0"
  by (auto simp: rw_current_def get_at_def rw_active_fields_def nth_Cons' split: if_splits)

lemma rw_edit_fields [simp]:
  "rw_focused (rw_edit g f w) = rw_focused w" "rw_node_type_idx (rw_edit g f w) = rw_node_type_idx w"
  by (cases f; simp)+

lemma rw_active_update [simp]:
  "rw_active_fields (w\<lparr>rw_focused := n\<rparr>) = rw_active_fields w" "rw_active_fields (w\<lparr>rw_error := e\<rparr>) = rw_active_fields w"
  "rw_active_fields (w\<lparr>rw_exit_allow_all := b\<rparr>) = rw_active_fields w" "rw_active_fields (rw_edit g f w) = rw_active_fields w"
  by (simp_all add: rw_active_fields_def)

lemma rw_inv_key: "rw_inv w \<Longrightarrow> rw_key k w = Editing w' \<Longrightarrow> rw_inv w'"
proof -
  assume inv: "rw_inv w" and key: "rw_key k w = Editing w'"
  have valid: "rw_inv w'" if "rw_validate w = (None, w')" for w'
    using that inv by (auto simp: rw_validate_def rw_inv_def Let_def split: option.splits if_splits)
  have "0 < length (rw_active_fields v)" for v by (simp add: rw_active_fields_def)
  then show ?thesis
    using inv key valid rw_current_type [of w]
    by (auto simp: rw_key_def rw_inv_def rw_up_def rw_down_def rw_left_def rw_right_def rw_push_char_def rw_pop_char_def
        NODE_TYPES_def split: key.splits if_splits option.splits relay_field.splits prod.splits)
qed

lemma rw_inv_new: "rw_inv (rw_new c)"
  by (auto simp: rw_inv_def rw_new_def NODE_TYPES_def rw_active_fields_def split: option.splits node_type.splits)

lemma rw_validate_Some:
  assumes "rw_validate w = (Some c, w')"
  shows "(\<exists>t. rc_node_type c = Some t) \<and> (\<exists>ip. parse_ip (rc_host c) = Some ip) \<and> rc_bind_host c = ''0.0.0.0'' \<and>
    rc_port c \<noteq> 0 \<and> url_ok (rc_directory_url c) \<and> rc_bandwidth c \<noteq> 0 \<and> rc_heartbeat_interval c \<noteq> 0"
proof -
  obtain t port bw hb where v: "parse_u16 (rw_port w) = Some port" "1 \<le> port" "parse_ip (rw_host w) \<noteq> None"
    "url_ok (rw_directory_url w)" "parse_u64 (rw_bandwidth w) = Some bw" "0 < bw"
    "parse_u64 (rw_heartbeat w) = Some hb" "0 < hb"
    and c: "rc_node_type c = Some t" "rc_port c = word_of_nat port" "rc_host c = rw_host w" "rc_bind_host c = ''0.0.0.0''"
      "rc_directory_url c = rw_directory_url w" "rc_bandwidth c = word_of_nat bw" "rc_heartbeat_interval c = word_of_nat hb"
    using assms by (auto simp: rw_validate_def Let_def split: option.splits if_splits)
  have "port \<le> 65535" "bw \<le> 2 ^ 64 - 1" "hb \<le> 2 ^ 64 - 1"
    using v(1,5,7) by (auto simp: parse_u16_def parse_u64_def dest: from_str_radix_le)
  then have "unat (word_of_nat port :: u16) = port" "unat (word_of_nat bw :: u64) = bw" "unat (word_of_nat hb :: u64) = hb"
    by (simp_all add: unsigned_of_nat take_bit_nat_eq_self)
  then have "rc_port c \<noteq> 0" "rc_bandwidth c \<noteq> 0" "rc_heartbeat_interval c \<noteq> 0"
    using v c by (metis unsigned_0 not_one_le_zero less_numeral_extra(3))+
  with v c show ?thesis by auto
qed

lemma rw_loop_launched:
  "rw_loop ks w = Launched c \<Longrightarrow> \<exists>v v'. rw_validate v = (Some c, v')"
proof (induction ks arbitrary: w)
  case (Cons k ks)
  show ?case
  proof (cases "rw_key k w")
    case (Editing v)
    then show ?thesis using Cons by simp
  next
    case (Launched d)
    then show ?thesis using Cons.prems by (auto simp: rw_key_def split: key.splits option.splits prod.splits)
  qed (use Cons.prems in simp)
qed simp

lemma rw_loop_inv: "rw_loop ks w = Editing w' \<Longrightarrow> rw_inv w \<Longrightarrow> rw_inv w'"
proof (induction ks arbitrary: w)
  case (Cons k ks)
  then show ?case by (cases "rw_key k w") (auto dest: rw_inv_key)
qed simp

lemma any_v4_parses: "parse_ip ''0.0.0.0'' = Some (V4 [0, 0, 0, 0])"
proof -
  have "show_ip (V4 [0, 0, 0, 0]) = ''0.0.0.0''"
    by (simp add: show_v4_def show_nat.simps digit_char_def) code_simp
  then show ?thesis using parse_ip_show_v4 [of "[0, 0, 0, 0]"] by simp
qed

lemma exit_policy_wf: "case rc_exit_policy t c of None \<Rightarrow> True | Some p \<Rightarrow> policy_wf p"
  by (simp add: rc_exit_policy_def policy_wf_def)

text \<open>A relay with a checked configuration reaches its registration, which the service accepts.\<close>

lemma relay_start_registers:
  assumes "rc_node_type c = Some t" "parse_ip (rc_host c) = Some ip" "rc_bind_host c = ''0.0.0.0''" "rc_bandwidth c \<noteq> 0"
    and "i \<noteq> ''''" "pk_wf (kp_public kp)" "reg_inv since (ds_registry st)"
  shows "\<exists>d st'. relay_start c i kp (Inr fp) True (\<lambda>pd. rpc_register_node et now pd st) st = (Inr d, st') \<and>
    d = relay_descriptor i t (SocketAddr ip (rc_port c) 0) kp fp c \<and> valid_node d \<and>
    reg_lookup (ds_registry st') i = Some d"
proof -
  let ?d = "relay_descriptor i t (SocketAddr ip (rc_port c) 0) kp fp c"
  have "descriptor_wf ?d"
    using assms(6) parse_ip_wf [OF assms(2)] exit_policy_wf [of t c]
    by (simp add: descriptor_wf_def relay_descriptor_def socket_wf_def)
  then have valid: "valid_node ?d" using assms(4,5) by (simp add: valid_node_def relay_descriptor_def)
  then have parse: "descriptor_from_proto et (descriptor_to_proto ?d) = Inr ?d" "node_id ?d \<noteq> ''''" "bandwidth ?d \<noteq> 0"
    by (simp_all add: valid_node_def descriptor_from_to)
  have id: "node_id ?d = i" by (simp add: relay_descriptor_def)
  define st' where "st' = snd (rpc_register_node et now (descriptor_to_proto ?d) st)"
  have reg: "rpc_register_node et now (descriptor_to_proto ?d) st = (Inr ''Node registered successfully'', st')"
    using parse by (simp add: st'_def rpc_register_node_def)
  have st': "ds_registry st' = register_node now ?d (ds_registry st)"
    using parse by (simp add: st'_def rpc_register_node_def)
  have "reg_lookup (ds_registry st') i = Some ?d"
    using registry.lookup_register [OF assms(7), of now ?d i] by (simp add: st' id)
  moreover have "relay_start c i kp (Inr fp) True (\<lambda>pd. rpc_register_node et now pd st) st = (Inr ?d, st')"
    using assms(1-3) any_v4_parses reg
    by (simp add: relay_start_def rc_bind_addr_def rc_listener_addr_def register_with_directory_def)
  ultimately show ?thesis using valid by blast
qed


text \<open>Enter at once: the wizard keeps the command line, but for the type, the listener's address and the terminal.\<close>

lemma parse_show_word:
  "parse_u16 (show_u16 p) = Some (unat p)" "parse_u64 (show_nat (unat (b :: u64))) = Some (unat b)"
proof -
  show "parse_u16 (show_u16 p) = Some (unat p)"
    using unat_bounds(2) [of p] by (simp add: parse_u16_def show_u16_def from_str_show_nat)
  show "parse_u64 (show_nat (unat b)) = Some (unat b)"
    using unsigned_less [where 'a = nat, of b] by (intro from_str_show_nat [where mx = "2 ^ 64 - 1", folded parse_u64_def]) simp
qed

lemma relay_wizard_keeps:
  assumes "rc_port c \<noteq> 0" "rc_bandwidth c \<noteq> 0" "rc_heartbeat_interval c \<noteq> 0" "url_ok (rc_directory_url c)"
    and "parse_ip (rc_host c) \<noteq> None" "rc_operator_id c \<noteq> Some ''''"
  shows "rw_loop [KEnter] (rw_new c) = Launched (c\<lparr>rc_node_type := Some (case rc_node_type c of None \<Rightarrow> Entry | Some t \<Rightarrow> t),
    rc_bind_host := ''0.0.0.0'', rc_exit_allow_all := (rc_node_type c = Some Exit \<and> rc_exit_allow_all c), rc_tui := True\<rparr>)"
proof -
  have pos: "0 < unat (rc_port c)" "0 < unat (rc_bandwidth c)" "0 < unat (rc_heartbeat_interval c)"
    using assms(1-3) by (simp_all add: unat_gt_0)
  have ty: "get_at NODE_TYPES (rw_node_type_idx (rw_new c)) = Some (case rc_node_type c of None \<Rightarrow> Entry | Some t \<Rightarrow> t)"
    by (auto simp: rw_new_def NODE_TYPES_def get_at_def split: option.split node_type.split)
  show ?thesis
    using pos assms(4-6) ty
    by (cases "rc_operator_id c")
      (auto simp: rw_key_def rw_validate_def parse_show_word rw_new_def Let_def)
qed

lemma sample_host: "parse_ip ''127.0.0.1'' = Some (V4 [127, 0, 0, 1])"
proof -
  have "show_ip (V4 [127, 0, 0, 1]) = ''127.0.0.1''"
    by (simp add: show_v4_def show_nat.simps digit_char_def) code_simp
  then show ?thesis using parse_ip_show_v4 [of "[127, 0, 0, 1]"] by simp
qed


section \<open>The client's wizard and its command line\<close>

definition cw_inv :: "client_wizard \<Rightarrow> bool" where
  "cw_inv w = (cw_focused w < length FIELDS)"

lemma cw_edit_focused [simp]: "cw_focused (cw_edit g f w) = cw_focused w"
  by (cases f) simp_all

lemma cw_validate_focused: "cw_validate w = (r, w') \<Longrightarrow> cw_focused w' = cw_focused w"
  by (auto simp: cw_validate_def Let_def split: option.splits if_splits)

lemma cw_inv_key: "cw_inv w \<Longrightarrow> cw_key k w = Editing w' \<Longrightarrow> cw_inv w'"
  by (auto simp: cw_key_def cw_inv_def cw_up_def cw_down_def cw_push_char_def cw_pop_char_def FIELDS_def
      split: key.splits option.splits prod.splits if_splits dest: cw_validate_focused)

lemma cw_loop_inv: "cw_loop ks w = Editing w' \<Longrightarrow> cw_inv w \<Longrightarrow> cw_inv w'"
proof (induction ks arbitrary: w)
  case (Cons k ks)
  then show ?case by (cases "cw_key k w") (auto dest: cw_inv_key)
qed simp

lemma cw_loop_launched: "cw_loop ks w = Launched c \<Longrightarrow> \<exists>v v'. cw_validate v = (Some c, v')"
proof (induction ks arbitrary: w)
  case (Cons k ks)
  show ?case
  proof (cases "cw_key k w")
    case (Editing v)
    then show ?thesis using Cons by simp
  next
    case (Launched d)
    then show ?thesis using Cons.prems by (auto simp: cw_key_def split: key.splits option.splits prod.splits)
  qed (use Cons.prems in simp)
qed simp

lemma cw_validate_iff:
  "(\<exists>w'. cw_validate w = (Some c, w')) \<longleftrightarrow>
   (\<exists>a. parse_socket_addr (cw_socks_addr w) = Some a) \<and> url_ok (cw_directory_url w) \<and>
   parse_u64 (cw_pool_size w) = Some (cc_pool_size c) \<and> 0 < cc_pool_size c \<and>
   parse_hop_count (cw_hops w) = Inr (cc_hops c) \<and>
   parse_rebuild_attempts (cw_max_rebuild_attempts w) = Inr (cc_max_rebuild_attempts c) \<and>
   cc_socks_addr c = cw_socks_addr w \<and> cc_directory_url c = cw_directory_url w \<and> cc_tui c"
  by (auto simp: cw_validate_def parse_hop_count_def parse_rebuild_attempts_def Let_def split: option.splits if_splits)

text \<open>
  C37. The client's wizard and its command line accept the same numbers: the wizard launches
  exactly when the SOCKS address and the URL are well formed, the pool is not empty and the
  command line's own parsers accept the hop count and the number of rebuild attempts, and it
  launches with what they return; so every client runs with three to ten hops, and whatever
  keys are pressed the cursor stays on a field.
\<close>

theorem client_wizard_agrees:
  "((\<exists>w'. cw_validate w = (Some c, w')) \<longleftrightarrow>
     (\<exists>a. parse_socket_addr (cw_socks_addr w) = Some a) \<and> url_ok (cw_directory_url w) \<and>
     parse_u64 (cw_pool_size w) = Some (cc_pool_size c) \<and> 0 < cc_pool_size c \<and>
     parse_hop_count (cw_hops w) = Inr (cc_hops c) \<and>
     parse_rebuild_attempts (cw_max_rebuild_attempts w) = Inr (cc_max_rebuild_attempts c) \<and>
     cc_socks_addr c = cw_socks_addr w \<and> cc_directory_url c = cw_directory_url w \<and> cc_tui c) \<and>
   (case cw_loop ks (cw_new dflt) of
      Launched d \<Rightarrow> 3 \<le> cc_hops d \<and> cc_hops d \<le> MAX_HOPS \<and> 0 < cc_pool_size d \<and> 1 \<le> cc_max_rebuild_attempts d
    | Editing v \<Rightarrow> (\<exists>f. cw_current v = Some f)
    | Quit \<Rightarrow> True)"
proof (intro conjI cw_validate_iff)
  show "case cw_loop ks (cw_new dflt) of
      Launched d \<Rightarrow> 3 \<le> cc_hops d \<and> cc_hops d \<le> MAX_HOPS \<and> 0 < cc_pool_size d \<and> 1 \<le> cc_max_rebuild_attempts d
    | Editing v \<Rightarrow> (\<exists>f. cw_current v = Some f)
    | Quit \<Rightarrow> True"
  proof (cases "cw_loop ks (cw_new dflt)")
    case (Editing v)
    then have "cw_inv v" using cw_loop_inv by (auto simp: cw_inv_def cw_new_def FIELDS_def)
    with Editing show ?thesis by (simp add: cw_current_def cw_inv_def get_at_def)
  next
    case (Launched d)
    then obtain v where "\<exists>v'. cw_validate v = (Some d, v')" using cw_loop_launched by blast
    with Launched show ?thesis
      unfolding cw_validate_iff
      by (auto simp: parse_hop_count_def parse_rebuild_attempts_def split: option.splits if_splits)
  qed simp
qed

end
