(* ===== verification/Terminal_Views.thy ===== *)
theory Terminal_Views
  imports Client_Pool Dir_Service
begin

text \<open>
  What the three terminal dashboards show (\<open>relay-node/src/tui/mod.rs\<close>,
  \<open>tor-client/src/tui/mod.rs\<close>, \<open>discovery/src/tui/mod.rs\<close>): the styled lines of
  their logs, their headers, tables and titles, the keys they take, and which part of a log
  fits. Placing the widgets is ratatui's: the height of the log's area is a parameter. Text
  outside ASCII is given by its UTF-8 bytes.
\<close>

section \<open>Styled text\<close>

datatype colour = Black | Blue | Cyan | DarkGray | Gray | Green | LightYellow | Magenta | Red | White | Yellow

record style =
  st_fg :: "colour option"
  st_bg :: "colour option"
  st_bold :: bool

record text_span =
  ts_text :: string
  ts_style :: style

definition span_raw :: "string \<Rightarrow> text_span" where
  "span_raw s = \<lparr>ts_text = s, ts_style = \<lparr>st_fg = None, st_bg = None, st_bold = False\<rparr>\<rparr>"

definition span_fg :: "colour \<Rightarrow> string \<Rightarrow> text_span" where
  "span_fg c s = \<lparr>ts_text = s, ts_style = \<lparr>st_fg = Some c, st_bg = None, st_bold = False\<rparr>\<rparr>"

definition span_bold :: "colour \<Rightarrow> string \<Rightarrow> text_span" where
  "span_bold c s = \<lparr>ts_text = s, ts_style = \<lparr>st_fg = Some c, st_bg = None, st_bold = True\<rparr>\<rparr>"

definition line_text :: "text_span list \<Rightarrow> string" where
  "line_text l = concat (map ts_text l)"

definition arrow_up :: string where "arrow_up = [CHR 0xE2, CHR 0x86, CHR 0x91]"
definition arrow_down :: string where "arrow_down = [CHR 0xE2, CHR 0x86, CHR 0x93]"
definition box_bar :: string where "box_bar = [CHR 0xE2, CHR 0x94, CHR 0x82]"
definition heart_sign :: string where "heart_sign = [CHR 0xE2, CHR 0x99, CHR 0xA5]"
definition info_sign :: string where "info_sign = [CHR 0xE2, CHR 0x84, CHR 0xB9]"
definition check_sign :: string where "check_sign = [CHR 0xE2, CHR 0x9C, CHR 0x93]"

text \<open>\<open>{:05}\<close> and \<open>{:<20}\<close> of ASCII text.\<close>

definition pad5 :: "nat \<Rightarrow> string" where
  "pad5 n = (let s = show_nat n in replicate (5 - length s) CHR ''0'' @ s)"

definition left20 :: "string \<Rightarrow> string" where
  "left20 s = s @ replicate (20 - length s) CHR '' ''"

text \<open>Every log line begins with its time in grey.\<close>

definition stamp :: "string \<Rightarrow> text_span" where
  "stamp ts = span_fg DarkGray ('' '' @ ts @ '' '')"

text \<open>The tail of a log that fits an area whose border takes two rows.\<close>

definition visible_lines :: "nat \<Rightarrow> 'l list \<Rightarrow> 'l list" where
  "visible_lines height ls = drop (length ls - (height - 2)) ls"

text \<open>Keys: a character with or without Control.\<close>

datatype tui_key = TChar char bool | TOther

section \<open>The relay\<close>

datatype filter_mode = FAll | FCircuits | FStreams | FErrors

fun show_filter :: "filter_mode \<Rightarrow> string" where
  "show_filter FAll = ''All''"
| "show_filter FCircuits = ''Circuits''"
| "show_filter FStreams = ''Streams''"
| "show_filter FErrors = ''Errors''"

record tui_state =
  tu_paused :: bool
  tu_filter :: filter_mode

definition tui_new :: tui_state where "tui_new = \<lparr>tu_paused = False, tu_filter = FAll\<rparr>"

text \<open>None is the return from the loop.\<close>

fun relay_tui_key :: "tui_key \<Rightarrow> tui_state \<Rightarrow> tui_state option" where
  "relay_tui_key (TChar c control) s =
     (if c = CHR ''q'' \<or> c = CHR ''Q'' then None
      else if c = CHR ''c'' \<and> control then None
      else if c = CHR ''p'' \<or> c = CHR ''P'' then Some (s\<lparr>tu_paused := \<not> tu_paused s\<rparr>)
      else if c = CHR ''1'' then Some (s\<lparr>tu_filter := FAll\<rparr>)
      else if c = CHR ''2'' then Some (s\<lparr>tu_filter := FCircuits\<rparr>)
      else if c = CHR ''3'' then Some (s\<lparr>tu_filter := FStreams\<rparr>)
      else if c = CHR ''4'' then Some (s\<lparr>tu_filter := FErrors\<rparr>)
      else Some s)"
| "relay_tui_key TOther s = Some s"

fun matches_event :: "relay_event \<Rightarrow> filter_mode \<Rightarrow> bool" where
  "matches_event k FAll = True"
| "matches_event k FCircuits =
     (case k of CircuitCreated _ \<Rightarrow> True | CircuitExtended _ _ \<Rightarrow> True | CircuitDestroyed _ \<Rightarrow> True | _ \<Rightarrow> False)"
| "matches_event k FStreams =
     (case k of StreamOpened _ _ _ \<Rightarrow> True | StreamClosed _ _ \<Rightarrow> True | StreamData _ _ _ _ \<Rightarrow> True | _ \<Rightarrow> False)"
| "matches_event k FErrors = (case k of ErrorEvent _ \<Rightarrow> True | _ \<Rightarrow> False)"

text \<open>The data lines of a relay and of a client are the same.\<close>

definition data_line :: "string \<Rightarrow> u32 \<Rightarrow> u16 \<Rightarrow> nat \<Rightarrow> direction \<Rightarrow> text_span list" where
  "data_line ts c s n dir =
     (let (arrow, label, color) =
        (case dir of Forward \<Rightarrow> (arrow_right, ''DATA'' @ arrow_right @ ''   '', White)
           | Backward \<Rightarrow> (arrow_left, ''DATA'' @ arrow_left @ ''   '', Gray))
      in [stamp ts, span_fg color (arrow @ '' '' @ label),
          span_raw (''cid='' @ show_u32 c @ '' sid='' @ show_u16 s @ '' ['' @ format_bytes (word_of_nat n) @ '' '' @
            show_direction dir @ '']'')])"

fun relay_format_event :: "string \<Rightarrow> relay_event \<Rightarrow> text_span list" where
  "relay_format_event ts (ConnectionAccepted peer) =
     [stamp ts, span_bold Blue (arrow_left @ '' ACCEPT   ''), span_raw (''from '' @ peer)]"
| "relay_format_event ts (ConnectionClosed peer) =
     [stamp ts, span_fg DarkGray (em_dash @ '' CLOSED   ''), span_raw (''conn from '' @ peer)]"
| "relay_format_event ts (CircuitCreated c) =
     [stamp ts, span_bold Cyan (gear_sign @ '' CREATE   ''), span_raw (''cid='' @ show_u32 c @ '' handshake complete'')]"
| "relay_format_event ts (CircuitExtended c hop) =
     [stamp ts, span_bold Green (arrow_right @ '' EXTEND   ''),
      span_raw (''cid='' @ show_u32 c @ '' '' @ arrow_right @ '' '' @ hop)]"
| "relay_format_event ts (CircuitDestroyed c) =
     [stamp ts, span_bold Red (ballot_x @ '' DESTROY  ''), span_raw (''cid='' @ show_u32 c)]"
| "relay_format_event ts (RelayForward c cmd n) =
     [stamp ts, span_fg White (arrow_right @ '' RELAY'' @ arrow_right @ ''  ''),
      span_raw (''cid='' @ show_u32 c @ '' '' @ show_command cmd @ '' ['' @ format_bytes (word_of_nat n) @ '']'')]"
| "relay_format_event ts (RelayBackward c cmd n) =
     [stamp ts, span_fg Gray (arrow_left @ '' RELAY'' @ arrow_left @ ''  ''),
      span_raw (''cid='' @ show_u32 c @ '' '' @ show_command cmd @ '' ['' @ format_bytes (word_of_nat n) @ '']'')]"
| "relay_format_event ts (StreamOpened c s d) =
     [stamp ts, span_bold Yellow (arrow_right @ '' STREAM   ''),
      span_raw (''cid='' @ show_u32 c @ '' sid='' @ show_u16 s @ '' '' @ arrow_right @ '' '' @ d)]"
| "relay_format_event ts (StreamClosed c s) =
     [stamp ts, span_fg DarkGray (em_dash @ '' END      ''), span_raw (''cid='' @ show_u32 c @ '' sid='' @ show_u16 s)]"
| "relay_format_event ts (StreamData c s n dir) = data_line ts c s n dir"
| "relay_format_event ts (ErrorEvent m) =
     [stamp ts, span_bold Red (ballot_x @ '' ERROR    ''), span_fg Red m]"

definition relay_event_lines :: "relay_metrics \<Rightarrow> filter_mode \<Rightarrow> text_span list list" where
  "relay_event_lines m f =
     List.map_filter id (eb_snapshot (\<lambda>e. if matches_event (ev_kind e) f
       then Some (relay_format_event (format_timestamp (ev_elapsed e)) (ev_kind e)) else None) (rm_events m))"

fun type_badge :: "node_type \<Rightarrow> string \<times> colour" where
  "type_badge Entry = (''ENTRY'', Green)"
| "type_badge Middle = (''MIDDLE'', Yellow)"
| "type_badge Exit = (''EXIT'', Red)"

definition relay_header_spans :: "nat \<Rightarrow> relay_metrics \<Rightarrow> node_type \<Rightarrow> string \<Rightarrow> nat \<Rightarrow> text_span list" where
  "relay_header_spans now m nt bind_addr count =
     (let (type_str, type_color) = type_badge nt in
      [\<lparr>ts_text = '' '' @ type_str @ '' '', ts_style = \<lparr>st_fg = Some Black, st_bg = Some type_color, st_bold = True\<rparr>\<rparr>,
       \<lparr>ts_text = '' '' @ bind_addr @ '' '', ts_style = \<lparr>st_fg = None, st_bg = None, st_bold = True\<rparr>\<rparr>,
       span_raw ('' '' @ box_bar @ '' Up '' @ format_duration (rm_uptime now m) @ '' ''),
       span_raw (box_bar @ '' Conns '' @ show_nat (unat (rm_connections_accepted m)) @ '' ''),
       span_raw (box_bar @ '' Circuits '' @ show_nat count @ '' active / '' @ show_nat (unat (rm_circuits_created m)) @
         '' total / '' @ show_nat (unat (rm_circuits_destroyed m)) @ '' destroyed ''),
       span_raw (box_bar @ '' '' @ arrow_up @ '' '' @ format_bytes (rm_bytes_forwarded m) @ '' '' @ arrow_down @ '' '' @
         format_bytes (rm_bytes_received m))] @
      (if nt = Exit then [span_raw ('' '' @ box_bar @ '' Streams '' @ show_nat (unat (rm_streams_opened m)))] else []))"

definition stats_row :: "string \<Rightarrow> string \<Rightarrow> string \<Rightarrow> string \<Rightarrow> text_span list" where
  "stats_row l1 v1 l2 v2 = [span_fg DarkGray l1, span_raw (left20 v1), span_fg DarkGray l2, span_raw v2]"

definition relay_stats_lines :: "nat \<Rightarrow> relay_metrics \<Rightarrow> node_type \<Rightarrow> text_span list list" where
  "relay_stats_lines now m nt =
     (let created = show_nat (unat (rm_circuits_created m)); destroyed = show_nat (unat (rm_circuits_destroyed m));
          conns = show_nat (unat (rm_connections_accepted m)); fwd = format_bytes (rm_bytes_forwarded m);
          recv = format_bytes (rm_bytes_received m); uptime = format_duration (rm_uptime now m)
      in if nt = Exit
         then [stats_row '' Uptime    '' uptime '' Connections '' conns,
               stats_row '' Created   '' created '' Streams     '' (show_nat (unat (rm_streams_opened m))),
               stats_row '' Destroyed '' destroyed ('' '' @ arrow_up @ '' Forward   '') fwd]
         else [stats_row '' Uptime    '' uptime '' Connections '' conns,
               stats_row '' Created   '' created ('' '' @ arrow_up @ '' Forward   '') fwd,
               stats_row '' Destroyed '' destroyed ('' '' @ arrow_down @ '' Received  '') recv])"

fun circuit_state_cell :: "circuit_state \<Rightarrow> string \<times> colour" where
  "circuit_state_cell Initializing = (''Init'', Yellow)"
| "circuit_state_cell Active = (''Active'', Green)"
| "circuit_state_cell Closing = (''Closing'', Magenta)"
| "circuit_state_cell Closed = (''Closed'', Red)"

definition relay_circuit_rows :: "(u32 \<times> circuit_state) list \<Rightarrow> (text_span list) list" where
  "relay_circuit_rows rows =
     map (\<lambda>(i, st). let (s, c) = circuit_state_cell st in [span_raw (pad5 (unat i)), span_fg c s]) rows"

definition relay_log_title :: "tui_state \<Rightarrow> nat \<Rightarrow> string" where
  "relay_log_title s n =
     (let filter_suffix = (case tu_filter s of FAll \<Rightarrow> '''' | f \<Rightarrow> ''['' @ show_filter f @ ''] '');
          pause_suffix = (if tu_paused s then ''[PAUSED] '' else '''')
      in '' Activity Log ('' @ show_nat n @ '') '' @ pause_suffix @ filter_suffix)"

definition relay_help :: "node_type \<Rightarrow> filter_mode \<Rightarrow> text_span list" where
  "relay_help nt f =
     (let c = snd (type_badge nt) in
      [span_bold c '' p'', span_fg DarkGray '' Pause '', span_bold c '' 1'', span_fg DarkGray '' All '',
       span_bold c '' 2'', span_fg DarkGray '' Circuits '', span_bold c '' 3'', span_fg DarkGray '' Streams '',
       span_bold c '' 4'', span_fg DarkGray '' Errors '', span_bold c '' q'', span_fg DarkGray '' Quit '',
       span_raw ''  '', span_fg DarkGray (''Filter: '' @ show_filter f)])"

text \<open>A frame of the relay's dashboard; the table of circuits only when there are any.\<close>

record relay_frame =
  rf_title :: string
  rf_header :: "text_span list"
  rf_stats :: "text_span list list"
  rf_circuits :: "(string \<times> text_span list list) option"
  rf_log_title :: string
  rf_log :: "text_span list list"
  rf_help :: "text_span list"

definition relay_render_ui ::
  "nat \<Rightarrow> nat \<Rightarrow> relay_metrics \<Rightarrow> (u32 \<times> circuit_state) list \<Rightarrow> text_span list list \<Rightarrow> node_type \<Rightarrow> string
   \<Rightarrow> nat \<Rightarrow> tui_state \<Rightarrow> relay_frame"
where
  "relay_render_ui now height m circuit_rows event_lines nt bind_addr count s =
     (let type_str = (case nt of Entry \<Rightarrow> ''Entry'' | Middle \<Rightarrow> ''Middle'' | Exit \<Rightarrow> ''Exit'')
      in \<lparr>rf_title = '' '' @ type_str @ '' Relay '', rf_header = relay_header_spans now m nt bind_addr count,
          rf_stats = relay_stats_lines now m nt,
          rf_circuits = (if circuit_rows \<noteq> []
            then Some ('' Circuits ('' @ show_nat count @ '') '', relay_circuit_rows circuit_rows) else None),
          rf_log_title = relay_log_title s (length event_lines), rf_log = visible_lines height event_lines,
          rf_help = relay_help nt (tu_filter s)\<rparr>)"

text \<open>One turn of the loop before the key: the state is read and drawn.\<close>

definition relay_frame_of ::
  "nat \<Rightarrow> nat \<Rightarrow> relay_node \<Rightarrow> node_type \<Rightarrow> string \<Rightarrow> tui_state \<Rightarrow> relay_frame"
where
  "relay_frame_of now height n nt bind_addr s =
     (let count = cr_circuit_count (rn_registry n); rows = cr_circuit_summaries (rn_registry n);
          lines = relay_event_lines (xw_rm (rn_world n)) (tu_filter s)
      in relay_render_ui now height (xw_rm (rn_world n)) rows lines nt bind_addr count s)"

section \<open>The client\<close>

record circuit_row =
  row_circuit_id :: string
  row_state :: string
  row_state_color :: colour
  row_streams :: string
  row_age :: string
  row_path :: string

fun client_state_cell :: "client_circuit_state \<Rightarrow> string \<times> colour" where
  "client_state_cell CBuilding = (''Building'', Yellow)"
| "client_state_cell CReady = (''Ready'', Green)"
| "client_state_cell CDirty = (''Dirty'', LightYellow)"
| "client_state_cell CClosing = (''Closing'', Magenta)"
| "client_state_cell CClosed = (''Closed'', Red)"

definition collect_circuit_rows :: "nat \<Rightarrow> pool_state \<Rightarrow> circuit_row list" where
  "collect_circuit_rows now st =
     (let (p, w) = st in
      map (\<lambda>(cid, a). let c = pw_store w ! a; (s, color) = client_state_cell (ci_state c) in
        \<lparr>row_circuit_id = pad5 (unat cid), row_state = s, row_state_color = color,
         row_streams = show_nat (ci_active_stream_count c),
         row_age = (case cp_circuit_age cid now p of None \<Rightarrow> '''' | Some d \<Rightarrow> show_nat (as_secs d) @ ''s''),
         row_path = (case ci_path_display c of None \<Rightarrow> ''unknown'' | Some s \<Rightarrow> s)\<rparr>)
        (cp_circuits p))"

definition client_uptime :: "nat \<Rightarrow> client_metrics \<Rightarrow> nat" where
  "client_uptime now m = now - cm_start_time m"

definition client_header :: "nat \<Rightarrow> client_metrics \<Rightarrow> string \<Rightarrow> circuit_row list \<Rightarrow> string" where
  "client_header now m socks_addr circuits =
     (let ready_count = length (filter (\<lambda>c. row_state c = ''Ready'') circuits); total_count = length circuits
      in '' TOR CLIENT  |  SOCKS5: '' @ socks_addr @ ''  |  Up: '' @ format_duration (client_uptime now m) @
         ''  |  Pool: '' @ show_nat ready_count @ ''/'' @ show_nat total_count @ '' ready  |  Conns: '' @
         show_nat (unat (cm_connections_accepted m)) @ ''  |  '' @ arrow_up @ '' '' @ format_bytes (cm_bytes_sent m) @
         ''  |  '' @ arrow_down @ '' '' @ format_bytes (cm_bytes_received m))"

fun client_format_event :: "string \<Rightarrow> client_event \<Rightarrow> text_span list" where
  "client_format_event ts (CircuitBuilt c path) =
     [stamp ts, span_bold Cyan (gear_sign @ '' CIRCUIT  ''), span_raw (''Built cid='' @ show_u32 c @ '' ['' @ path @ '']'')]"
| "client_format_event ts (CircuitReplaced c d) =
     [stamp ts, span_bold Yellow (gear_sign @ '' REPLACE  ''),
      span_raw (''cid='' @ show_u32 c @ '' '' @ arrow_right @ '' cid='' @ show_u32 d)]"
| "client_format_event ts (CircuitClosed c) =
     [stamp ts, span_bold Red (ballot_x @ '' CLOSED   ''), span_raw (''cid='' @ show_u32 c)]"
| "client_format_event ts (Socks5Accept addr dest) =
     [stamp ts, span_bold Blue (arrow_left @ '' SOCKS5   ''),
      span_raw (show_socket_addr addr @ '' '' @ arrow_right @ '' '' @ dest)]"
| "client_format_event ts (StreamBegin c s dest) =
     [stamp ts, span_bold Yellow (arrow_right @ '' BEGIN    ''),
      span_raw (''cid='' @ show_u32 c @ '' sid='' @ show_u16 s @ '' '' @ arrow_right @ '' '' @ dest)]"
| "client_format_event ts (StreamConnected c s) =
     [stamp ts, span_bold Green (arrow_left @ '' CONNECT  ''), span_raw (''cid='' @ show_u32 c @ '' sid='' @ show_u16 s)]"
| "client_format_event ts (ClientStreamData c s n dir) = data_line ts c s n dir"
| "client_format_event ts (StreamEnd c s) =
     [stamp ts, span_fg DarkGray (em_dash @ '' END      ''), span_raw (''cid='' @ show_u32 c @ '' sid='' @ show_u16 s)]"
| "client_format_event ts (ClientError m) =
     [stamp ts, span_bold Red (ballot_x @ '' ERROR    ''), span_fg Red m]"

definition client_event_lines :: "client_metrics \<Rightarrow> text_span list list" where
  "client_event_lines m =
     eb_snapshot (\<lambda>e. client_format_event (format_timestamp (ev_elapsed e)) (ev_kind e)) (cm_events m)"

text \<open>The two keys that leave the dashboards without a filter.\<close>

fun quit_key :: "tui_key \<Rightarrow> bool" where
  "quit_key (TChar c control) = (c = CHR ''q'' \<or> c = CHR ''Q'' \<or> (c = CHR ''c'' \<and> control))"
| "quit_key TOther = False"

text \<open>A frame: the header, the rows of the table and the end of the log under its title.\<close>

record client_frame =
  cf_header :: string
  cf_rows :: "text_span list list"
  cf_log_title :: string
  cf_log :: "text_span list list"

definition client_render_ui :: "nat \<Rightarrow> string \<Rightarrow> circuit_row list \<Rightarrow> text_span list list \<Rightarrow> client_frame" where
  "client_render_ui height header_text circuit_rows event_lines =
     \<lparr>cf_header = header_text,
      cf_rows = map (\<lambda>r. [span_raw (row_circuit_id r), span_fg (row_state_color r) (row_state r), span_raw (row_streams r),
        span_raw (row_age r), span_raw (row_path r)]) circuit_rows,
      cf_log_title = '' Activity Log ('' @ show_nat (length event_lines) @ '' events) '',
      cf_log = visible_lines height event_lines\<rparr>"

definition client_frame_of :: "nat \<Rightarrow> nat \<Rightarrow> pool_state \<Rightarrow> string \<Rightarrow> client_frame" where
  "client_frame_of now height st socks_addr =
     (let rows = collect_circuit_rows now st; lines = client_event_lines (pw_metrics (snd st));
          header_text = client_header now (pw_metrics (snd st)) socks_addr rows
      in client_render_ui height header_text rows lines)"

section \<open>The directory\<close>

text \<open>\<open>id.get(..max_len)\<close> is None inside a character, and then the whole id is shown.\<close>

definition char_boundary :: "nat \<Rightarrow> string \<Rightarrow> bool" where
  "char_boundary i s = (i = length s \<or> (i < length s \<and> \<not> is_cont (of_char (s ! i))))"

definition truncate_id :: "string \<Rightarrow> nat \<Rightarrow> string" where
  "truncate_id s max_len =
     (if length s \<le> max_len then s
      else (if char_boundary max_len s then take max_len s else s) @ ''..'')"

record node_row =
  nr_node_id :: string
  nr_node_type :: string
  nr_address :: string
  nr_bandwidth :: string

definition dir_node_rows :: "node_registry \<Rightarrow> node_row list" where
  "dir_node_rows reg =
     map (\<lambda>n. \<lparr>nr_node_id = truncate_id (node_id n) 12, nr_node_type = show_node_type (node_type n),
        nr_address = show_socket_addr (address n), nr_bandwidth = format_bytes (bandwidth n)\<rparr>) (get_all_nodes reg)"

definition dir_header :: "nat \<Rightarrow> dir_metrics \<Rightarrow> string \<Rightarrow> bool \<Rightarrow> registry_stats \<Rightarrow> string" where
  "dir_header now m bind_addr ready s =
     (let ready_str = (if ready then ''YES'' else ''NO'')
      in '' DISCOVERY  |  '' @ bind_addr @ ''  |  Up: '' @ format_duration (dm_uptime now m) @ ''  |  Ready: '' @ ready_str @
         ''  |  Nodes: '' @ show_nat (total_nodes s) @ '' (E:'' @ show_nat (entry_count s) @ '' M:'' @
         show_nat (middle_count s) @ '' X:'' @ show_nat (exit_count s) @ '')  |  Regs: '' @
         show_nat (unat (dm_registrations m)) @ ''  HBs: '' @ show_nat (unat (dm_heartbeats m)) @ ''  Paths: '' @
         show_nat (unat (dm_path_requests m)) @ ''  Cleaned: '' @ show_nat (unat (dm_stale_cleaned m)))"

fun dir_format_event :: "string \<Rightarrow> dir_event \<Rightarrow> text_span list" where
  "dir_format_event ts (NodeRegistered i t a) =
     [stamp ts, span_bold Green ''+ REGISTER '', span_raw (t @ '' '' @ i @ '' @ '' @ a)]"
| "dir_format_event ts (NodeRemoved i) = [stamp ts, span_bold Red ''- REMOVE   '', span_raw i]"
| "dir_format_event ts (HeartbeatReceived i) = [stamp ts, span_fg Cyan (heart_sign @ '' HEARTBEAT ''), span_raw i]"
| "dir_format_event ts PathRequested =
     [stamp ts, span_bold Yellow (arrow_right @ '' PATH      ''), span_raw ''random 3-hop path requested'']"
| "dir_format_event ts (StaleCleanup n) =
     [stamp ts, span_fg DarkGray (ballot_x @ '' CLEANUP   ''), span_raw (show_nat n @ '' stale node(s) removed'')]"
| "dir_format_event ts StatsQueried = [stamp ts, span_fg Blue (info_sign @ '' STATS     ''), span_raw ''stats queried'']"
| "dir_format_event ts (HealthCheck ready) =
     [stamp ts, span_fg Blue (info_sign @ '' HEALTH    ''), span_raw (''check: '' @ (if ready then ''ready'' else ''NOT ready''))]"
| "dir_format_event ts (DirError m) = [stamp ts, span_bold Red (ballot_x @ '' ERROR     ''), span_fg Red m]"

definition dir_event_lines :: "dir_metrics \<Rightarrow> text_span list list" where
  "dir_event_lines m = eb_snapshot (\<lambda>e. dir_format_event (format_timestamp (ev_elapsed e)) (ev_kind e)) (dm_events m)"

text \<open>The colour of a row compares with names that \<open>Display\<close> of a node type never gives.\<close>

definition row_type_color :: "string \<Rightarrow> colour" where
  "row_type_color s = (if s = ''Entry'' then Green else if s = ''Middle'' then Yellow else if s = ''Exit'' then Red else White)"

record dir_frame =
  df_title :: string
  df_header :: string
  df_rows :: "text_span list list"
  df_table_title :: string
  df_log_title :: string
  df_log :: "text_span list list"

definition dir_render_ui ::
  "nat \<Rightarrow> string \<Rightarrow> node_row list \<Rightarrow> text_span list list \<Rightarrow> bool \<Rightarrow> dir_frame"
where
  "dir_render_ui height header_text node_rows event_lines ready =
     \<lparr>df_title = '' Discovery Dashboard ['' @ (if ready then check_sign else ballot_x) @ ''] '', df_header = header_text,
      df_rows = map (\<lambda>n. [span_raw (nr_node_id n), span_fg (row_type_color (nr_node_type n)) (nr_node_type n),
        span_raw (nr_address n), span_raw (nr_bandwidth n)]) node_rows,
      df_table_title = '' Node Registry ('' @ show_nat (length node_rows) @ '' nodes) '',
      df_log_title = '' Activity Log ('' @ show_nat (length event_lines) @ '' events) '',
      df_log = visible_lines height event_lines\<rparr>"

definition dir_frame_of :: "nat \<Rightarrow> nat \<Rightarrow> dir_metrics \<Rightarrow> node_registry \<Rightarrow> string \<Rightarrow> dir_frame" where
  "dir_frame_of now height m reg bind_addr =
     (let rows = dir_node_rows reg; ready = is_ready reg; stats = get_stats now reg
      in dir_render_ui height (dir_header now m bind_addr ready stats) rows (dir_event_lines m) ready)"

section \<open>Properties\<close>

lemma rows_are_white: "n \<in> set (dir_node_rows reg) \<Longrightarrow> row_type_color (nr_node_type n) = White"
  by (auto simp: dir_node_rows_def row_type_color_def elim!: show_node_type.elims)

text \<open>The column of ids tells the circuits apart.\<close>

lemma parse_zeros: "parse_digits 10 mx 0 (replicate k CHR ''0'' @ s) = parse_digits 10 mx 0 s"
  by (induction k) (simp_all add: to_digit_def)

lemma pad5_inject: "pad5 m = pad5 n \<Longrightarrow> m = n"
proof -
  assume eq: "pad5 m = pad5 n"
  have "parse_digits 10 (max m n) 0 (pad5 k) = Some k" if "k \<le> max m n" for k
    using parse_show_nat [OF that] by (simp add: pad5_def Let_def parse_zeros)
  from this [of m] this [of n] have "Some m = Some n" unfolding eq by simp
  then show ?thesis by simp
qed

lemma client_rows:
  assumes "hm_wf (cp_circuits p)"
  shows "length (collect_circuit_rows now (p, w)) = cp_circuit_count p \<and>
    distinct (map row_circuit_id (collect_circuit_rows now (p, w))) \<and>
    length (filter (\<lambda>r. row_state r = ''Ready'') (collect_circuit_rows now (p, w))) =
      length (filter (\<lambda>x. ci_state (pw_store w ! snd x) = CReady) (cp_circuits p))"
proof -
  have ready: "fst (client_state_cell s) = ''Ready'' \<longleftrightarrow> s = CReady" for s by (cases s) simp_all
  have "map row_circuit_id (collect_circuit_rows now (p, w)) = map (\<lambda>i. pad5 (unat i)) (map fst (cp_circuits p))"
    by (simp add: collect_circuit_rows_def Let_def comp_def split_beta)
  moreover have "inj_on (\<lambda>i :: u32. pad5 (unat i)) A" for A
    by (rule inj_onI) (drule pad5_inject, simp add: unsigned_word_eqI)
  ultimately have "distinct (map row_circuit_id (collect_circuit_rows now (p, w)))"
    using assms by (simp only: distinct_map hm_wf_def)
  moreover have "filter (\<lambda>r. row_state r = ''Ready'') (collect_circuit_rows now (p, w)) =
      collect_circuit_rows now (p\<lparr>cp_circuits := filter (\<lambda>x. ci_state (pw_store w ! snd x) = CReady) (cp_circuits p)\<rparr>, w)"
    by (simp add: collect_circuit_rows_def Let_def filter_map comp_def split_beta ready cp_circuit_age_def)
  ultimately show ?thesis by (simp add: collect_circuit_rows_def cp_circuit_count_def)
qed

text \<open>The filter the keys have chosen, and whether they left the dashboard paused.\<close>

fun chosen_filter :: "tui_key \<Rightarrow> filter_mode \<Rightarrow> filter_mode" where
  "chosen_filter (TChar c control) f = (if c = CHR ''1'' then FAll else if c = CHR ''2'' then FCircuits
     else if c = CHR ''3'' then FStreams else if c = CHR ''4'' then FErrors else f)"
| "chosen_filter TOther f = f"

definition pause_key :: "tui_key \<Rightarrow> bool" where
  "pause_key k = (\<exists>control. k = TChar CHR ''p'' control \<or> k = TChar CHR ''P'' control)"

fun relay_tui_keys :: "tui_key list \<Rightarrow> tui_state \<Rightarrow> tui_state option" where
  "relay_tui_keys [] s = Some s"
| "relay_tui_keys (k # ks) s = (case relay_tui_key k s of None \<Rightarrow> None | Some s \<Rightarrow> relay_tui_keys ks s)"

lemma relay_tui_key_cases:
  "relay_tui_key k s = (if quit_key k then None else
     Some \<lparr>tu_paused = (tu_paused s \<noteq> pause_key k), tu_filter = chosen_filter k (tu_filter s)\<rparr>)"
  by (cases k; cases s) (auto simp: pause_key_def)

lemma relay_tui_keys_state:
  "relay_tui_keys ks s = (if \<exists>k \<in> set ks. quit_key k then None else
     Some \<lparr>tu_paused = (tu_paused s \<noteq> odd (length (filter pause_key ks))), tu_filter = fold chosen_filter ks (tu_filter s)\<rparr>)"
  by (induction ks arbitrary: s) (auto simp: relay_tui_key_cases)

lemma relay_event_lines_filter:
  "relay_event_lines m f = map (\<lambda>e. relay_format_event (format_timestamp (ev_elapsed e)) (ev_kind e))
     (filter (\<lambda>e. matches_event (ev_kind e) f) (eb_events (rm_events m)))"
proof -
  have "List.map_filter id (map (\<lambda>e. if P e then Some (g e) else None) es) = map g (filter P es)"
    for P :: "relay_event tui_event \<Rightarrow> bool" and g and es
    by (induction es) (simp_all add: List.map_filter_simps)
  then show ?thesis by (simp add: relay_event_lines_def eb_snapshot_def)
qed



end
