(* ===== verification/Web_Dashboard.thy ===== *)
theory Web_Dashboard
  imports Dir_Service Relay_Node "HOL-Library.List_Lexorder" "HOL-Library.Char_ord" "HOL-Library.Sublist" "HOL-Library.Multiset"
begin

text \<open>
  The dashboard of the directory in the browser: the service's side
  (\<open>discovery/src/api/rest.rs\<close>) and the page's (\<open>web-ui/src/app.rs\<close>), with the
  state of the page, its polls and its clicks. Times are nanoseconds, whose order and whole
  seconds \<open>as_secs_f64\<close> keeps; JSON carries the fields by name, a node type as the name of
  its variant and an address as its text. The embedded files are a parameter.
\<close>

section \<open>The service\<close>

record metrics_summary =
  su_registrations :: u64
  su_removals :: u64
  su_heartbeats :: u64
  su_path_requests :: u64
  su_stale_cleaned :: u64
  su_uptime_secs :: u64

record event_entry =
  en_elapsed :: nat
  en_event_type :: string
  en_label :: string
  en_detail :: string

record node_with_metrics =
  nm_descriptor :: node_descriptor
  nm_metrics :: "node_metrics option"

record dashboard_response =
  dr_nodes :: "node_with_metrics list"
  dr_stats :: registry_stats
  dr_metrics :: metrics_summary
  dr_ready :: bool
  dr_events :: "event_entry list"

definition event_to_entry :: "dir_event tui_event \<Rightarrow> event_entry" where
  "event_to_entry e =
     (let (t, l, d) = (case ev_kind e of
         NodeRegistered i ty a \<Rightarrow> (''register'', ''+ REGISTER'', ty @ '' '' @ i @ '' @ '' @ a)
       | NodeRemoved i \<Rightarrow> (''remove'', ''- REMOVE'', i)
       | HeartbeatReceived i \<Rightarrow> (''heartbeat'', ''heart HEARTBEAT'', i)
       | PathRequested \<Rightarrow> (''path'', ''-> PATH'', ''random 3-hop path requested'')
       | StaleCleanup n \<Rightarrow> (''cleanup'', ''x CLEANUP'', show_nat n @ '' stale node(s) removed'')
       | StatsQueried \<Rightarrow> (''stats'', ''i STATS'', ''stats queried'')
       | HealthCheck ready \<Rightarrow> (''health'', ''i HEALTH'', if ready then ''check: ready'' else ''check: NOT ready'')
       | DirError m \<Rightarrow> (''error'', ''x ERROR'', m))
      in \<lparr>en_elapsed = ev_elapsed e, en_event_type = t, en_label = l, en_detail = d\<rparr>)"

definition dashboard_handler :: "nat \<Rightarrow> dir_state \<Rightarrow> dashboard_response" where
  "dashboard_handler now st =
     (let ns = map (\<lambda>e. \<lparr>nm_descriptor = descriptor e, nm_metrics = ne_metrics e\<rparr>) (get_all_entries (ds_registry st));
          stats = get_stats now (ds_registry st); ready = is_ready (ds_registry st);
          (summary, evts) = (case ds_metrics st of
              Some m \<Rightarrow>
                (\<lparr>su_registrations = dm_registrations m, su_removals = dm_removals m, su_heartbeats = dm_heartbeats m,
                  su_path_requests = dm_path_requests m, su_stale_cleaned = dm_stale_cleaned m,
                  su_uptime_secs = word_of_nat (as_secs (dm_uptime now m))\<rparr>,
                 take 50 (rev (eb_snapshot event_to_entry (dm_events m))))
            | None \<Rightarrow>
                (\<lparr>su_registrations = 0, su_removals = 0, su_heartbeats = 0, su_path_requests = 0, su_stale_cleaned = 0,
                  su_uptime_secs = 0\<rparr>, []))
      in \<lparr>dr_nodes = ns, dr_stats = stats, dr_metrics = summary, dr_ready = ready, dr_events = evts\<rparr>)"

text \<open>\<open>rsplit('.').next()\<close>: what follows the last dot, all of it when there is none.\<close>

definition after_last_dot :: "string \<Rightarrow> string" where
  "after_last_dot s = rev (takeWhile (\<lambda>c. c \<noteq> CHR ''.'') (rev s))"

definition mime_for_path :: "string \<Rightarrow> string" where
  "mime_for_path path =
     (let e = after_last_dot path in
      if e = ''html'' then ''text/html; charset=utf-8''
      else if e = ''js'' \<or> e = ''mjs'' then ''application/javascript''
      else if e = ''wasm'' then ''application/wasm''
      else if e = ''css'' then ''text/css''
      else if e = ''png'' then ''image/png''
      else if e = ''ico'' then ''image/x-icon''
      else if e = ''svg'' then ''image/svg+xml''
      else ''application/octet-stream'')"

datatype asset_response = AssetOk string bytes | AssetNotFound

definition serve_asset :: "(string \<Rightarrow> bytes option) \<Rightarrow> string \<Rightarrow> asset_response" where
  "serve_asset assets uri_path =
     (let path = dropWhile (\<lambda>c. c = CHR ''/'') uri_path; path = (if path = '''' then ''index.html'' else path)
      in case assets path of Some content \<Rightarrow> AssetOk (mime_for_path path) content | None \<Rightarrow> AssetNotFound)"

section \<open>The data of the page\<close>

record node_info =
  ni_node_id :: string
  ni_node_type :: string
  ni_address :: string
  ni_bandwidth :: u64
  ni_metrics :: "node_metrics option"

record ui_stats =
  us_total_nodes :: nat
  us_entry_count :: nat
  us_middle_count :: nat
  us_exit_count :: nat

record dashboard_data =
  da_nodes :: "node_info list"
  da_stats :: ui_stats
  da_metrics :: metrics_summary
  da_ready :: bool
  da_events :: "event_entry list"

fun variant_name :: "node_type \<Rightarrow> string" where
  "variant_name Entry = ''Entry''"
| "variant_name Middle = ''Middle''"
| "variant_name Exit = ''Exit''"

text \<open>What \<open>resp.json()\<close> makes of the response.\<close>

definition node_info_of :: "node_with_metrics \<Rightarrow> node_info" where
  "node_info_of n = \<lparr>ni_node_id = node_id (nm_descriptor n), ni_node_type = variant_name (node_type (nm_descriptor n)),
     ni_address = show_socket_addr (address (nm_descriptor n)), ni_bandwidth = bandwidth (nm_descriptor n),
     ni_metrics = nm_metrics n\<rparr>"

definition dashboard_data_of :: "dashboard_response \<Rightarrow> dashboard_data" where
  "dashboard_data_of r = \<lparr>da_nodes = map node_info_of (dr_nodes r),
     da_stats = \<lparr>us_total_nodes = total_nodes (dr_stats r), us_entry_count = entry_count (dr_stats r),
       us_middle_count = middle_count (dr_stats r), us_exit_count = exit_count (dr_stats r)\<rparr>,
     da_metrics = dr_metrics r, da_ready = dr_ready r, da_events = dr_events r\<rparr>"

datatype tab_kind = TabAll | TabEntry | TabMiddle | TabExit

datatype sort_col = ColId | ColType | ColAddr

section \<open>Formatting\<close>

definition format_bandwidth :: "u64 \<Rightarrow> string" where
  "format_bandwidth bps =
     (let KB = 1024; MB = 1024 * KB; GB = 1024 * MB in
      if GB \<le> bps then show_tenths (unat bps) (unat GB) @ '' GB/s''
      else if MB \<le> bps then show_tenths (unat bps) (unat MB) @ '' MB/s''
      else if KB \<le> bps then show_tenths (unat bps) (unat KB) @ '' KB/s''
      else show_nat (unat bps) @ '' B/s'')"

definition web_format_bytes :: "u64 \<Rightarrow> string" where
  "web_format_bytes bs =
     (let KB = 1024; MB = 1024 * KB; GB = 1024 * MB in
      if GB \<le> bs then show_tenths (unat bs) (unat GB) @ '' GB''
      else if MB \<le> bs then show_tenths (unat bs) (unat MB) @ '' MB''
      else if KB \<le> bs then show_tenths (unat bs) (unat KB) @ '' KB''
      else show_nat (unat bs) @ '' B'')"

definition format_uptime :: "u64 \<Rightarrow> string" where
  "format_uptime s =
     (let t = unat s; h = t div 3600; m = (t mod 3600) div 60; s = t mod 60 in pad2 h @ '':'' @ pad2 m @ '':'' @ pad2 s)"

definition format_elapsed :: "nat \<Rightarrow> string" where
  "format_elapsed ns =
     (let t = as_secs ns; h = t div 3600; m = (t mod 3600) div 60; s = t mod 60
      in ''+'' @ show_nat h @ '':'' @ pad2 m @ '':'' @ pad2 s)"

text \<open>\<open>chars().take(n)\<close>: whole characters, each a byte and the continuation bytes after it.\<close>

fun take_chars :: "nat \<Rightarrow> string \<Rightarrow> string" where
  "take_chars 0 s = []"
| "take_chars (Suc n) [] = []"
| "take_chars (Suc n) (c # s) =
     c # takeWhile (\<lambda>d. is_cont (of_char d)) s @ take_chars n (dropWhile (\<lambda>d. is_cont (of_char d)) s)"

section \<open>Tables\<close>

definition filter_nodes :: "node_info list \<Rightarrow> tab_kind \<Rightarrow> node_info list" where
  "filter_nodes ns tab = filter (\<lambda>n. case tab of TabAll \<Rightarrow> True | TabEntry \<Rightarrow> ni_node_type n = ''Entry''
     | TabMiddle \<Rightarrow> ni_node_type n = ''Middle'' | TabExit \<Rightarrow> ni_node_type n = ''Exit'') ns"

definition sort_text :: "sort_col \<Rightarrow> node_info \<Rightarrow> string" where
  "sort_text col = (case col of ColId \<Rightarrow> ni_node_id | ColType \<Rightarrow> ni_node_type | ColAddr \<Rightarrow> ni_address)"

text \<open>\<open>sort_by\<close> is stable, downwards too.\<close>

definition sort_nodes :: "node_info list \<Rightarrow> sort_col \<Rightarrow> bool \<Rightarrow> node_info list" where
  "sort_nodes ns col asc =
     (if asc then sort_key (sort_text col) ns else rev (sort_key (sort_text col) (rev ns)))"

record node_row_view =
  nv_short_id :: string
  nv_title :: string
  nv_type_class :: string
  nv_type :: string
  nv_address :: string
  nv_selected :: bool

definition node_row_view :: "string option \<Rightarrow> node_info \<Rightarrow> node_row_view" where
  "node_row_view sel n =
     \<lparr>nv_short_id = take_chars 12 (ni_node_id n) @ ''...'', nv_title = ni_node_id n,
      nv_type_class = ''type-badge type-'' @ (if ni_node_type n = ''Entry'' then ''entry''
        else if ni_node_type n = ''Middle'' then ''middle'' else if ni_node_type n = ''Exit'' then ''exit'' else ''''),
      nv_type = ni_node_type n, nv_address = ni_address n, nv_selected = (sel = Some (ni_node_id n))\<rparr>"

section \<open>Relay events\<close>

text \<open>\<open>str::find\<close> and \<open>str::contains\<close>.\<close>

fun str_find :: "string \<Rightarrow> string \<Rightarrow> nat option" where
  "str_find p [] = (if p = [] then Some 0 else None)"
| "str_find p (c # s) = (if prefix p (c # s) then Some 0 else map_option Suc (str_find p s))"

definition str_contains :: "string \<Rightarrow> string \<Rightarrow> bool" where
  "str_contains p s = (str_find p s \<noteq> None)"

definition relay_event_color :: "string \<Rightarrow> string" where
  "relay_event_color ev =
     (if str_contains (arrow_left @ '' ACCEPT'') ev then ''rel-accept''
      else if str_contains (gear_sign @ '' CREATE'') ev then ''rel-create''
      else if str_contains (arrow_right @ '' EXTEND'') ev then ''rel-extend''
      else if str_contains (ballot_x @ '' DESTROY'') ev then ''rel-destroy''
      else if str_contains (ballot_x @ '' ERROR'') ev then ''rel-error''
      else if str_contains (arrow_right @ '' STREAM'') ev then ''rel-stream''
      else if str_contains (em_dash @ '' END'') ev then ''rel-end''
      else if str_contains (em_dash @ '' CLOSED'') ev then ''rel-end''
      else if str_contains (arrow_both @ '' DATA'') ev then ''rel-data''
      else if str_contains (arrow_right @ '' RELAY'' @ arrow_right) ev then ''rel-fwd''
      else if str_contains (arrow_left @ '' RELAY'' @ arrow_left) ev then ''rel-bwd''
      else ''rel-default'')"

definition split_relay_event :: "string \<Rightarrow> string \<times> string \<times> string" where
  "split_relay_event ev =
     (case str_find ''] '' ev of
        None \<Rightarrow> ([], ev, [])
      | Some pos \<Rightarrow>
          let ts = take (pos + 1) ev; rest = trim_start (drop (pos + 2) ev) in
          (case str_find ''    '' rest of
             Some p \<Rightarrow> (ts, take p rest, trim_start (drop p rest))
           | None \<Rightarrow> (ts, rest, [])))"

section \<open>The page\<close>

record page =
  pg_data :: "dashboard_data option"
  pg_tab :: tab_kind
  pg_sort_col :: sort_col
  pg_sort_asc :: bool
  pg_selected :: "string option"
  pg_events :: "event_entry list"
  pg_latest :: nat
  pg_countdown :: nat

definition page_new :: page where
  "page_new = \<lparr>pg_data = None, pg_tab = TabAll, pg_sort_col = ColId, pg_sort_asc = True, pg_selected = None,
     pg_events = [], pg_latest = 0, pg_countdown = 20\<rparr>"

text \<open>A poll; None is a request that failed.\<close>

definition page_poll :: "dashboard_data option \<Rightarrow> page \<Rightarrow> page" where
  "page_poll d pg =
     (case d of None \<Rightarrow> pg | Some d \<Rightarrow>
        let threshold = pg_latest pg;
            fresh = sort_key en_elapsed (filter (\<lambda>e. threshold < en_elapsed e) (da_events d));
            new_threshold = fold (\<lambda>e _. en_elapsed e) fresh threshold;
            evs = take 200 (pg_events pg @ fresh)
        in pg\<lparr>pg_latest := new_threshold, pg_events := evs, pg_data := Some d\<rparr>)"

text \<open>Each second of the pause after a poll, from 20 down to 1, and its bar of full and light blocks.\<close>

definition page_tick :: "nat \<Rightarrow> page \<Rightarrow> page" where
  "page_tick i pg = pg\<lparr>pg_countdown := i\<rparr>"

definition countdown_bar :: "page \<Rightarrow> string" where
  "countdown_bar pg = concat (replicate (pg_countdown pg) [CHR 0xE2, CHR 0x96, CHR 0x88]) @
     concat (replicate (20 - pg_countdown pg) [CHR 0xE2, CHR 0x96, CHR 0x91])"

definition page_sort :: "sort_col \<Rightarrow> page \<Rightarrow> page" where
  "page_sort col pg =
     (if pg_sort_col pg = col then pg\<lparr>pg_sort_asc := \<not> pg_sort_asc pg\<rparr>
      else pg\<lparr>pg_sort_col := col, pg_sort_asc := True\<rparr>)"

definition page_tab :: "tab_kind \<Rightarrow> page \<Rightarrow> page" where
  "page_tab tab pg = pg\<lparr>pg_tab := tab, pg_selected := None\<rparr>"

definition page_click :: "string \<Rightarrow> page \<Rightarrow> page" where
  "page_click i pg = pg\<lparr>pg_selected := (if pg_selected pg = Some i then None else Some i)\<rparr>"

definition page_table :: "page \<Rightarrow> node_info list" where
  "page_table pg = (case pg_data pg of None \<Rightarrow> []
     | Some d \<Rightarrow> sort_nodes (filter_nodes (da_nodes d) (pg_tab pg)) (pg_sort_col pg) (pg_sort_asc pg))"

text \<open>
  The rest of what the page says: the figures of its head, the tab that is marked, the arrow
  at the column it is sorted by, and the line in place of an empty table.
\<close>

definition page_head :: "page \<Rightarrow> (string \<times> (nat \<times> nat \<times> nat \<times> nat) \<times> u64) option" where
  "page_head pg = map_option (\<lambda>d.
     (format_uptime (su_uptime_secs (da_metrics d)),
      (us_total_nodes (da_stats d), us_entry_count (da_stats d), us_middle_count (da_stats d), us_exit_count (da_stats d)),
      su_path_requests (da_metrics d))) (pg_data pg)"

definition sort_mark :: "sort_col \<Rightarrow> page \<Rightarrow> string" where
  "sort_mark col pg =
     (if pg_sort_col pg = col
      then (if pg_sort_asc pg then '' '' @ [CHR 0xE2, CHR 0x96, CHR 0xB2] else '' '' @ [CHR 0xE2, CHR 0x96, CHR 0xBC])
      else '''')"

definition page_columns :: "page \<Rightarrow> string list" where
  "page_columns pg = [''ID'' @ sort_mark ColId pg, ''Type'' @ sort_mark ColType pg, ''Addr'' @ sort_mark ColAddr pg]"

definition page_tabs :: "page \<Rightarrow> (string \<times> bool) list" where
  "page_tabs pg = [(''All Nodes'', pg_tab pg = TabAll), (''Entry'', pg_tab pg = TabEntry),
     (''Middle'', pg_tab pg = TabMiddle), (''Exit'', pg_tab pg = TabExit)]"

definition page_empty :: "page \<Rightarrow> string option" where
  "page_empty pg =
     (case pg_data pg of
        None \<Rightarrow> Some ''Connecting to discovery service...''
      | Some d \<Rightarrow> if page_table pg = [] then Some ''No nodes matching filter'' else None)"

text \<open>The panel of the selected node: its figures, and its events from the last to the first.\<close>

record node_panel =
  np_node :: "string \<times> string \<times> string"
  np_figures :: "string list"
  np_events :: "(string \<times> string \<times> string \<times> string) list"

definition page_panel :: "page \<Rightarrow> node_panel option" where
  "page_panel pg =
     (case (pg_selected pg, pg_data pg) of
        (Some i, Some d) \<Rightarrow>
          (case List.find (\<lambda>n. ni_node_id n = i) (da_nodes d) of
             None \<Rightarrow> None
           | Some n \<Rightarrow>
               let m = ni_metrics n; t = (\<lambda>f. case m of None \<Rightarrow> '''' | Some m \<Rightarrow> f m);
                   relay_events = (case m of None \<Rightarrow> [] | Some m \<Rightarrow> event_snapshot m)
               in Some \<lparr>np_node = (take_chars 12 (ni_node_id n) @ ''...'', ni_node_type n, ni_address n),
                    np_figures = [format_bandwidth (ni_bandwidth n), t (\<lambda>m. format_uptime (uptime_secs m)),
                      t (\<lambda>m. show_nat (unat (connections_accepted m))), t (\<lambda>m. show_nat (unat (streams_opened m))),
                      t (\<lambda>m. show_nat (unat (circuits_created m))), t (\<lambda>m. show_nat (unat (circuits_destroyed m))),
                      t (\<lambda>m. web_format_bytes (bytes_forwarded m)), t (\<lambda>m. web_format_bytes (bytes_received m))],
                    np_events = map (\<lambda>ev. (relay_event_color ev, split_relay_event ev)) (take 200 (rev relay_events))\<rparr>)
      | _ \<Rightarrow> None)"

text \<open>The activity log: time, class of the label, label and detail, the last first.\<close>

definition event_row :: "event_entry \<Rightarrow> string \<times> string \<times> string \<times> string" where
  "event_row e = (format_elapsed (en_elapsed e), ''log-label ev-'' @ en_event_type e, en_label e, en_detail e)"

definition page_log :: "page \<Rightarrow> (string \<times> string \<times> string \<times> string) list" where
  "page_log pg = map event_row (rev (pg_events pg))"

section \<open>The log of a page that is left open\<close>

text \<open>What happens on the page; a poll that succeeds sees a service at a time.\<close>

datatype page_action =
    APoll nat dir_state
  | AFail
  | ATick nat
  | ASort sort_col
  | ATab tab_kind
  | AClick string

fun page_do :: "page_action \<Rightarrow> page \<Rightarrow> page" where
  "page_do (APoll now st) pg = page_poll (Some (dashboard_data_of (dashboard_handler now st))) pg"
| "page_do AFail pg = page_poll None pg"
| "page_do (ATick i) pg = page_tick i pg"
| "page_do (ASort col) pg = page_sort col pg"
| "page_do (ATab tab) pg = page_tab tab pg"
| "page_do (AClick i) pg = page_click i pg"

text \<open>
  The polls see a service whose events are \<open>hist\<close>: at each, \<open>k\<close> of them have
  happened, the buffer holds the newest 200 of those, and at most fifty are new.
\<close>

fun polls_see :: "dir_event tui_event list \<Rightarrow> nat \<Rightarrow> nat list \<Rightarrow> page_action list \<Rightarrow> bool" where
  "polls_see hist n ks [] = (ks = [])"
| "polls_see hist n (k # ks) (APoll now st # acts) =
     (n \<le> k \<and> k \<le> n + 50 \<and> k \<le> length hist \<and>
      (case ds_metrics st of None \<Rightarrow> False | Some m \<Rightarrow> eb_events (dm_events m) = drop (k - 200) (take k hist)) \<and>
      polls_see hist k ks acts)"
| "polls_see hist n [] (APoll now st # acts) = False"
| "polls_see hist n ks (_ # acts) = polls_see hist n ks acts"

lemma event_to_entry_elapsed [simp]: "en_elapsed (event_to_entry e) = ev_elapsed e"
  by (simp add: event_to_entry_def split: prod.splits)

lemma page_ops_log [simp]:
  "pg_events (page_sort col pg) = pg_events pg" "pg_latest (page_sort col pg) = pg_latest pg"
  "pg_events (page_tab tab pg) = pg_events pg" "pg_latest (page_tab tab pg) = pg_latest pg"
  "pg_events (page_click i pg) = pg_events pg" "pg_latest (page_click i pg) = pg_latest pg"
  "pg_events (page_tick k pg) = pg_events pg" "pg_latest (page_tick k pg) = pg_latest pg"
  "page_poll None pg = pg"
  by (simp_all add: page_tick_def page_sort_def page_tab_def page_click_def page_poll_def)

text \<open>The time of the last of the first \<open>k\<close> events.\<close>

definition last_time :: "dir_event tui_event list \<Rightarrow> nat \<Rightarrow> nat" where
  "last_time hist k = (if k = 0 then 0 else ev_elapsed (hist ! (k - 1)))"

lemma rev_filter_key: "sorted_wrt (<) (map f xs) \<Longrightarrow> rev (filter (\<lambda>x. (c :: nat) = f x) xs) = filter (\<lambda>x. c = f x) xs"
proof (induction xs)
  case (Cons x xs)
  then have "filter (\<lambda>y. f x = f y) xs = []" by (auto simp: filter_empty_conv)
  with Cons show ?case by auto
qed simp

lemma sort_key_rev_sorted: "sorted_wrt (<) (map f xs) \<Longrightarrow> sort_key (f :: _ \<Rightarrow> nat) (rev xs) = xs"
  by (rule properties_for_sort_key) (simp_all add: rev_filter [symmetric] rev_filter_key strict_sorted_imp_sorted)

lemma fold_last: "fold (\<lambda>e _. f e) xs t = (if xs = [] then t else f (last xs))"
  by (induction xs arbitrary: t) auto

lemma poll_view:
  assumes "ds_metrics st = Some m" "eb_events (dm_events m) = drop (k - 200) (take k hist)" "k \<le> length hist"
  shows "da_events (dashboard_data_of (dashboard_handler now st)) =
    rev (map event_to_entry (drop (k - 50) (take k hist)))"
proof -
  have "take 50 (rev (drop (k - 200) (take k hist))) = rev (drop (k - 50) (take k hist))"
  proof -
    have "k - (k - 200) - 50 + (k - 200) = k - 50" by linarith
    then show ?thesis using assms(3) by (simp add: take_rev)
  qed
  then show ?thesis
    by (simp add: dashboard_data_of_def dashboard_handler_def assms(1,2) eb_snapshot_def rev_map take_map Let_def)
qed

text \<open>A poll that is not too late adds exactly the events that are new.\<close>

lemma poll_fresh:
  assumes "sorted_wrt (<) (map ev_elapsed hist)" "\<forall>e \<in> set hist. 0 < ev_elapsed e"
    and "n \<le> k" "k \<le> n + 50" "k \<le> length hist"
  shows "sort_key en_elapsed (filter (\<lambda>e. last_time hist n < en_elapsed e)
    (rev (map event_to_entry (drop (k - 50) (take k hist))))) = map event_to_entry (drop n (take k hist))"
proof -
  have lt: "last_time hist n < ev_elapsed (hist ! i) \<longleftrightarrow> n \<le> i" if "i < length hist" for i
  proof (cases "n = 0")
    case True
    with that assms(2) show ?thesis by (simp add: last_time_def)
  next
    case False
    have mono: "a < b \<Longrightarrow> b < length hist \<Longrightarrow> ev_elapsed (hist ! a) < ev_elapsed (hist ! b)" for a b
      using assms(1) by (simp add: sorted_wrt_map sorted_wrt_iff_nth_less)
    have "n - 1 < length hist" using False assms(3,5) by linarith
    then show ?thesis
      using False that mono [of "n - 1" i] mono [of i "n - 1"]
      by (cases "i < n - 1"; cases "i = n - 1") (auto simp: last_time_def)
  qed
  have "take k hist = take n hist @ drop n (take k hist)"
    using assms(3) by (metis append_take_drop_id min_absorb1 take_take)
  then have "drop (k - 50) (take k hist) = drop (k - 50) (take n hist @ drop n (take k hist))" by simp
  also have "\<dots> = drop (k - 50) (take n hist) @ drop n (take k hist)"
  proof -
    have "length (take n hist) = n" "k - 50 - n = 0" using assms(3-5) by simp_all
    then show ?thesis unfolding drop_append by (simp only: drop0)
  qed
  finally have "drop (k - 50) (take k hist) = drop (k - 50) (take n hist) @ drop n (take k hist)" .
  moreover have "filter (\<lambda>e. last_time hist n < ev_elapsed e) (drop (k - 50) (take n hist)) = []"
    using lt assms(3,5) by (force simp: filter_empty_conv in_set_conv_nth)
  moreover have "filter (\<lambda>e. last_time hist n < ev_elapsed e) (drop n (take k hist)) = drop n (take k hist)"
    using lt assms(3,5) by (force simp: filter_id_conv in_set_conv_nth)
  ultimately have f: "filter (\<lambda>e. last_time hist n < en_elapsed e) (rev (map event_to_entry (drop (k - 50) (take k hist)))) =
      rev (map event_to_entry (drop n (take k hist)))"
    by (simp add: rev_filter [symmetric] filter_map comp_def)
  have "sorted_wrt (<) (map en_elapsed (map event_to_entry (drop n (take k hist))))"
    using assms(1) by (simp add: comp_def sorted_wrt_map sorted_wrt_drop sorted_wrt_take)
  then show ?thesis unfolding f by (rule sort_key_rev_sorted)
qed

lemma page_log_run:
  "polls_see hist n ks acts \<Longrightarrow> sorted_wrt (<) (map ev_elapsed hist) \<Longrightarrow> \<forall>e \<in> set hist. 0 < ev_elapsed e \<Longrightarrow>
    pg_latest pg = last_time hist n \<Longrightarrow> n \<le> length hist \<Longrightarrow>
    pg_events pg = map event_to_entry (take 200 (take n hist)) \<Longrightarrow>
    pg_events (fold page_do acts pg) = map event_to_entry (take 200 (take (last (n # ks)) hist))"
proof (induction hist n ks acts arbitrary: pg rule: polls_see.induct)
  case (2 hist n k ks now st acts)
  then obtain m where m: "ds_metrics st = Some m" "eb_events (dm_events m) = drop (k - 200) (take k hist)"
    by (auto split: option.splits)
  have k: "n \<le> k" "k \<le> n + 50" "k \<le> length hist" "polls_see hist k ks acts" using "2.prems"(1) by auto
  let ?new = "drop n (take k hist)" and ?pg = "page_do (APoll now st) pg"
  note fresh = poll_fresh [OF "2.prems"(2,3) k(1-3)]
  have "pg_latest ?pg = last_time hist k"
    using k(1-3) "2.prems"(4) by (simp add: page_poll_def Let_def poll_view [OF m k(3)] fresh fold_last)
      (auto simp: last_time_def last_map last_conv_nth)
  moreover have "pg_events ?pg = map event_to_entry (take 200 (take k hist))"
  proof -
    have "take k hist = take n hist @ ?new" using k(1) by (metis append_take_drop_id min_absorb1 take_take)
    moreover have "take 200 (take 200 xs @ ys) = take 200 (xs @ ys)" for xs ys :: "dir_event tui_event list"
      by (cases "200 \<le> length xs") simp_all
    ultimately have "take 200 (take 200 (take n hist) @ ?new) = take 200 (take k hist)" by metis
    then show ?thesis
      using "2.prems"(4,6) by (simp add: page_poll_def Let_def poll_view [OF m k(3)] fresh take_map flip: map_append)
  qed
  ultimately show ?case using "2.IH" k "2.prems" by simp
qed auto

text \<open>
  C39. The activity log of a page left open, whatever is clicked and however many polls fail: as
  long as no more than fifty events happen between polls and each event has its own time, it
  shows every event once, in order and newest first, up to the two hundredth; from then on it
  never changes.
\<close>

theorem activity_log_first_200:
  assumes "sorted_wrt (<) (map ev_elapsed hist)" "\<forall>e \<in> set hist. 0 < ev_elapsed e"
    and "polls_see hist 0 ks acts"
  shows "page_log (fold page_do acts page_new) =
    map (\<lambda>e. event_row (event_to_entry e)) (rev (take 200 (take (last (0 # ks)) hist)))"
  using page_log_run [OF assms(3,1,2), of page_new]
  by (simp add: page_log_def page_new_def last_time_def rev_map comp_def)

definition sample_history :: "dir_event tui_event list" where
  "sample_history = [\<lparr>ev_elapsed = 5, ev_kind = StatsQueried\<rparr>, \<lparr>ev_elapsed = 7, ev_kind = NodeRemoved ''n1''\<rparr>,
     \<lparr>ev_elapsed = 2000000000, ev_kind = HealthCheck True\<rparr>]"

definition sample_service :: "nat \<Rightarrow> dir_state" where
  "sample_service k = \<lparr>ds_registry = registry_new False,
     ds_metrics = Some ((dir_metrics_new 0)\<lparr>dm_events := (eb_new 0 200)\<lparr>eb_events := take k sample_history\<rparr>\<rparr>)\<rparr>"

theorem activity_log_first_200_witness:
  "page_log (fold page_do [APoll 9 (sample_service 2), AClick ''n1'', AFail, APoll 2100000000 (sample_service 3)] page_new) =
     map (\<lambda>e. event_row (event_to_entry e)) (rev sample_history)"
proof -
  have "polls_see sample_history 0 [2, 3] [APoll 9 (sample_service 2), AClick ''n1'', AFail, APoll 2100000000 (sample_service 3)]"
    by (simp add: sample_service_def sample_history_def dir_metrics_new_def eb_new_def)
  from activity_log_first_200 [OF _ _ this] show ?thesis
    by (simp add: sample_history_def)
qed

section \<open>The tables of a page\<close>

lemma filter_nodes_type:
  "filter_nodes (map node_info_of ns) tab = map node_info_of (filter (\<lambda>n. case tab of TabAll \<Rightarrow> True
     | TabEntry \<Rightarrow> node_type (nm_descriptor n) = Entry | TabMiddle \<Rightarrow> node_type (nm_descriptor n) = Middle
     | TabExit \<Rightarrow> node_type (nm_descriptor n) = Exit) ns)"
proof -
  have "variant_name t = ''Entry'' \<longleftrightarrow> t = Entry" "variant_name t = ''Middle'' \<longleftrightarrow> t = Middle"
    "variant_name t = ''Exit'' \<longleftrightarrow> t = Exit" for t by (cases t; simp)+
  then show ?thesis by (simp add: filter_nodes_def filter_map comp_def node_info_of_def split: tab_kind.split)
qed

lemma mset_sort_nodes [simp]: "mset (sort_nodes ns col asc) = mset ns"
  by (simp add: sort_nodes_def)

text \<open>The nodes of the registry a tab shows.\<close>

definition tab_nodes :: "tab_kind \<Rightarrow> node_registry \<Rightarrow> node_descriptor list" where
  "tab_nodes tab reg = (case tab of TabAll \<Rightarrow> get_all_nodes reg | TabEntry \<Rightarrow> get_nodes_by_type Entry reg
     | TabMiddle \<Rightarrow> get_nodes_by_type Middle reg | TabExit \<Rightarrow> get_nodes_by_type Exit reg)"

definition tab_count :: "tab_kind \<Rightarrow> ui_stats \<Rightarrow> nat" where
  "tab_count tab s = (case tab of TabAll \<Rightarrow> us_total_nodes s | TabEntry \<Rightarrow> us_entry_count s
     | TabMiddle \<Rightarrow> us_middle_count s | TabExit \<Rightarrow> us_exit_count s)"

text \<open>A row of the table without its metrics.\<close>

definition shown_node :: "node_descriptor \<Rightarrow> string \<times> string \<times> string \<times> u64" where
  "shown_node d = (node_id d, variant_name (node_type d), show_socket_addr (address d), bandwidth d)"

definition shown_row :: "node_info \<Rightarrow> string \<times> string \<times> string \<times> u64" where
  "shown_row n = (ni_node_id n, ni_node_type n, ni_address n, ni_bandwidth n)"

lemma da_nodes_eq:
  "da_nodes (dashboard_data_of (dashboard_handler now st)) =
     map (\<lambda>e. node_info_of \<lparr>nm_descriptor = descriptor e, nm_metrics = ne_metrics e\<rparr>) (get_all_entries (ds_registry st))"
  by (simp add: dashboard_data_of_def dashboard_handler_def Let_def comp_def split: option.splits)

lemma tab_rows:
  "map shown_row (filter_nodes (da_nodes (dashboard_data_of (dashboard_handler now st))) tab) =
     map shown_node (tab_nodes tab (ds_registry st))"
proof -
  have "da_nodes (dashboard_data_of (dashboard_handler now st)) = map node_info_of
      (map (\<lambda>e. \<lparr>nm_descriptor = descriptor e, nm_metrics = ne_metrics e\<rparr>) (hm_values (nodes (ds_registry st))))"
    by (simp add: da_nodes_eq get_all_entries_def comp_def)
  then show ?thesis
    by (simp only: filter_nodes_type)
      (simp add: filter_map comp_def shown_row_def shown_node_def node_info_of_def tab_nodes_def get_all_nodes_def
        get_nodes_by_type_def split: tab_kind.split)
qed

lemma sort_nodes_sorted:
  "sorted_wrt (\<lambda>a b. if asc then sort_text col a \<le> sort_text col b else sort_text col b \<le> sort_text col a) (sort_nodes ns col asc)"
  using sorted_sort_key [of "sort_text col" ns] sorted_sort_key [of "sort_text col" "rev ns"]
  by (simp add: sort_nodes_def sorted_wrt_map sorted_wrt_rev)

lemma set_sort_nodes: "set (sort_nodes ns col asc) = set ns"
  by (simp add: sort_nodes_def)

lemma set_filter_nodes: "set (filter_nodes ns tab) \<subseteq> set ns"
  by (auto simp: filter_nodes_def)

lemma registry_ids_distinct:
  assumes "reg_inv now reg"
  shows "distinct (map (\<lambda>e. node_id (descriptor e)) (get_all_entries reg))"
proof -
  have "node_id (descriptor e) = i" if "(i, e) \<in> set (nodes reg)" for i e
    using that assms by (simp add: reg_inv_def hm_get_in_set [symmetric])
  then have "map (\<lambda>e. node_id (descriptor e)) (get_all_entries reg) = map fst (nodes reg)"
    by (auto simp: get_all_entries_def hm_values_def intro!: map_cong)
  with assms show ?thesis by (simp add: reg_inv_def hm_wf_def)
qed

lemma find_by_key: "distinct (map f xs) \<Longrightarrow> x \<in> set xs \<Longrightarrow> List.find (\<lambda>y. f y = f x) xs = Some x"
  by (induction xs) (auto simp: image_iff)

lemma page_panel_click:
  assumes "distinct (map ni_node_id (da_nodes d))" "n \<in> set (da_nodes d)" "pg_data pg = Some d"
    and "pg_selected pg \<noteq> Some (ni_node_id n)"
  shows "\<exists>v. page_panel (page_click (ni_node_id n) pg) = Some v \<and>
    np_node v = (take_chars 12 (ni_node_id n) @ ''...'', ni_node_type n, ni_address n)"
  using assms(3,4) find_by_key [OF assms(1,2)] by (simp add: page_panel_def page_click_def Let_def)

lemma page_table_length:
  assumes "pg_data pg = Some (dashboard_data_of (dashboard_handler now st))"
  shows "length (page_table pg) = tab_count (pg_tab pg) (da_stats (dashboard_data_of (dashboard_handler now st)))"
proof -
  have "length (page_table pg) = length (tab_nodes (pg_tab pg) (ds_registry st))"
    using arg_cong [OF tab_rows [of now st "pg_tab pg"], of size] by (simp add: page_table_def assms sort_nodes_def)
  then show ?thesis
    using get_stats_correct [of now "ds_registry st"]
    by (simp add: tab_nodes_def tab_count_def dashboard_data_of_def dashboard_handler_def Let_def
        split: tab_kind.split option.split prod.split)
qed

text \<open>The head counts, for each tab, the rows of its table; one tab is marked, and one column.\<close>

lemma page_head_counts:
  assumes "pg_data pg = Some (dashboard_data_of (dashboard_handler now st))"
  shows "\<exists>up paths. page_head pg = Some (up, (length (page_table (page_tab TabAll pg)), length (page_table (page_tab TabEntry pg)),
    length (page_table (page_tab TabMiddle pg)), length (page_table (page_tab TabExit pg))), paths)"
proof -
  have "length (page_table (page_tab tab pg)) = tab_count tab (da_stats (dashboard_data_of (dashboard_handler now st)))" for tab
    using page_table_length [of "page_tab tab pg" now st] assms by (simp add: page_tab_def)
  then show ?thesis by (simp add: page_head_def assms tab_count_def)
qed

lemma page_marks:
  "length (filter snd (page_tabs pg)) = 1" "page_empty pg = None \<Longrightarrow> page_table pg \<noteq> []"
  "length (filter (\<lambda>c. sort_mark c pg \<noteq> []) [ColId, ColType, ColAddr]) = 1"
  by (cases "pg_tab pg"; simp add: page_tabs_def)
    (auto simp: page_empty_def page_table_def sort_mark_def split: option.splits if_splits, cases "pg_sort_col pg", auto)



section \<open>The events of a relay on the page\<close>

text \<open>
  How the page shows an event of a relay: the class of its colour, its label and its detail. The
  label of DESTROY is padded with three spaces, and the page splits at four: its detail stays in
  the label.
\<close>

fun event_view :: "relay_event \<Rightarrow> string \<times> string \<times> string" where
  "event_view (ConnectionAccepted peer) = (''rel-accept'', arrow_left @ '' ACCEPT'', ''from '' @ peer)"
| "event_view (ConnectionClosed peer) = (''rel-end'', em_dash @ '' CLOSED'', ''conn from '' @ peer)"
| "event_view (CircuitCreated c) = (''rel-create'', gear_sign @ '' CREATE'', ''cid='' @ show_u32 c)"
| "event_view (CircuitExtended c hop) =
     (''rel-extend'', arrow_right @ '' EXTEND'', ''cid='' @ show_u32 c @ '' '' @ arrow_right @ '' '' @ hop)"
| "event_view (CircuitDestroyed c) = (''rel-destroy'', ballot_x @ '' DESTROY   cid='' @ show_u32 c, '''')"
| "event_view (RelayForward c cmd n) = (''rel-fwd'', arrow_right @ '' RELAY'' @ arrow_right,
     ''cid='' @ show_u32 c @ '' '' @ show_command cmd @ '' ['' @ format_bytes (word_of_nat n) @ '']'')"
| "event_view (RelayBackward c cmd n) = (''rel-bwd'', arrow_left @ '' RELAY'' @ arrow_left,
     ''cid='' @ show_u32 c @ '' '' @ show_command cmd @ '' ['' @ format_bytes (word_of_nat n) @ '']'')"
| "event_view (StreamOpened c s d) = (''rel-stream'', arrow_right @ '' STREAM'',
     ''cid='' @ show_u32 c @ '' sid='' @ show_u16 s @ '' '' @ arrow_right @ '' '' @ d)"
| "event_view (StreamClosed c s) = (''rel-end'', em_dash @ '' END'', ''cid='' @ show_u32 c @ '' sid='' @ show_u16 s)"
| "event_view (StreamData c s n dir) = (''rel-data'', arrow_both @ '' DATA'',
     ''cid='' @ show_u32 c @ '' sid='' @ show_u16 s @ '' ['' @ format_bytes (word_of_nat n) @ '']'')"
| "event_view (ErrorEvent m) = (''rel-error'', ballot_x @ '' ERROR'', trim_start m)"

text \<open>Free text that cannot be taken for a sign, or for a label after one.\<close>

fun plain_event :: "relay_event \<Rightarrow> bool" where
  "plain_event (ConnectionAccepted peer) = (CHR 0xE2 \<notin> set peer)"
| "plain_event (ConnectionClosed peer) = (CHR 0xE2 \<notin> set peer)"
| "plain_event (CircuitExtended c hop) = (CHR 0xE2 \<notin> set hop)"
| "plain_event (StreamOpened c s d) = (CHR 0xE2 \<notin> set d \<and> \<not> prefix ''EXTEND'' d)"
| "plain_event (ErrorEvent m) = (CHR 0xE2 \<notin> set m)"
| "plain_event _ = True"

named_theorems sign_simps

lemmas signs = arrow_left_def arrow_right_def arrow_both_def em_dash_def gear_sign_def ballot_x_def

lemma digit_char_below: "d < 10 \<Longrightarrow> digit_char d \<noteq> CHR 0xE2 \<and> digit_char d \<noteq> CHR '']'' \<and> digit_char d \<noteq> CHR '' ''"
  by (auto simp: digit_char_def dest: arg_cong [where f = "of_char :: char \<Rightarrow> nat"])

lemma show_nat_plain [sign_simps]: "CHR 0xE2 \<notin> set (show_nat n)" "CHR '']'' \<notin> set (show_nat n)"
  using show_nat_digits digit_char_below by metis+

lemma show_word_plain [sign_simps]: "CHR 0xE2 \<notin> set (show_u32 v)" "CHR 0xE2 \<notin> set (show_u16 w)"
  by (simp_all add: show_u32_def show_u16_def sign_simps)

lemma format_bytes_plain [sign_simps]: "CHR 0xE2 \<notin> set (format_bytes n)"
  by (simp add: format_bytes_def show_tenths_def Let_def sign_simps)

lemma show_command_plain [sign_simps]: "CHR 0xE2 \<notin> set (show_command c)"
  by (cases c) simp_all

lemma timestamp_plain [sign_simps]: "CHR 0xE2 \<notin> set (format_timestamp t)" "CHR '']'' \<notin> set (format_timestamp t)"
  by (simp_all add: format_timestamp_def pad2_def Let_def sign_simps)

lemma str_find_skip: "c \<notin> set x \<Longrightarrow> str_find (c # p) (x @ y) = map_option ((+) (length x)) (str_find (c # p) y)"
  by (induction x) (cases "str_find (c # p) y"; simp)+

lemma contains_skip: "c \<notin> set x \<Longrightarrow> str_contains (c # p) (x @ y) = str_contains (c # p) y"
  by (simp add: str_contains_def str_find_skip)

lemma contains_absent: "c \<notin> set x \<Longrightarrow> \<not> str_contains (c # p) x"
  using contains_skip [of c x p "[]"] by (simp add: str_contains_def)

lemma contains_Cons: "str_contains p (c # s) = (prefix p (c # s) \<or> str_contains p s)"
  by (simp add: str_contains_def)

lemma trim_start_space: "trim_start (CHR '' '' # s) = trim_start s"
  by (subst trim_start.simps) (simp add: leading_space_def white_space_def)

lemma trim_start_keeps: "leading_space s = 0 \<Longrightarrow> trim_start s = s"
  by (subst trim_start.simps) simp

text \<open>The page's split of a line: the stamp up to its bracket, the label up to four spaces.\<close>

lemma split_stamped:
  assumes "leading_space r = 0"
  shows "split_relay_event (''['' @ format_timestamp t @ ''] '' @ r) =
    (case str_find ''    '' r of Some p \<Rightarrow> (''['' @ format_timestamp t @ '']'', take p r, trim_start (drop p r))
     | None \<Rightarrow> (''['' @ format_timestamp t @ '']'', r, ''''))"
proof -
  let ?x = "''['' @ format_timestamp t"
  have "str_find ''] '' (?x @ ''] '' @ r) = Some (length ?x)"
    by (subst str_find_skip) (simp_all add: sign_simps)
  then show ?thesis
    using trim_start_keeps [OF assms] by (simp add: split_relay_event_def split: option.split)
qed

lemma leading_signs [sign_simps]:
  "leading_space (arrow_left @ s) = 0" "leading_space (arrow_right @ s) = 0" "leading_space (arrow_both @ s) = 0"
  "leading_space (em_dash @ s) = 0" "leading_space (gear_sign @ s) = 0" "leading_space (ballot_x @ s) = 0"
  by (simp_all add: signs leading_space_def white_space_def)

lemma leading_format [sign_simps]: "leading_space (format_event_string k) = 0"
  by (cases k) (simp_all add: sign_simps)

lemma leading_ascii [sign_simps]: "leading_space (CHR ''f'' # s) = 0" "leading_space (CHR ''c'' # s) = 0"
  by (simp_all add: leading_space_def white_space_def)

lemma find_gap_absent: "CHR '' '' \<notin> set s \<Longrightarrow> str_find ''    '' s = None"
  using contains_absent [of "CHR '' ''" s "''   ''"] by (simp add: str_contains_def)

lemma split_event:
  "split_relay_event (''['' @ format_timestamp t @ ''] '' @ format_event_string k) =
     (''['' @ format_timestamp t @ '']'', snd (event_view k))"
proof -
  let ?s = "format_event_string k"
  have "(case str_find ''    '' ?s of Some p \<Rightarrow> (take p ?s, trim_start (drop p ?s)) | None \<Rightarrow> (?s, '''')) = snd (event_view k)"
  proof (cases k)
    case (CircuitDestroyed c)
    have "CHR '' '' \<notin> set (show_u32 c)"
      using show_nat_digits digit_char_below by (metis show_u32_def)
    then show ?thesis by (simp add: CircuitDestroyed signs find_gap_absent)
  qed (simp_all add: sign_simps signs trim_start_space trim_start_keeps)
  then show ?thesis
    unfolding split_stamped [OF leading_format] by (simp split: option.splits)
qed

text \<open>The colour of a stamped line is that of its text, where a sign can only be the first or come later.\<close>

lemma color_stamped:
  "relay_event_color (''['' @ format_timestamp t @ ''] '' @ r) = relay_event_color r"
proof -
  have "str_contains (CHR 0xE2 # p) (''['' @ format_timestamp t @ ''] '' @ r) = str_contains (CHR 0xE2 # p) r" for p
    using contains_skip [of "CHR 0xE2" "''['' @ format_timestamp t @ ''] ''" p r] by (simp add: sign_simps)
  then show ?thesis by (simp add: relay_event_color_def signs)
qed

lemma color_event:
  assumes "plain_event k"
  shows "relay_event_color (format_event_string k) = fst (event_view k)"
  using assms
  by (cases k) (simp_all add: relay_event_color_def signs contains_Cons contains_skip contains_absent sign_simps)

definition shown_event :: "relay_event tui_event \<Rightarrow> string \<times> string \<times> string \<times> string" where
  "shown_event e = (fst (event_view (ev_kind e)), ''['' @ format_timestamp (ev_elapsed e) @ '']'', snd (event_view (ev_kind e)))"

text \<open>
  A relay's events reach the page: of the heartbeat's metrics the page shows the newest
  twenty events, the oldest of them first, each under its stamp, with the colour, label and
  detail of its kind, DESTROY alone with its detail in the label; provided no free text of an
  event carries a sign and no destination begins with EXTEND.
\<close>

theorem relay_events_on_page:
  assumes "\<forall>e \<in> set (eb_events (rm_events mt)). plain_event (ev_kind e)"
    and "ni_metrics n = Some m" "event_snapshot m = rm_event_snapshot mt"
    and "pg_data pg = Some d" "pg_selected pg = Some i" "List.find (\<lambda>n. ni_node_id n = i) (da_nodes d) = Some n"
  shows "\<exists>v. page_panel pg = Some v \<and> np_events v =
    map shown_event (drop (length (eb_events (rm_events mt)) - 20) (eb_events (rm_events mt)))"
proof -
  let ?es = "eb_events (rm_events mt)"
  let ?text = "\<lambda>e. ''['' @ format_timestamp (ev_elapsed e) @ ''] '' @ format_event_string (ev_kind e)"
  have "rev (rm_event_snapshot mt) = map ?text (drop (length ?es - 20) ?es)"
    by (simp add: rm_event_snapshot_def eb_snapshot_def take_rev drop_map)
  then have "take 200 (rev (event_snapshot m)) = map ?text (drop (length ?es - 20) ?es)"
    using assms(3) by simp
  moreover have "map (\<lambda>ev. (relay_event_color ev, split_relay_event ev)) (map ?text (drop (length ?es - 20) ?es)) =
      map shown_event (drop (length ?es - 20) ?es)"
  proof -
    have "(relay_event_color (?text e), split_relay_event (?text e)) = shown_event e" if "e \<in> set ?es" for e
      using that assms(1) unfolding color_stamped split_event by (simp add: color_event shown_event_def)
    then show ?thesis unfolding map_map comp_def by (intro map_cong refl) (meson in_set_dropD)
  qed
  ultimately show ?thesis
    using assms(2,4-6) by (simp add: page_panel_def Let_def)
qed

definition sample_relay_metrics :: relay_metrics where
  "sample_relay_metrics = rm_push_event 3000000000 (CircuitDestroyed 7) (rm_push_event 2000000000 (StreamOpened 7 1 ''example.com:80'')
     (rm_push_event 1000000000 (CircuitCreated 7) (relay_metrics_new 0)))"

definition sample_node_info :: node_info where
  "sample_node_info = \<lparr>ni_node_id = ''n1'', ni_node_type = ''Exit'', ni_address = ''10.0.0.1:9001'', ni_bandwidth = 100,
     ni_metrics = Some (node_metrics_default\<lparr>event_snapshot := rm_event_snapshot sample_relay_metrics\<rparr>)\<rparr>"

definition sample_page :: page where
  "sample_page = page_new\<lparr>pg_selected := Some ''n1'', pg_data := Some \<lparr>da_nodes = [sample_node_info],
     da_stats = \<lparr>us_total_nodes = 1, us_entry_count = 0, us_middle_count = 0, us_exit_count = 1\<rparr>,
     da_metrics = \<lparr>su_registrations = 1, su_removals = 0, su_heartbeats = 1, su_path_requests = 0, su_stale_cleaned = 0,
       su_uptime_secs = 4\<rparr>, da_ready = False, da_events = []\<rparr>\<rparr>"

theorem relay_events_on_page_witness:
  "map_option (map (\<lambda>(c, ts, l, d). (c, l, d)) \<circ> np_events) (page_panel sample_page) =
     Some [(''rel-create'', gear_sign @ '' CREATE'', ''cid=7''),
       (''rel-stream'', arrow_right @ '' STREAM'', ''cid=7 sid=1 '' @ arrow_right @ '' example.com:80''),
       (''rel-destroy'', ballot_x @ '' DESTROY   cid=7'', '''')]"
proof -
  have es: "eb_events (rm_events sample_relay_metrics) = [\<lparr>ev_elapsed = 1000000000, ev_kind = CircuitCreated 7\<rparr>,
      \<lparr>ev_elapsed = 2000000000, ev_kind = StreamOpened 7 1 ''example.com:80''\<rparr>,
      \<lparr>ev_elapsed = 3000000000, ev_kind = CircuitDestroyed 7\<rparr>]"
    by (simp add: sample_relay_metrics_def rm_push_event_def relay_metrics_new_def eb_push_def eb_new_def EVENT_BUFFER_CAPACITY_def Let_def)
  have "show_u32 7 = ''7''" "show_u16 1 = ''1''"
    by (simp_all add: show_u32_def show_u16_def show_nat.simps digit_char_def) code_simp+
  with relay_events_on_page [of sample_relay_metrics sample_node_info
      "node_metrics_default\<lparr>event_snapshot := rm_event_snapshot sample_relay_metrics\<rparr>" sample_page _ "''n1''"] es
  show ?thesis
    by (auto simp: sample_page_def sample_node_info_def shown_event_def)
qed

section \<open>Duplicated text\<close>

lemma web_text_same:
  "web_format_bytes n = format_bytes n" "format_elapsed t = format_timestamp t"
  by (simp_all add: web_format_bytes_def format_bytes_def format_elapsed_def format_timestamp_def)

text \<open>A destination that begins with the name of a label takes that label's colour.\<close>

lemma destination_takes_color:
  "relay_event_color (format_event_string (StreamOpened 7 1 ''EXTEND.org:80'')) = ''rel-extend''"
  by (simp add: relay_event_color_def signs contains_Cons contains_skip contains_absent sign_simps)

text \<open>The service sends at most fifty events, the newest first.\<close>

lemma dashboard_events_newest:
  "dr_events (dashboard_handler now st) =
     (case ds_metrics st of None \<Rightarrow> [] | Some m \<Rightarrow> take 50 (map event_to_entry (rev (eb_events (dm_events m)))))"
  by (simp add: dashboard_handler_def eb_snapshot_def rev_map Let_def split: option.split)

end
