(* ===== verification/Circuit_Build.thy ===== *)
theory Circuit_Build
  imports Circuit_Path Client_Handshake Net_Text
begin

text \<open>
  Building a circuit over relays, hop by hop: what the relays of a path that is being built do
  with an EXTEND of the client, from the entry's first cell to the answer's last layer, and
  that the builder, whatever the number of hops, ends with the keys of the relays: the circuit
  it returns is in \<open>path_sync\<close> with them. The connections, the network and the answers of
  the new hops to CREATE are those of the builder and the handlers.
\<close>

section \<open>A path under construction\<close>

text \<open>The entry, the middles that have a next hop, and the hop that is to dial the next one.\<close>

record half_path =
  hp_entry :: "relay_env \<times> entry_state"
  hp_middles :: "middle_hop list"
  hp_last :: "middle_hop option"

definition hp_dialler :: "half_path \<Rightarrow> relay_env" where
  "hp_dialler hp = (case hp_last hp of None \<Rightarrow> fst (hp_entry hp) | Some l \<Rightarrow> fst l)"

text \<open>
  An EXTEND cell through the path. The entry alone dials; behind it, the cell goes down to the
  last hop, which dials, and its EXTENDED comes back through the readers.
\<close>

definition relays_extend :: "(nat \<Rightarrow> byte) \<Rightarrow> message \<Rightarrow> half_path \<Rightarrow> (message \<times> half_path) option" where
  "relays_extend rnd m hp =
     (let (e, h, mt) = hp_entry hp in
      case hp_last hp of
        None \<Rightarrow>
          (case entry_handle_message e m (h, mt) of
             (Inr (Some r), st) \<Rightarrow> map_option (\<lambda>r. (r, hp\<lparr>hp_entry := (e, st)\<rparr>)) (carry rnd r)
           | _ \<Rightarrow> None)
      | Some (le, lst) \<Rightarrow>
          (case entry_handle_message e m (h, mt) of
             (Inr None, (h', mt')) \<Rightarrow>
               (case (eh_next_hop h, eh_next_hop h') of
                  (Some hop, Some hop') \<Rightarrow>
                    (case wire (nh_write hop) (nh_write hop') of None \<Rightarrow> None | Some m \<Rightarrow>
                     case middles_forward (hp_middles hp) m of None \<Rightarrow> None | Some (m, hs) \<Rightarrow>
                     case middle_handle_message le m lst of
                       (Inr (Some r), lst') \<Rightarrow>
                         (case carry rnd r of None \<Rightarrow> None | Some r \<Rightarrow>
                          case middles_backward rnd (rev hs) r of None \<Rightarrow> None | Some (r, hs') \<Rightarrow>
                          case entry_handle_backward_relay e r (h', mt') of
                            (Inr (Some r), st) \<Rightarrow>
                              map_option (\<lambda>r. (r, \<lparr>hp_entry = (e, st), hp_middles = rev hs', hp_last = Some (le, lst')\<rparr>)) (carry rnd r)
                          | _ \<Rightarrow> None)
                     | _ \<Rightarrow> None)
                | _ \<Rightarrow> None)
           | _ \<Rightarrow> None))"

text \<open>The hops hold the client's ciphers \<open>cs\<close>; the last of them has dialled or has not.\<close>

definition dialled :: "bool \<Rightarrow> next_hop option \<Rightarrow> bool" where
  "dialled b nh = (case nh of None \<Rightarrow> \<not> b | Some hop \<Rightarrow> b \<and> wr_room (nh_write hop) = None)"

fun last_sync :: "prims \<Rightarrow> u32 \<Rightarrow> bool \<Rightarrow> middle_hop \<Rightarrow> cipher_pair \<Rightarrow> bool" where
  "last_sync P cid b (e, h, mt) cp = (re_prims e = P \<and> cx_cipher_pair (mh_context h) = Some cp \<and>
     cx_circuit_id (mh_context h) = cid \<and> dialled b (mh_next_hop h))"

definition hp_sync :: "prims \<Rightarrow> u32 \<Rightarrow> bool \<Rightarrow> half_path \<Rightarrow> cipher_pair list \<Rightarrow> bool" where
  "hp_sync P cid b hp cs =
     (case hp_entry hp of (e, h, mt) \<Rightarrow>
      re_prims e = P \<and> cx_circuit_id (eh_context h) = cid \<and>
      (case hp_last hp of
         None \<Rightarrow> hp_middles hp = [] \<and> dialled b (eh_next_hop h) \<and>
           (case cs of [cp] \<Rightarrow> cx_cipher_pair (eh_context h) = Some cp | _ \<Rightarrow> False)
       | Some l \<Rightarrow> dialled True (eh_next_hop h) \<and>
           (case cs of [] \<Rightarrow> False
            | cp # cs \<Rightarrow> cs \<noteq> [] \<and> cx_cipher_pair (eh_context h) = Some cp \<and>
                list_all2 (middle_ready P) (hp_middles hp) (butlast cs) \<and> last_sync P cid b l (last cs))))"

section \<open>The last hop dials\<close>

lemma middle_dial_ok:
  assumes "re_net e addr = Some pr" "tls_connect (re_prims e) fp pr" "length pub = 32"
    and "peer_answers pr (msg_create cid pub) resp" "command resp = Created" "32 \<le> length (data resp)"
  shows "\<exists>stream. middle_dial e cid addr pub fp = Inr (resp, stream) \<and> wr_room (rs_write stream) = None"
  using assms create_fits [OF assms(3), of cid]
  by (auto simp: middle_dial_def write_to_stream_ok peer_answers_def split: option.splits prod.splits)

lemma middle_answers_extend:
  assumes "last_sync P cid False (e, h, mt) cp" "length pub = 32" "socket_wf (address node)"
    and "\<forall>c \<in> set (tls_cert_fingerprint node). plain_char c"
    and "re_net e (address node) = Some pr" "tls_connect P (tls_cert_fingerprint node) pr"
    and "peer_answers pr (msg_create cid pub) created" "command created = Created" "32 \<le> length (data created)"
    and "command m = Extend" "apply_forward P cp (data m) = (extend_payload node pub, cp1)"
    and "apply_backward P cp1 (data created) = (x, cp2)"
  shows "\<exists>h' mt'. middle_handle_message e m (h, mt) = (Inr (Some (msg_extended cid x)), (h', mt')) \<and>
    last_sync P cid True (e, h', mt') cp2"
proof -
  have s: "re_prims e = P" "cx_cipher_pair (mh_context h) = Some cp" "cx_circuit_id (mh_context h) = cid" "mh_next_hop h = None"
    using assms(1) by (simp_all add: dialled_def split: option.splits)
  note parse = parse_extend_payload(2) [OF assms(2,4)] parse_show_socket_addr [OF assms(3)]
  obtain stream where "middle_dial e cid (address node) pub (tls_cert_fingerprint node) = Inr (created, stream)"
    "wr_room (rs_write stream) = None"
    using middle_dial_ok [OF assms(5) _ assms(2,7-9)] assms(6) s(1) by auto
  with s parse assms(10-12) show ?thesis
    by (simp add: middle_handle_message_def middle_handle_extend_def Let_def dialled_def nh_new_def)
qed

lemma entry_answers_extend_any:
  assumes "re_prims e = P" "cx_cipher_pair (eh_context h) = Some cp" "cx_circuit_id (eh_context h) = cid"
    and "dialled False (eh_next_hop h)" "length pub = 32" "socket_wf (address node)"
    and "\<forall>c \<in> set (tls_cert_fingerprint node). plain_char c"
    and "re_net e (address node) = Some pr" "tls_connect P (tls_cert_fingerprint node) pr"
    and "peer_answers pr (msg_create cid pub) created" "command created = Created"
    and "command m = Extend" "apply_forward P cp (data m) = (extend_payload node pub, cp1)"
    and "apply_backward P cp1 (data created) = (x, cp2)"
  shows "\<exists>h' mt'. entry_handle_message e m (h, mt) = (Inr (Some (msg_extended cid x)), (h', mt')) \<and>
    cx_cipher_pair (eh_context h') = Some cp2 \<and> cx_circuit_id (eh_context h') = cid \<and> dialled True (eh_next_hop h')"
proof -
  have nh: "eh_next_hop h = None" using assms(4) by (simp add: dialled_def split: option.splits)
  note parse = parse_extend_payload(1) [OF assms(5,7)] parse_show_socket_addr [OF assms(6)]
  obtain stream where dial: "entry_dial e cid (show_socket_addr (address node)) pub (tls_cert_fingerprint node) = Inr (created, stream)"
    "wr_room (rs_write stream) = None"
    using entry_dial_ok [OF parse(2) assms(8) _ assms(5,10,11)] assms(1,9) by auto
  have "apply_forward (re_prims e) cp (data m) = (extend_payload node pub, cp1)" using assms(1,13) by simp
  from entry_extend_ok [OF assms(2) assms(3) [symmetric] this parse(1) dial(1), of x cp2 mt] assms(1,14)
  obtain h' mt' where "entry_handle_extend e m (h, mt) = (Inr (Some (msg_extended cid x)), (h', mt'))"
    "eh_next_hop h' = Some (nh_new stream)" "cx_cipher_pair (eh_context h') = Some cp2" "cx_circuit_id (eh_context h') = cid"
    by auto
  moreover from this(1) have "entry_handle_message e m (h, mt) = (Inr (Some (msg_extended cid x)), (h', mt'))"
    using nh assms(12) by (simp add: entry_handle_message_def)
  ultimately show ?thesis using dial(2) by (simp add: dialled_def nh_new_def)
qed

text \<open>A relay of the new hop's keys stands at the address the last hop is to dial, and answers CREATE.\<close>

definition hop_answers :: "prims \<Rightarrow> u32 \<Rightarrow> bytes \<Rightarrow> relay_env \<Rightarrow> node_descriptor \<Rightarrow> message \<Rightarrow> bool" where
  "hop_answers P cid pub e node created =
     (case re_net e (address node) of None \<Rightarrow> False
      | Some pr \<Rightarrow> tls_connect P (tls_cert_fingerprint node) pr \<and> peer_answers pr (msg_create cid pub) created)"

definition extendable :: "node_descriptor \<Rightarrow> bool" where
  "extendable node = (socket_wf (address node) \<and> (\<forall>c \<in> set (tls_cert_fingerprint node). plain_char c) \<and>
     length (show_socket_addr (address node)) + length (tls_cert_fingerprint node) + 34 \<le> MAX_PAYLOAD_SIZE)"

lemma extendableD:
  assumes "extendable node" "length pub = 32"
  shows "socket_wf (address node)" "\<forall>c \<in> set (tls_cert_fingerprint node). plain_char c"
    "length (extend_payload node pub) \<le> MAX_PAYLOAD_SIZE"
  using assms by (simp_all add: extendable_def extend_payload_def)

lemma extended_fits: "length d \<le> MAX_PAYLOAD_SIZE \<Longrightarrow> msg_fits (msg_extended cid d) \<and> msg_fits (msg_extend cid d)"
  by (simp add: msg_fits_def msg_wf_def msg_defs)

lemma relays_extend_first:
  assumes "hp_sync P cid False hp cs" "hp_last hp = None" "length pub = 32" "extendable node"
    and "hop_answers P cid pub (hp_dialler hp) node created" "command created = Created" "length (data created) = 64"
    and "apply_each (apply_forward P) (rev cs) (extend_payload node pub) = (z, rcs)"
  shows "\<exists>answer hp1 cs2. relays_extend rnd (msg_extend cid z) hp = Some (answer, hp1) \<and> msg_fits answer \<and>
    command answer = Extended \<and> apply_each (apply_backward P) (rev rcs) (data answer) = (data created, cs2) \<and>
    hp_sync P cid True hp1 cs2 \<and> hp_middles hp1 = hp_middles hp \<and> hp_last hp1 = hp_last hp"
proof -
  obtain e h mt where e: "hp_entry hp = (e, h, mt)" by (metis prod_cases3)
  obtain cp where s: "re_prims e = P" "cx_circuit_id (eh_context h) = cid" "hp_middles hp = []" "dialled False (eh_next_hop h)"
    "cs = [cp]" "cx_cipher_pair (eh_context h) = Some cp"
    using assms(1,2) e by (auto simp: hp_sync_def split: list.splits)
  obtain pr where pr: "re_net e (address node) = Some pr" "tls_connect P (tls_cert_fingerprint node) pr"
    "peer_answers pr (msg_create cid pub) created"
    using assms(2,5) e by (auto simp: hop_answers_def hp_dialler_def split: option.splits)
  obtain cp1 where cp1: "apply_forward P cp (extend_payload node pub) = (z, cp1)" "rcs = [cp1]"
    using assms(8) s(5) by (auto simp: Let_def split: prod.splits)
  obtain x cp2 where x: "apply_backward P cp1 (data created) = (x, cp2)" by force
  note nd = extendableD [OF assms(4,3)]
  have c: "command (msg_extend cid z) = Extend" "apply_forward P cp (data (msg_extend cid z)) = (extend_payload node pub, cp1)"
    using pair.fw.sync [OF cp1(1)] by (simp_all add: msg_defs)
  from entry_answers_extend_any [OF s(1,6,2,4) assms(3) nd(1,2) pr assms(6) c x, of mt]
  obtain h' mt' where run: "entry_handle_message e (msg_extend cid z) (h, mt) = (Inr (Some (msg_extended cid x)), (h', mt'))"
    "cx_cipher_pair (eh_context h') = Some cp2" "cx_circuit_id (eh_context h') = cid" "dialled True (eh_next_hop h')"
    by auto
  have "length x = 64" using pair.bw.ks_length [of P cp1 "data created"] x assms(7) by simp
  then have fits: "msg_fits (msg_extended cid x)" using extended_fits by (simp add: MAX_PAYLOAD_SIZE_eq)
  let ?hp = "hp\<lparr>hp_entry := (e, h', mt')\<rparr>"
  have "relays_extend rnd (msg_extend cid z) hp = Some (msg_extended cid x, ?hp)"
    using e run(1) assms(2) by (simp add: relays_extend_def carry_cell [OF fits])
  moreover have "apply_each (apply_backward P) (rev rcs) (data (msg_extended cid x)) = (data created, [cp2])"
    using pair.bw.sync [OF x] by (simp add: cp1(2) msg_defs)
  moreover have "hp_sync P cid True ?hp [cp2]"
    using run s assms(2) by (simp add: hp_sync_def)
  ultimately show ?thesis using fits by (intro exI conjI) (assumption | simp add: msg_defs)+
qed

lemma relays_extend_next:
  assumes "hp_sync P cid False hp cs" "hp_last hp = Some (le, lh, lm)" "length pub = 32" "extendable node"
    and "hop_answers P cid pub (hp_dialler hp) node created" "command created = Created" "length (data created) = 64"
    and "apply_each (apply_forward P) (rev cs) (extend_payload node pub) = (z, rcs)"
  shows "\<exists>answer hp1 cs2. relays_extend rnd (msg_extend cid z) hp = Some (answer, hp1) \<and> msg_fits answer \<and>
    command answer = Extended \<and> apply_each (apply_backward P) (rev rcs) (data answer) = (data created, cs2) \<and>
    hp_sync P cid True hp1 cs2 \<and> hp_last hp1 \<noteq> None"
proof -
  obtain e h mt where e: "hp_entry hp = (e, h, mt)" by (metis prod_cases3)
  obtain cp ds where s: "re_prims e = P" "cx_circuit_id (eh_context h) = cid" "dialled True (eh_next_hop h)"
    "cs = cp # ds" "ds \<noteq> []" "cx_cipher_pair (eh_context h) = Some cp"
    "list_all2 (middle_ready P) (hp_middles hp) (butlast ds)" "last_sync P cid False (le, lh, lm) (last ds)"
    using assms(1,2) e by (auto simp: hp_sync_def split: list.splits)
  obtain hop where hop: "eh_next_hop h = Some hop" "wr_room (nh_write hop) = None"
    using s(3) by (auto simp: dialled_def split: option.splits)
  define cps cpl where "cps = butlast ds" and "cpl = last ds"
  have cs: "cs = cp # cps @ [cpl]" using s(4,5) by (simp add: cps_def cpl_def)
  obtain pr where pr: "re_net le (address node) = Some pr" "tls_connect P (tls_cert_fingerprint node) pr"
    "peer_answers pr (msg_create cid pub) created"
    using assms(2,5) e by (auto simp: hop_answers_def hp_dialler_def split: option.splits)
  note nd = extendableD [OF assms(4,3)]
  let ?p = "extend_payload node pub" and ?k = "onion_keys_new [] cs" and ?m = "msg_extend cid z"
  have enc: "onion_encrypt P ?k ?p = (z, ?k\<lparr>ok_ciphers := rev rcs\<rparr>)" "ok_ciphers ?k = cp # cps @ [cpl]"
    using assms(8) cs by (simp_all add: onion_encrypt_def onion_keys_new_def)
  have m: "command ?m = Extend" "relayed_command (command ?m)" "data ?m = z" by (simp_all add: msg_defs relayed_command_def)
  have fits: "msg_fits ?m" using onion_forward [OF enc(1)] nd(3) extended_fits by simp
  obtain d1 d2 cp1 cps1 cpl1 where f: "apply_forward P cp z = (d1, cp1)" "apply_each (apply_forward P) cps d1 = (d2, cps1)"
    "apply_forward P cpl ?p = (d2, cpl1)" "rev rcs = cp1 # cps1 @ [cpl1]"
    by (rule forward_layers [OF enc]) (simp add: onion_keys_new_def that)
  obtain h1 hop1 where en: "entry_handle_message e ?m (h, mt) = (Inr None, (h1, mt))" "eh_next_hop h1 = Some hop1"
    "wire (nh_write hop) (nh_write hop1) = Some (?m\<lparr>data := d1\<rparr>)" "msg_fits (?m\<lparr>data := d1\<rparr>)"
    "cx_cipher_pair (eh_context h1) = Some cp1" "wr_room (nh_write hop1) = None"
    using entry_forward_step [OF s(1,6) hop m(2) fits, of d1 cp1 mt] f(1) m(3) by auto
  have id1: "cx_circuit_id (eh_context h1) = cid"
    using entry_message_context(1) [OF en(1)] s(2) by simp
  obtain hs where hs: "middles_forward (hp_middles hp) (?m\<lparr>data := d1\<rparr>) = Some (?m\<lparr>data := d2\<rparr>, hs)"
    "list_all2 (middle_ready P) hs cps1"
    using middles_forward_ok [OF s(7)[folded cps_def] _ en(4), of d2 cps1] m(2) f(2) by auto
  obtain x cpl2 where x: "apply_backward P cpl1 (data created) = (x, cpl2)" by force
  have "command (?m\<lparr>data := d2\<rparr>) = Extend" "apply_forward P cpl (data (?m\<lparr>data := d2\<rparr>)) = (?p, cpl1)"
    using m(1) pair.fw.sync [OF f(3)] by simp_all
  from middle_answers_extend [OF s(8)[folded cpl_def] assms(3) nd(1,2) pr assms(6) _ this x] assms(7)
  obtain lh' lm' where la: "middle_handle_message le (?m\<lparr>data := d2\<rparr>) (lh, lm) = (Inr (Some (msg_extended cid x)), (lh', lm'))"
    "last_sync P cid True (le, lh', lm') cpl2" by auto
  let ?r = "msg_extended cid x"
  have "length x = 64" using pair.bw.ks_length [of P cpl1 "data created"] x assms(7) by simp
  then have rf: "msg_fits ?r" "data ?r = x" using extended_fits by (simp_all add: MAX_PAYLOAD_SIZE_eq msg_defs)
  obtain y1 rcps where b1: "apply_each (apply_backward P) (rev cps1) x = (y1, rcps)" by force
  obtain hs' where bk: "middles_backward rnd (rev hs) ?r = Some (?r\<lparr>data := y1\<rparr>, hs')" "msg_fits (?r\<lparr>data := y1\<rparr>)"
    "list_all2 (middle_ready P) hs' rcps"
    using middles_backward_ok [OF _ rf(1), of P "rev hs" "rev cps1" y1 rcps rnd] hs(2) b1 rf(2) by auto
  obtain y2 cp2 where b2: "apply_backward P cp1 y1 = (y2, cp2)" by force
  let ?h = "h1\<lparr>eh_context := (eh_context h1)\<lparr>cx_cipher_pair := Some cp2\<rparr>\<rparr>"
  have eb: "entry_handle_backward_relay e (?r\<lparr>data := y1\<rparr>) (h1, mt) = (Inr (Some (?r\<lparr>data := y2\<rparr>)), (?h, mt))"
    "msg_fits (?r\<lparr>data := y2\<rparr>)"
    using entry_backward_step [OF s(1) en(5) bk(2), of y2 cp2 mt] b2 by simp_all
  let ?hp = "\<lparr>hp_entry = (e, ?h, mt), hp_middles = rev hs', hp_last = Some (le, lh', lm')\<rparr>"
  let ?cs = "cp2 # rev rcps @ [cpl2]"
  have "relays_extend rnd ?m hp = Some (?r\<lparr>data := y2\<rparr>, ?hp)"
    using e assms(2) en(1-3) hop(1) hs(1) la(1) bk(1) eb
    by (simp add: relays_extend_def carry_cell [OF rf(1)] carry_cell [OF eb(2)])
  moreover have "apply_each (apply_backward P) (rev rcs) (data (?r\<lparr>data := y2\<rparr>)) = (data created, ?cs)"
    using backward_layers [OF x b1 b2, of "onion_keys_new [] (rev rcs)"] f(4)
    by (simp add: onion_keys_new_def onion_decrypt_def split: prod.splits)
  moreover have "hp_sync P cid True ?hp ?cs"
    using s(1) id1 en(2,6) bk(3) la(2) by (simp add: hp_sync_def dialled_def list_all2_rev1 del: last_sync.simps)
  ultimately show ?thesis using eb(2) by (intro exI conjI) (assumption | simp add: msg_defs)+
qed

section \<open>The new hop\<close>

text \<open>A relay that is to become a hop: its descriptor, its process and the connection it is asked on.\<close>

record new_hop =
  nw_node :: node_descriptor
  nw_env :: relay_env
  nw_relay :: relay_node
  nw_prev :: "nat option"
  nw_world :: exit_world

definition hop_create :: "u32 \<Rightarrow> bytes \<Rightarrow> new_hop \<Rightarrow> reply \<times> circuit_handler \<times> exit_world" where
  "hop_create cid pub nh =
     ch_handle_message (nw_env nh, nw_prev nh) (msg_create cid pub) (rn_new_handler (nw_relay nh) cid, nw_world nh)"

definition hop_of :: "prims \<Rightarrow> new_hop \<Rightarrow> bool" where
  "hop_of P nh = relay_of P (nw_env nh) (nw_relay nh) (nw_node nh)"

definition hop_handshake :: "prims \<Rightarrow> new_hop \<Rightarrow> bytes \<Rightarrow> bytes \<times> bytes \<times> session_key" where
  "hop_handshake P nh pub = kp_ntor_server_handshake P (re_secret (nw_env nh)) (rn_keypair (nw_relay nh)) pub"

text \<open>What a fresh handler of each type is after it has answered.\<close>

fun fresh_hop :: "u32 \<Rightarrow> session_key \<Rightarrow> node_type \<Rightarrow> circuit_handler \<times> exit_world \<Rightarrow> bool" where
  "fresh_hop cid k Entry (EntryHandler h, w) = (cx_cipher_pair (eh_context h) = Some (cipher_pair_new k) \<and>
     cx_circuit_id (eh_context h) = cid \<and> eh_next_hop h = None)"
| "fresh_hop cid k Middle (MiddleHandler h, w) = (cx_cipher_pair (mh_context h) = Some (cipher_pair_new k) \<and>
     cx_circuit_id (mh_context h) = cid \<and> mh_next_hop h = None)"
| "fresh_hop cid k Exit (ExitHandler h, w) = (exit_wf (h, w) \<and> (case xh_shared h of None \<Rightarrow> False | Some a \<Rightarrow>
     xw_cryptos w ! a = \<lparr>ec_cipher = cipher_pair_new k, ec_forward_digest = running_digest_new,
       ec_backward_digest = running_digest_new\<rparr>))"
| "fresh_hop cid k t st = False"

lemma hop_create_ok:
  assumes "hop_of P nh" "length pub = 32" "hop_handshake P nh pub = (y, auth, k)"
  shows "\<exists>h w. hop_create cid pub nh = (Inr (Some (msg_created cid (y @ auth))), (h, w)) \<and>
    fresh_hop cid k (rn_type (nw_relay nh)) (h, w)"
proof -
  have hs: "kp_ntor_server_handshake (re_prims (nw_env nh)) (re_secret (nw_env nh)) (rn_keypair (nw_relay nh)) pub = (y, auth, k)"
    using assms(1,3) by (simp add: hop_of_def relay_of_def hop_handshake_def)
  have m: "command (msg_create cid pub) = Create" "data (msg_create cid pub) = pub" by (simp_all add: msg_defs)
  show ?thesis
    using hs m assms(2)
    by (cases "rn_type (nw_relay nh)")
      (simp_all add: hop_create_def rn_new_handler_def entry_set_metrics_def entry_new_def cx_new_def entry_handle_message_def
        entry_create_ok middle_set_metrics_def middle_new_def middle_handle_message_def middle_create_ok
        exit_set_metrics_def exit_new_def exit_handle_message_def exit_create_ok exit_wf_def cx_wf_def cx_activate_def)
qed

lemma hop_create_exit:
  assumes "snd (hop_create cid pub nh) = (ExitHandler xh, w)"
  shows "xh_streams xh = [] \<and> xw_writers w = xw_writers (nw_world nh)"
  using assms
  by (cases "rn_type (nw_relay nh)")
    (auto simp: hop_create_def rn_new_handler_def exit_set_metrics_def exit_new_def exit_handle_message_def exit_handle_create_def
      msg_defs Let_def split: prod.splits option.splits if_splits)

section \<open>The client's step\<close>

lemma conn_exchange_up:
  assumes "conn_answers s m resp" "msg_fits m"
  shows "\<exists>s1 s2. conn_send m s = (Inr (), s1) \<and> conn_recv s1 = (Some (Inr (Some resp)), s2) \<and> wr_room (cn_write s2) = None"
  using assms by (auto simp: conn_answers_def conn_send_def conn_recv_def write_to_stream_ok split: option.splits)

lemma hop_ntor:
  assumes "prims_wf P" "dh_agrees P" "hop_of P nh" "length secret = 32"
    and "hop_handshake P nh (pk_bytes (kp_public (kp_generate P secret))) = (y, auth, k)"
  shows "ntor_client_finish_raw P (kp_secret (kp_generate P secret)) (pk_bytes (kp_public (kp_generate P secret)))
      (pk_bytes (public_key (nw_node nh))) y auth = Inr k" "length y = 32" "length auth = 32"
    "length (pk_bytes (kp_public (kp_generate P secret))) = 32"
proof -
  have R: "length (re_secret (nw_env nh)) = 32" "kp_wf P (rn_keypair (nw_relay nh))"
    "public_key (nw_node nh) = kp_public (rn_keypair (nw_relay nh))" using assms(3) by (simp_all add: hop_of_def relay_of_def)
  have c: "kp_wf P (kp_generate P secret)" using assms(4) by (simp add: kp_wf_def kp_generate_def)
  from ntor_agreement [OF assms(1,2) R(2) c R(1) assms(5) [unfolded hop_handshake_def], of auth] R(3)
  show "ntor_client_finish_raw P (kp_secret (kp_generate P secret)) (pk_bytes (kp_public (kp_generate P secret)))
      (pk_bytes (public_key (nw_node nh))) y auth = Inr k" "length y = 32" "length auth = 32" by simp_all
  show "length (pk_bytes (kp_public (kp_generate P secret))) = 32"
    using assms(1,4) by (simp add: kp_generate_def prims_wf_def)
qed

lemma handshake_create_ok:
  assumes "prims_wf P" "dh_agrees P" "hop_of P nh" "length secret = 32"
    and "pub = pk_bytes (kp_public (kp_generate P secret))" "hop_handshake P nh pub = (y, auth, k)"
    and "conn_answers s (msg_create cid pub) (msg_created cid (y @ auth))"
  shows "\<exists>s'. handshake_create P cid secret (nw_node nh) s = (Inr k, s') \<and> wr_room (cn_write s') = None"
proof -
  note n = hop_ntor [OF assms(1-4) assms(6) [unfolded assms(5)]]
  obtain s1 s2 where "conn_send (msg_create cid pub) s = (Inr (), s1)"
    "conn_recv s1 = (Some (Inr (Some (msg_created cid (y @ auth)))), s2)" "wr_room (cn_write s2) = None"
    using conn_exchange_up [OF assms(7) create_fits] n(4) assms(5) by blast
  with n split_64 [of y auth] show ?thesis
    by (simp add: handshake_create_def Let_def assms(5) [symmetric] msg_defs)
qed

lemma handshake_extend_ok:
  assumes "prims_wf P" "dh_agrees P" "hop_of P nh" "length secret = 32"
    and "pub = pk_bytes (kp_public (kp_generate P secret))" "hop_handshake P nh pub = (y, auth, k)"
    and "apply_each (apply_forward P) (rev cs) (extend_payload (nw_node nh) pub) = (z, rcs)"
    and "msg_fits (msg_extend cid z)" "conn_answers s (msg_extend cid z) answer" "command answer = Extended"
    and "apply_each (apply_backward P) (rev rcs) (data answer) = (y @ auth, cs2)"
  shows "\<exists>s'. handshake_extend P cid secret (nw_node nh) cs s = (Inr k, cs2, s') \<and> wr_room (cn_write s') = None"
proof -
  note n = hop_ntor [OF assms(1-4) assms(6) [unfolded assms(5)]]
  obtain s1 s2 where ex: "conn_send (msg_extend cid z) s = (Inr (), s1)"
    "conn_recv s1 = (Some (Inr (Some answer)), s2)" "wr_room (cn_write s2) = None"
    using conn_exchange_up [OF assms(9,8)] by blast
  have "finish_extended P (kp_generate P secret) (nw_node nh) (y @ auth) = Inr k"
    using n split_64 [of y auth] by (simp add: finish_extended_def)
  with ex assms(7,10,11) show ?thesis
    by (simp add: handshake_extend_def Let_def assms(5) [symmetric])
qed

section \<open>The path grows\<close>

lemma relays_extend_ok:
  assumes "hp_sync P cid False hp cs" "length pub = 32" "extendable node"
    and "hop_answers P cid pub (hp_dialler hp) node created" "command created = Created" "length (data created) = 64"
    and "apply_each (apply_forward P) (rev cs) (extend_payload node pub) = (z, rcs)"
  shows "\<exists>answer hp1 cs2. relays_extend rnd (msg_extend cid z) hp = Some (answer, hp1) \<and> msg_fits answer \<and>
    command answer = Extended \<and> apply_each (apply_backward P) (rev rcs) (data answer) = (data created, cs2) \<and>
    hp_sync P cid True hp1 cs2"
proof (cases "hp_last hp")
  case None
  from relays_extend_first [OF assms(1) this assms(2-)] show ?thesis by blast
next
  case (Some l)
  obtain le lh lm where "l = (le, lh, lm)" by (metis prod_cases3)
  with relays_extend_next [OF assms(1) _ assms(2-)] Some show ?thesis by blast
qed

text \<open>The last hop has dialled: the middle it dialled is the last hop from now on.\<close>

definition hp_attach :: "middle_hop \<Rightarrow> half_path \<Rightarrow> half_path" where
  "hp_attach l hp = hp\<lparr>hp_middles := hp_middles hp @ (case hp_last hp of None \<Rightarrow> [] | Some l \<Rightarrow> [l]), hp_last := Some l\<rparr>"

text \<open>Or it has dialled the exit, and the path is whole.\<close>

definition hp_path :: "client_end \<Rightarrow> half_path \<Rightarrow> relay_env \<times> exit_state \<Rightarrow> path_state" where
  "hp_path ce hp x = \<lparr>ps_client = ce, ps_entry = hp_entry hp,
     ps_middles = hp_middles hp @ (case hp_last hp of None \<Rightarrow> [] | Some l \<Rightarrow> [l]), ps_exit = x\<rparr>"

lemma last_is_ready: "last_sync P cid True l cp \<Longrightarrow> middle_ready P l cp"
  by (cases l) (auto simp: dialled_def split: option.splits)

lemma hp_syncE:
  assumes "hp_sync P cid True hp cs"
  obtains e h mt cp hop ds where "hp_entry hp = (e, h, mt)" "re_prims e = P" "cx_circuit_id (eh_context h) = cid"
    "cx_cipher_pair (eh_context h) = Some cp" "eh_next_hop h = Some hop" "wr_room (nh_write hop) = None" "cs = cp # ds"
    "list_all2 (middle_ready P) (hp_middles hp @ (case hp_last hp of None \<Rightarrow> [] | Some l \<Rightarrow> [l])) ds"
proof -
  obtain e h mt where e: "hp_entry hp = (e, h, mt)" by (metis prod_cases3)
  have d: "dialled True (eh_next_hop h)" using assms e by (auto simp: hp_sync_def split: option.splits)
  then obtain hop where hop: "eh_next_hop h = Some hop" "wr_room (nh_write hop) = None"
    by (auto simp: dialled_def split: option.splits)
  show ?thesis
  proof (cases "hp_last hp")
    case None
    then obtain cp where "cs = [cp]" "cx_cipher_pair (eh_context h) = Some cp" "hp_middles hp = []"
      using assms e by (auto simp: hp_sync_def split: list.splits)
    with that [OF e _ _ _ hop] assms e None show ?thesis by (simp add: hp_sync_def)
  next
    case (Some l)
    then obtain cp ds where c: "cs = cp # ds" "cx_cipher_pair (eh_context h) = Some cp" "ds \<noteq> []"
      "list_all2 (middle_ready P) (hp_middles hp) (butlast ds)" "last_sync P cid True l (last ds)"
      using assms e by (auto simp: hp_sync_def split: list.splits)
    have "list_all2 (middle_ready P) (hp_middles hp @ [l]) (butlast ds @ [last ds])"
      using c(4) last_is_ready [OF c(5)] by (simp add: list_all2_appendI)
    then have "list_all2 (middle_ready P) (hp_middles hp @ [l]) ds" using c(3) by simp
    with that [OF e _ _ c(2) hop c(1)] assms e Some show ?thesis by (simp add: hp_sync_def)
  qed
qed

lemma hp_attach_sync:
  assumes "hp_sync P cid True hp cs" "last_sync P cid False l cp"
  shows "hp_sync P cid False (hp_attach l hp) (cs @ [cp])"
  by (rule hp_syncE [OF assms(1)])
    (use assms(2) in \<open>simp add: hp_sync_def hp_attach_def dialled_def butlast_append\<close>)

lemma hp_path_sync:
  assumes "hp_sync P cid True hp cs" "fresh_hop cid k Exit (ExitHandler xh, w)" "re_prims xe = P"
    and "ci_onion_keys (ce_circuit ce) = onion_keys_new ks (cs @ [cipher_pair_new k])"
    and "wr_room (ci_entry_writer (ce_circuit ce)) = None"
  shows "path_sync P (hp_path ce hp (xe, xh, w))"
proof -
  obtain a where a: "xh_shared xh = Some a" "exit_wf (xh, w)" "xw_cryptos w ! a = \<lparr>ec_cipher = cipher_pair_new k,
      ec_forward_digest = running_digest_new, ec_backward_digest = running_digest_new\<rparr>"
    using assms(2) by (auto split: option.splits)
  obtain e h mt cp hop ds where s: "hp_entry hp = (e, h, mt)" "re_prims e = P"
    "cx_cipher_pair (eh_context h) = Some cp" "eh_next_hop h = Some hop" "wr_room (nh_write hop) = None" "cs = cp # ds"
    "list_all2 (middle_ready P) (hp_middles hp @ (case hp_last hp of None \<Rightarrow> [] | Some l \<Rightarrow> [l])) ds"
    by (rule hp_syncE [OF assms(1)])
  show ?thesis
    by (rule path_syncI [of _ e h mt xe xh w cp hop a P ds])
      (use s a assms(3-5) in \<open>simp_all add: hp_path_def ps_keys_def onion_keys_new_def\<close>)
qed

section \<open>The run of the builder\<close>

definition build_request :: "prims \<Rightarrow> u32 \<Rightarrow> bytes \<Rightarrow> node_descriptor \<Rightarrow> cipher_pair list \<Rightarrow> message" where
  "build_request P cid pub node cs =
     msg_extend cid (fst (apply_each (apply_forward P) (rev cs) (extend_payload node pub)))"

definition build_pub :: "prims \<Rightarrow> bytes \<Rightarrow> bytes" where
  "build_pub P secret = pk_bytes (kp_public (kp_generate P secret))"

text \<open>
  The relays alongside the builder, hop after hop: they get the requests the client sends,
  the new hop gets the CREATE. The result is the path before the exit, and the exit.
\<close>

fun relays_build :: "(nat \<Rightarrow> byte) \<Rightarrow> prims \<Rightarrow> u32 \<Rightarrow> (nat \<Rightarrow> bytes) \<Rightarrow> nat \<Rightarrow> new_hop list \<Rightarrow> cipher_pair list
   \<Rightarrow> entry_conn \<Rightarrow> half_path \<Rightarrow> (half_path \<times> relay_env \<times> exit_state) option"
where
  "relays_build rnd P cid sec i [] cs s hp = None"
| "relays_build rnd P cid sec i (nh # nhs) cs s hp =
     (let pub = build_pub P (sec i) in
      case relays_extend rnd (build_request P cid pub (nw_node nh) cs) hp of None \<Rightarrow> None | Some (answer, hp) \<Rightarrow>
      case handshake_extend P cid (sec i) (nw_node nh) cs s of
        (Inl er, _) \<Rightarrow> None
      | (Inr k, cs, s) \<Rightarrow>
          (case snd (hop_create cid pub nh) of
             (MiddleHandler h, w) \<Rightarrow>
               relays_build rnd P cid sec (Suc i) nhs (cs @ [cipher_pair_new k]) s (hp_attach (nw_env nh, h, xw_rm w) hp)
           | (ExitHandler h, w) \<Rightarrow> if nhs = [] then Some (hp, nw_env nh, (h, w)) else None
           | _ \<Rightarrow> None))"

text \<open>
  Where the network comes in. Every relay of the path reaches the next one: behind the address
  it is told to dial stands the hop, and answers CREATE. And the client's connection brings
  back what the relays answer to each request.
\<close>

fun hops_linked :: "prims \<Rightarrow> u32 \<Rightarrow> (nat \<Rightarrow> bytes) \<Rightarrow> nat \<Rightarrow> relay_env \<Rightarrow> new_hop list \<Rightarrow> bool" where
  "hops_linked P cid sec i e [] = True"
| "hops_linked P cid sec i e (nh # nhs) =
     ((case fst (hop_create cid (build_pub P (sec i)) nh) of
         Inr (Some created) \<Rightarrow> hop_answers P cid (build_pub P (sec i)) e (nw_node nh) created
       | _ \<Rightarrow> True) \<and>
      hops_linked P cid sec (Suc i) (nw_env nh) nhs)"

fun connection_carries :: "(nat \<Rightarrow> byte) \<Rightarrow> prims \<Rightarrow> u32 \<Rightarrow> (nat \<Rightarrow> bytes) \<Rightarrow> nat \<Rightarrow> new_hop list \<Rightarrow> cipher_pair list
   \<Rightarrow> entry_conn \<Rightarrow> half_path \<Rightarrow> bool"
where
  "connection_carries rnd P cid sec i [] cs s hp = True"
| "connection_carries rnd P cid sec i (nh # nhs) cs s hp =
     (let pub = build_pub P (sec i); request = build_request P cid pub (nw_node nh) cs in
      case relays_extend rnd request hp of None \<Rightarrow> True | Some (answer, hp) \<Rightarrow>
        conn_answers s request answer \<and>
        (case handshake_extend P cid (sec i) (nw_node nh) cs s of
           (Inl er, _) \<Rightarrow> True
         | (Inr k, cs, s) \<Rightarrow>
             (case snd (hop_create cid pub nh) of
                (MiddleHandler h, w) \<Rightarrow>
                  connection_carries rnd P cid sec (Suc i) nhs (cs @ [cipher_pair_new k]) s (hp_attach (nw_env nh, h, xw_rm w) hp)
              | _ \<Rightarrow> True)))"

definition path_types :: "new_hop list \<Rightarrow> bool" where
  "path_types nhs = (nhs \<noteq> [] \<and> (\<forall>nh \<in> set (butlast nhs). rn_type (nw_relay nh) = Middle) \<and>
     rn_type (nw_relay (last nhs)) = Exit)"

lemma build_step:
  assumes "prims_wf P" "dh_agrees P" "hop_of P nh" "length secret = 32" "extendable (nw_node nh)"
    and "hp_sync P cid False hp cs" "pub = build_pub P secret" "request = build_request P cid pub (nw_node nh) cs"
    and "\<forall>created. fst (hop_create cid pub nh) = Inr (Some created) \<longrightarrow> hop_answers P cid pub (hp_dialler hp) (nw_node nh) created"
  obtains answer hp1 k cs1 h w where "relays_extend rnd request hp = Some (answer, hp1)" "msg_fits request" "msg_fits answer"
    "snd (hop_create cid pub nh) = (h, w)" "hp_sync P cid True hp1 cs1" "fresh_hop cid k (rn_type (nw_relay nh)) (h, w)"
    "\<forall>s. conn_answers s request answer \<longrightarrow>
       (\<exists>s1. handshake_extend P cid secret (nw_node nh) cs s = (Inr k, cs1, s1) \<and> wr_room (cn_write s1) = None)"
proof -
  obtain y auth k where hs: "hop_handshake P nh pub = (y, auth, k)" by (metis prod_cases3)
  note n = hop_ntor [OF assms(1-4) hs [unfolded assms(7) build_pub_def]]
  have pub: "length pub = 32" using n(4) by (simp add: assms(7) build_pub_def)
  let ?created = "msg_created cid (y @ auth)"
  obtain h w where create: "hop_create cid pub nh = (Inr (Some ?created), (h, w))" "fresh_hop cid k (rn_type (nw_relay nh)) (h, w)"
    using hop_create_ok [OF assms(3) pub hs, of cid] by blast
  have c: "command ?created = Created" "data ?created = y @ auth" "length (data ?created) = 64"
    using n(2,3) by (simp_all add: msg_defs)
  obtain z rcs where z: "apply_each (apply_forward P) (rev cs) (extend_payload (nw_node nh) pub) = (z, rcs)" by force
  have req: "request = msg_extend cid z" using z by (simp add: assms(8) build_request_def)
  obtain answer hp1 cs1 where r: "relays_extend rnd request hp = Some (answer, hp1)" "msg_fits answer" "command answer = Extended"
    "apply_each (apply_backward P) (rev rcs) (data answer) = (y @ auth, cs1)" "hp_sync P cid True hp1 cs1"
    using relays_extend_ok [OF assms(6) pub assms(5) _ c(1,3) z, of rnd] assms(9) create(1) c(2) req by auto
  have "length z = length (extend_payload (nw_node nh) pub)"
    using pair.fw.each_length [of P "rev cs" "extend_payload (nw_node nh) pub"] z by simp
  then have fits: "msg_fits (msg_extend cid z)" using extendableD(3) [OF assms(5) pub] extended_fits by simp
  have "\<exists>s1. handshake_extend P cid secret (nw_node nh) cs s = (Inr k, cs1, s1) \<and> wr_room (cn_write s1) = None"
    if "conn_answers s request answer" for s
    using handshake_extend_ok [OF assms(1-4) _ hs z fits _ r(3,4)] assms(7) that req by (auto simp: build_pub_def)
  with that [OF r(1) _ r(2) _ r(5) create(2)] create(1) fits req show ?thesis by simp
qed

lemma hp_sync_first:
  "fresh_hop cid k Entry (EntryHandler h, w) \<Longrightarrow> re_prims e = P \<Longrightarrow>
   hp_sync P cid False \<lparr>hp_entry = (e, h, mt), hp_middles = [], hp_last = None\<rparr> [cipher_pair_new k]"
  by (simp add: hp_sync_def dialled_def)

lemma fresh_type:
  "fresh_hop cid k Entry (h, w) \<Longrightarrow> \<exists>eh. h = EntryHandler eh"
  "fresh_hop cid k Middle (h, w) \<Longrightarrow> \<exists>mh. h = MiddleHandler mh"
  "fresh_hop cid k Exit (h, w) \<Longrightarrow> \<exists>xh. h = ExitHandler xh"
  by (cases h; simp)+

text \<open>The EXTEND loop and the relays, over any number of hops.\<close>

lemma build_loop:
  assumes "prims_wf P" "dh_agrees P" "\<forall>i. length (sec i) = 32"
    and "\<forall>nh \<in> set nhs. hop_of P nh \<and> extendable (nw_node nh)" "path_types nhs"
    and "hp_sync P cid False hp cs" "hops_linked P cid sec i (hp_dialler hp) nhs" "connection_carries rnd P cid sec i nhs cs s hp"
  shows "\<exists>ks' cs0 k s' hp' xe xh w.
    extend_loop P cid sec i (map nw_node nhs) ks cs s = (Inr (ks', cs0 @ [cipher_pair_new k]), s') \<and>
    relays_build rnd P cid sec i nhs cs s hp = Some (hp', xe, (xh, w)) \<and> wr_room (cn_write s') = None \<and>
    re_prims xe = P \<and> hp_sync P cid True hp' cs0 \<and> fresh_hop cid k Exit (ExitHandler xh, w) \<and>
    xe = nw_env (last nhs) \<and> xh_streams xh = [] \<and> xw_writers w = xw_writers (nw_world (last nhs))"
  using assms(4-)
proof (induction nhs arbitrary: i ks cs s hp)
  case (Cons nh nhs)
  let ?pub = "build_pub P (sec i)"
  let ?request = "build_request P cid ?pub (nw_node nh) cs"
  have nh: "hop_of P nh" "extendable (nw_node nh)" "length (sec i) = 32" using Cons.prems(1) assms(3) by simp_all
  have net: "\<forall>created. fst (hop_create cid ?pub nh) = Inr (Some created) \<longrightarrow> hop_answers P cid ?pub (hp_dialler hp) (nw_node nh) created"
    using Cons.prems(4) by auto
  obtain answer hp1 k cs1 h w where st': "relays_extend rnd ?request hp = Some (answer, hp1)"
    "snd (hop_create cid ?pub nh) = (h, w)" "hp_sync P cid True hp1 cs1" "fresh_hop cid k (rn_type (nw_relay nh)) (h, w)"
    "\<forall>s. conn_answers s ?request answer \<longrightarrow>
       (\<exists>s1. handshake_extend P cid (sec i) (nw_node nh) cs s = (Inr k, cs1, s1) \<and> wr_room (cn_write s1) = None)"
    by (rule build_step [OF assms(1,2) nh(1,3,2) Cons.prems(3) refl refl net])
  have "conn_answers s ?request answer" using Cons.prems(5) st'(1) by (simp add: Let_def)
  then obtain s1 where st: "relays_extend rnd ?request hp = Some (answer, hp1)"
    "handshake_extend P cid (sec i) (nw_node nh) cs s = (Inr k, cs1, s1)" "snd (hop_create cid ?pub nh) = (h, w)"
    "hp_sync P cid True hp1 cs1" "fresh_hop cid k (rn_type (nw_relay nh)) (h, w)" "wr_room (cn_write s1) = None"
    using st' by blast
  have env: "re_prims (nw_env nh) = P" using nh(1) by (simp add: hop_of_def relay_of_def)
  show ?case
  proof (cases "nhs = []")
    case True
    with Cons.prems(2) st(5) have x: "fresh_hop cid k Exit (h, w)" by (simp add: path_types_def)
    then obtain xh where h: "h = ExitHandler xh" using fresh_type(3) by blast
    with hop_create_exit [of cid ?pub nh xh w] x st env True show ?thesis
      by (auto simp del: fresh_hop.simps simp: Let_def)
  next
    case False
    with Cons.prems(2) have t: "rn_type (nw_relay nh) = Middle" "path_types nhs" by (simp_all add: path_types_def)
    obtain mh where h: "h = MiddleHandler mh" using st(5) t(1) fresh_type(2) by metis
    let ?l = "(nw_env nh, mh, xw_rm w)"
    have "last_sync P cid False ?l (cipher_pair_new k)"
      using st(5) env by (simp add: t(1) h dialled_def)
    from hp_attach_sync [OF st(4) this]
    have s: "hp_sync P cid False (hp_attach ?l hp1) (cs1 @ [cipher_pair_new k])" .
    have l: "hops_linked P cid sec (Suc i) (hp_dialler (hp_attach ?l hp1)) nhs"
      using Cons.prems(4) by (simp add: hp_dialler_def hp_attach_def)
    have "connection_carries rnd P cid sec (Suc i) nhs (cs1 @ [cipher_pair_new k]) s1 (hp_attach ?l hp1)"
      using Cons.prems(5) st(1-3) by (simp add: Let_def h)
    from Cons.IH [OF _ t(2) s l this] Cons.prems(1) st(1-3) False show ?thesis
      by (simp del: fresh_hop.simps add: Let_def h)
  qed
qed (simp add: path_types_def)

text \<open>The builder from the CREATE on.\<close>

definition relays_run :: "(nat \<Rightarrow> byte) \<Rightarrow> prims \<Rightarrow> u32 \<Rightarrow> (nat \<Rightarrow> bytes) \<Rightarrow> new_hop \<Rightarrow> new_hop list \<Rightarrow> entry_conn
   \<Rightarrow> (half_path \<times> relay_env \<times> exit_state) option"
where
  "relays_run rnd P cid sec eh nhs s =
     (case (snd (hop_create cid (build_pub P (sec 0)) eh), handshake_create P cid (sec 0) (nw_node eh) s) of
        ((EntryHandler h, w), Inr k, s) \<Rightarrow>
          relays_build rnd P cid sec 1 nhs [cipher_pair_new k] s
            \<lparr>hp_entry = (nw_env eh, h, xw_rm w), hp_middles = [], hp_last = None\<rparr>
      | _ \<Rightarrow> None)"

definition connection_run :: "(nat \<Rightarrow> byte) \<Rightarrow> prims \<Rightarrow> u32 \<Rightarrow> (nat \<Rightarrow> bytes) \<Rightarrow> new_hop \<Rightarrow> new_hop list \<Rightarrow> entry_conn \<Rightarrow> bool" where
  "connection_run rnd P cid sec eh nhs s =
     (let pub = build_pub P (sec 0) in
      (case fst (hop_create cid pub eh) of
         Inr (Some created) \<Rightarrow> conn_answers s (msg_create cid pub) created
       | _ \<Rightarrow> True) \<and>
      (case (snd (hop_create cid pub eh), handshake_create P cid (sec 0) (nw_node eh) s) of
         ((EntryHandler h, w), Inr k, s) \<Rightarrow>
           connection_carries rnd P cid sec 1 nhs [cipher_pair_new k] s
             \<lparr>hp_entry = (nw_env eh, h, xw_rm w), hp_middles = [], hp_last = None\<rparr>
       | _ \<Rightarrow> True))"

lemma circuit_build:
  assumes "prims_wf P" "dh_agrees P" "\<forall>i. length (sec i) = 32"
    and "hop_of P eh" "rn_type (nw_relay eh) = Entry"
    and "2 \<le> length nhs" "\<forall>nh \<in> set nhs. hop_of P nh \<and> extendable (nw_node nh)" "path_types nhs"
    and "transport_connect P net (address (nw_node eh)) (tls_cert_fingerprint (nw_node eh)) = Inr s"
    and "hops_linked P cid sec 1 (nw_env eh) nhs" "connection_run rnd P cid sec eh nhs s"
  shows "\<exists>c rd hp x. build_circuit_on P net sec cid (map nw_node (eh # nhs)) = Inr (c, rd) \<and>
    relays_run rnd P cid sec eh nhs s = Some (hp, x) \<and> ci_circuit_id c = cid \<and> ci_state c = CReady \<and>
    ci_stream_senders c = [] \<and> ci_next_stream_id c = 1 \<and> fst x = nw_env (last nhs) \<and> xh_streams (fst (snd x)) = [] \<and>
    xw_writers (snd (snd x)) = xw_writers (nw_world (last nhs)) \<and>
    (\<forall>ce. ce_circuit ce = c \<longrightarrow> path_sync P (hp_path ce hp x))"
proof -
  let ?pub = "build_pub P (sec 0)"
  obtain y auth k where hs: "hop_handshake P eh ?pub = (y, auth, k)" by (metis prod_cases3)
  have pub: "length ?pub = 32" using hop_ntor(4) [OF assms(1,2,4) _ hs [unfolded build_pub_def]] assms(3) by (simp add: build_pub_def)
  obtain h w where create: "hop_create cid ?pub eh = (Inr (Some (msg_created cid (y @ auth))), (h, w))" "fresh_hop cid k Entry (h, w)"
    using hop_create_ok [OF assms(4) pub hs, of cid] assms(5) by auto
  obtain en where en: "h = EntryHandler en" using fresh_type(1) [OF create(2)] by blast
  have ans: "conn_answers s (msg_create cid ?pub) (msg_created cid (y @ auth))"
    using assms(11) create(1) by (simp add: connection_run_def Let_def)
  obtain s1 where hc: "handshake_create P cid (sec 0) (nw_node eh) s = (Inr k, s1)"
    using handshake_create_ok [OF assms(1,2,4) _ _ hs ans] assms(3) by (auto simp: build_pub_def)
  let ?hp = "\<lparr>hp_entry = (nw_env eh, en, xw_rm w), hp_middles = [], hp_last = None\<rparr>"
  have hp: "hp_sync P cid False ?hp [cipher_pair_new k]"
    using create(2) assms(4) by (intro hp_sync_first) (simp_all add: en hop_of_def relay_of_def)
  have "connection_carries rnd P cid sec 1 nhs [cipher_pair_new k] s1 ?hp"
    using assms(11) create(1) hc by (simp add: connection_run_def Let_def en)
  from build_loop [OF assms(1-3,7,8) hp _ this, of "[k]"] assms(10)
  obtain ks cs0 kx s2 hp' xe xh xw where l: "extend_loop P cid sec 1 (map nw_node nhs) [k] [cipher_pair_new k] s1 =
      (Inr (ks, cs0 @ [cipher_pair_new kx]), s2)"
    "relays_build rnd P cid sec 1 nhs [cipher_pair_new k] s1 ?hp = Some (hp', xe, (xh, xw))"
    "wr_room (cn_write s2) = None" "re_prims xe = P" "hp_sync P cid True hp' cs0" "fresh_hop cid kx Exit (ExitHandler xh, xw)"
    "xe = nw_env (last nhs)" "xh_streams xh = []" "xw_writers xw = xw_writers (nw_world (last nhs))"
    by (auto simp: hp_dialler_def simp del: fresh_hop.simps)
  have "relays_run rnd P cid sec eh nhs s = Some (hp', xe, (xh, xw))"
    using create(1) hc l(2) by (simp add: relays_run_def en)
  moreover have "path_sync P (hp_path ce hp' (xe, (xh, xw)))"
    if "ci_onion_keys (ce_circuit ce) = onion_keys_new ks (cs0 @ [cipher_pair_new kx])"
      "wr_room (ci_entry_writer (ce_circuit ce)) = None" for ce
    using hp_path_sync [OF l(5,6,4) that] .
  ultimately show ?thesis
    using assms(6,9) hc l(1,3,7,8,9) by (simp add: build_circuit_on_def)
qed

section \<open>A connection that carries the answers\<close>

text \<open>The rest of the entry's side of the connection is the cells \<open>ms\<close>.\<close>

definition feeds :: "entry_conn \<Rightarrow> message list \<Rightarrow> bool" where
  "feeds s ms = (wr_room (cn_write s) = None \<and> (\<exists>A. (\<forall>bs. peer_reply (cn_peer s) bs = Some \<lparr>rd_bytes = A, rd_broken = False\<rparr>) \<and>
     drop (cn_read s) A = concat (map (to_bytes (\<lambda>i. 0)) ms)))"

lemma feeds_next:
  assumes "feeds s (r # rs)" "msg_fits r" "msg_fits m"
  shows "conn_answers s m r" "feeds (snd (conn_recv (snd (conn_send m s)))) rs"
proof -
  obtain A where A: "wr_room (cn_write s) = None" "\<forall>bs. peer_reply (cn_peer s) bs = Some \<lparr>rd_bytes = A, rd_broken = False\<rparr>"
    "drop (cn_read s) A = to_bytes (\<lambda>i. 0) r @ concat (map (to_bytes (\<lambda>i. 0)) rs)"
    using assms(1) by (auto simp: feeds_def)
  have "drop (CELL_SIZE + cn_read s) A = concat (map (to_bytes (\<lambda>i. 0)) rs)"
    using A(3) length_to_bytes [of r "\<lambda>i. 0"] assms(2) by (simp add: drop_drop [symmetric] msg_fits_def del: drop_drop)
  with A from_stream_cell [OF assms(2), of "\<lambda>i. 0" "concat (map (to_bytes (\<lambda>i. 0)) rs)" False] assms(3)
  show "conn_answers s m r" "feeds (snd (conn_recv (snd (conn_send m s)))) rs"
    by (simp_all add: conn_answers_def feeds_def conn_send_def conn_recv_def conn_remaining_def write_to_stream_ok add.commute)
qed

lemma handshake_extend_conn:
  assumes "wr_room (cn_write s) = None" "msg_fits (build_request P cid (build_pub P secret) node cs)"
  shows "snd (snd (handshake_extend P cid secret node cs s)) =
    snd (conn_recv (snd (conn_send (build_request P cid (build_pub P secret) node cs) s)))"
  using assms
  by (auto simp: handshake_extend_def Let_def build_request_def build_pub_def conn_send_def write_to_stream_ok
      split: prod.splits option.splits sum.splits)
text \<open>
  Such a connection exists for any path whose relays reach each other: the hypothesis on the
  client's connection is never contradictory.
\<close>

lemma connection_exists:
  assumes "prims_wf P" "dh_agrees P" "\<forall>i. length (sec i) = 32"
    and "\<forall>nh \<in> set nhs. hop_of P nh \<and> extendable (nw_node nh)"
    and "hp_sync P cid False hp cs" "hops_linked P cid sec i (hp_dialler hp) nhs"
  shows "\<exists>ms. \<forall>s. feeds s ms \<longrightarrow> connection_carries rnd P cid sec i nhs cs s hp"
  using assms(4-)
proof (induction nhs arbitrary: i cs hp)
  case (Cons nh nhs)
  let ?pub = "build_pub P (sec i)"
  let ?request = "build_request P cid ?pub (nw_node nh) cs"
  have nh: "hop_of P nh" "extendable (nw_node nh)" "length (sec i) = 32" using Cons.prems(1) assms(3) by simp_all
  have net: "\<forall>created. fst (hop_create cid ?pub nh) = Inr (Some created) \<longrightarrow> hop_answers P cid ?pub (hp_dialler hp) (nw_node nh) created"
    using Cons.prems(3) by auto
  obtain answer hp1 k cs1 h w where st: "relays_extend rnd ?request hp = Some (answer, hp1)" "msg_fits ?request" "msg_fits answer"
    "snd (hop_create cid ?pub nh) = (h, w)" "hp_sync P cid True hp1 cs1" "fresh_hop cid k (rn_type (nw_relay nh)) (h, w)"
    "\<forall>s. conn_answers s ?request answer \<longrightarrow>
       (\<exists>s1. handshake_extend P cid (sec i) (nw_node nh) cs s = (Inr k, cs1, s1) \<and> wr_room (cn_write s1) = None)"
    by (rule build_step [OF assms(1,2) nh(1,3,2) Cons.prems(2) refl refl net])
  have run: "conn_answers s ?request answer \<and> (\<exists>s1. handshake_extend P cid (sec i) (nw_node nh) cs s = (Inr k, cs1, s1) \<and> feeds s1 ms)"
    if "feeds s (answer # ms)" for s ms
  proof -
    note f = feeds_next [OF that st(3,2)]
    obtain s1 where s1: "handshake_extend P cid (sec i) (nw_node nh) cs s = (Inr k, cs1, s1)" using st(7) f(1) by blast
    have "wr_room (cn_write s) = None" using that by (simp add: feeds_def)
    from handshake_extend_conn [OF this st(2)] s1 f show ?thesis by simp
  qed
  show ?case
  proof (cases "\<exists>mh. h = MiddleHandler mh")
    case True
    then obtain mh where h: "h = MiddleHandler mh" by blast
    let ?l = "(nw_env nh, mh, xw_rm w)"
    have "last_sync P cid False ?l (cipher_pair_new k)"
      using st(6) nh(1) by (cases "rn_type (nw_relay nh)") (simp_all add: h dialled_def hop_of_def relay_of_def)
    from hp_attach_sync [OF st(5) this]
    have s: "hp_sync P cid False (hp_attach ?l hp1) (cs1 @ [cipher_pair_new k])" .
    have "hops_linked P cid sec (Suc i) (hp_dialler (hp_attach ?l hp1)) nhs"
      using Cons.prems(3) by (simp add: hp_dialler_def hp_attach_def)
    from Cons.IH [OF _ s this] Cons.prems(1) obtain ms where
      "\<forall>s. feeds s ms \<longrightarrow> connection_carries rnd P cid sec (Suc i) nhs (cs1 @ [cipher_pair_new k]) s (hp_attach ?l hp1)" by auto
    with run [of _ ms] st(1,4) h show ?thesis
      by (intro exI [of _ "answer # ms"]) (force simp: Let_def)
  next
    case False
    with run [of _ "[]"] st(1,4) show ?thesis
      by (intro exI [of _ "[answer]"]) (force simp: Let_def split: circuit_handler.split)
  qed
qed simp

lemma connection_run_exists:
  assumes "prims_wf P" "dh_agrees P" "\<forall>i. length (sec i) = 32"
    and "hop_of P eh" "rn_type (nw_relay eh) = Entry" "\<forall>nh \<in> set nhs. hop_of P nh \<and> extendable (nw_node nh)"
    and "hops_linked P cid sec 1 (nw_env eh) nhs"
  shows "\<exists>ms. \<forall>s. feeds s ms \<longrightarrow> connection_run rnd P cid sec eh nhs s"
proof -
  let ?pub = "build_pub P (sec 0)"
  obtain y auth k where hs: "hop_handshake P eh ?pub = (y, auth, k)" by (metis prod_cases3)
  note n = hop_ntor [OF assms(1,2,4) _ hs [unfolded build_pub_def]]
  have pub: "length ?pub = 32" using n(4) assms(3) by (simp add: build_pub_def)
  obtain h w where create: "hop_create cid ?pub eh = (Inr (Some (msg_created cid (y @ auth))), (h, w))" "fresh_hop cid k Entry (h, w)"
    using hop_create_ok [OF assms(4) pub hs, of cid] assms(5) by auto
  obtain en where en: "h = EntryHandler en" using fresh_type(1) [OF create(2)] by blast
  let ?hp = "\<lparr>hp_entry = (nw_env eh, en, xw_rm w), hp_middles = [], hp_last = None\<rparr>"
  have hp: "hp_sync P cid False ?hp [cipher_pair_new k]"
    using create(2) assms(4) by (intro hp_sync_first) (simp_all add: en hop_of_def relay_of_def)
  obtain ms where ms: "\<forall>s. feeds s ms \<longrightarrow> connection_carries rnd P cid sec 1 nhs [cipher_pair_new k] s ?hp"
    using connection_exists [OF assms(1-3,6) hp, of 1 rnd] assms(7) by (auto simp: hp_dialler_def)
  have "connection_run rnd P cid sec eh nhs s" if f: "feeds s (msg_created cid (y @ auth) # ms)" for s
  proof -
    have fits: "msg_fits (msg_created cid (y @ auth))" using created_fits n(2,3) assms(3) by simp
    note f = feeds_next [OF f fits create_fits [OF pub]]
    obtain s1 where s1: "handshake_create P cid (sec 0) (nw_node eh) s = (Inr k, s1)"
      using handshake_create_ok [OF assms(1,2,4) _ _ hs f(1)] assms(3) by (auto simp: build_pub_def)
    have "snd (handshake_create P cid (sec 0) (nw_node eh) s) = snd (conn_recv (snd (conn_send (msg_create cid ?pub) s)))"
      using f(1) create_fits [OF pub, of cid]
      by (auto simp: handshake_create_def Let_def build_pub_def conn_answers_def conn_send_def write_to_stream_ok
          split: prod.splits option.splits sum.splits)
    with f s1 ms create(1) show ?thesis by (simp add: connection_run_def Let_def en)
  qed
  then show ?thesis by blast
qed

section \<open>A circuit is built\<close>

text \<open>
  C5. Whatever the number of hops, an entry, middles and an exit that hold the keys of their
  descriptors and reach each other, and a client connected to the entry, the builder returns
  a ready circuit, and the relays, which are not told anything but the cells of the
  handshake, end with exactly its keys: client and relays are in the agreement in which
  every cell then travels, at every hop, in both directions.
\<close>

theorem circuit_build_sync:
  assumes "prims_wf P" "dh_agrees P" "\<forall>i. length (sec i) = 32"
    and "hop_of P eh" "rn_type (nw_relay eh) = Entry"
    and "2 \<le> length nhs" "\<forall>nh \<in> set nhs. hop_of P nh \<and> extendable (nw_node nh)" "path_types nhs"
    and "transport_connect P net (address (nw_node eh)) (tls_cert_fingerprint (nw_node eh)) = Inr s"
    and "hops_linked P cid sec 1 (nw_env eh) nhs" "connection_run rnd P cid sec eh nhs s"
  shows "\<exists>c rd hp x. build_circuit_on P net sec cid (map nw_node (eh # nhs)) = Inr (c, rd) \<and>
    relays_run rnd P cid sec eh nhs s = Some (hp, x) \<and> ci_circuit_id c = cid \<and> ci_state c = CReady \<and>
    ci_stream_senders c = [] \<and> ci_next_stream_id c = 1 \<and> fst x = nw_env (last nhs) \<and> xh_streams (fst (snd x)) = [] \<and>
    xw_writers (snd (snd x)) = xw_writers (nw_world (last nhs)) \<and>
    (\<forall>ce. ce_circuit ce = c \<longrightarrow> path_sync P (hp_path ce hp x))"
  using circuit_build [OF assms] .

definition sample_new_hop :: "node_type \<Rightarrow> u16 \<Rightarrow> relay_env \<Rightarrow> new_hop" where
  "sample_new_hop t port e = \<lparr>nw_node = sample_descriptor\<lparr>address := SocketAddr (V4 [10, 0, 0, 2]) port 0\<rparr>, nw_env = e,
     nw_relay = rn_new t (kp_generate toy_prims (replicate 32 3)) 0, nw_prev = None, nw_world = sample_world\<rparr>"

definition sample_reply :: "new_hop \<Rightarrow> message" where
  "sample_reply nh = (case fst (hop_create 1 sample_pub nh) of Inr (Some created) \<Rightarrow> created | _ \<Rightarrow> msg_created 1 [])"

definition sample_reaches :: "new_hop \<Rightarrow> relay_env" where
  "sample_reaches nh = sample_env\<lparr>re_net := (\<lambda>a. if a = address (nw_node nh) then Some (sample_peer (sample_reply nh)) else None)\<rparr>"

definition sample_hops :: "new_hop list" where
  "sample_hops = (let x = sample_new_hop Exit 9003 sample_env; m = sample_new_hop Middle 9002 (sample_reaches x) in
     [sample_new_hop Entry 9001 (sample_reaches m), m, x])"

lemma sample_new_hop_of: "re_prims e = toy_prims \<Longrightarrow> length (re_secret e) = 32 \<Longrightarrow> hop_of toy_prims (sample_new_hop t port e)"
  by (simp add: hop_of_def sample_new_hop_def relay_of_def rn_new_def sample_descriptor_def nd_new_def kp_wf_def kp_generate_def)

lemma sample_env_fields: "re_prims (sample_reaches nh) = toy_prims" "length (re_secret (sample_reaches nh)) = 32"
    "re_prims sample_env = toy_prims" "length (re_secret sample_env) = 32"
  by (simp_all add: sample_reaches_def sample_env_def)

lemma sample_build_pub: "build_pub toy_prims (replicate 32 5) = sample_pub" "length sample_pub = 32"
  by (simp_all add: build_pub_def sample_pub_def kp_generate_def toy_prims_def)

lemma sample_hop_answers:
  assumes "re_prims e = toy_prims" "length (re_secret e) = 32"
  shows "case fst (hop_create 1 sample_pub (sample_new_hop t port e)) of
      Inr (Some created) \<Rightarrow> hop_answers toy_prims 1 sample_pub (sample_reaches (sample_new_hop t port e)) (nw_node (sample_new_hop t port e)) created
    | _ \<Rightarrow> True"
proof -
  let ?h = "sample_new_hop t port e"
  note h = sample_new_hop_of [OF assms, of t port]
  obtain y auth k where hs: "hop_handshake toy_prims ?h sample_pub = (y, auth, k)" by (metis prod_cases3)
  obtain st where c: "hop_create 1 sample_pub ?h = (Inr (Some (msg_created 1 (y @ auth))), st)"
    using hop_create_ok [OF h sample_build_pub(2) hs, of 1] by blast
  have "length y = 32" "length auth = 32"
    using hop_ntor [OF toy_prims_ok h, of "replicate 32 5"] hs sample_build_pub(1) by (auto simp: build_pub_def)
  then have "msg_fits (msg_created 1 (y @ auth))" using created_fits by simp
  from sample_answers [OF this] c show ?thesis
    by (simp add: hop_answers_def sample_reaches_def sample_reply_def tls_connect_def sample_new_hop_def sample_peer_def
        sample_descriptor_def verify_server_cert_def eq_ignore_ascii_case_def is_ok_def)
qed
lemma sample_ports:
  "show_nat 9002 = ''9002''" "show_nat 9003 = ''9003''" "show_nat 10 = ''10''" "show_nat 0 = ''0''" "show_nat 2 = ''2''"
  by (simp_all add: show_nat.simps digit_char_def) (code_simp | (intro conjI; code_simp))+

lemma sample_extendable:
  "extendable (nw_node (sample_new_hop t 9002 e))" "extendable (nw_node (sample_new_hop t 9003 e))"
  using sample_fingerprint_plain length_fingerprint [of toy_prims "[]"]
  by (simp_all add: extendable_def sample_new_hop_def sample_descriptor_def nd_new_def show_v4_def sample_ports socket_wf_def MAX_PAYLOAD_SIZE_eq)

lemma nw_env_sample: "nw_env (sample_new_hop t port e) = e"
  by (simp add: sample_new_hop_def)

lemma sample_hops_linked: "hops_linked toy_prims 1 (\<lambda>i. replicate 32 5) 1 (nw_env (hd sample_hops)) (tl sample_hops)"
  using sample_hop_answers [OF sample_env_fields(3,4), of Exit 9003, folded sample_build_pub(1)]
    sample_hop_answers [OF sample_env_fields(1,2), of Middle 9002 "sample_new_hop Exit 9003 sample_env",
      folded sample_build_pub(1)]
  by (simp add: sample_hops_def Let_def nw_env_sample)

lemma sample_hops_ok:
  "\<forall>nh \<in> set (tl sample_hops). hop_of toy_prims nh \<and> extendable (nw_node nh)" "path_types (tl sample_hops)"
  "hop_of toy_prims (hd sample_hops)" "rn_type (nw_relay (hd sample_hops)) = Entry" "length (tl sample_hops) = 2"
  using sample_new_hop_of sample_extendable
  by (simp_all add: sample_hops_def Let_def path_types_def sample_env_fields) (simp_all add: sample_new_hop_def rn_new_def)

lemma sample_connection:
  obtains net s where "transport_connect toy_prims net (address (nw_node (hd sample_hops)))
      (tls_cert_fingerprint (nw_node (hd sample_hops))) = Inr s"
    "connection_run (\<lambda>i. 0) toy_prims 1 (\<lambda>i. replicate 32 5) (hd sample_hops) (tl sample_hops) s"
proof -
  let ?eh = "hd sample_hops" let ?nhs = "tl sample_hops" let ?sec = "\<lambda>i :: nat. replicate 32 5 :: bytes"
  have sec: "\<forall>i. length (?sec i) = 32" by simp
  obtain ms where ms: "\<forall>s. feeds s ms \<longrightarrow> connection_run (\<lambda>i. 0) toy_prims 1 ?sec ?eh ?nhs s"
    using connection_run_exists [OF toy_prims_ok sec sample_hops_ok(3,4,1) sample_hops_linked] by blast
  let ?p = "(sample_peer (msg_created 1 []))\<lparr>peer_reply := \<lambda>bs. Some \<lparr>rd_bytes = concat (map (to_bytes (\<lambda>i. 0)) ms), rd_broken = False\<rparr>\<rparr>"
  let ?s = "\<lparr>cn_write = sample_writer, cn_peer = ?p, cn_read = 0\<rparr>"
  have "feeds ?s ms" by (simp add: feeds_def sample_writer_def)
  then have "connection_run (\<lambda>i. 0) toy_prims 1 ?sec ?eh ?nhs ?s" using ms by blast
  moreover have "transport_connect toy_prims (\<lambda>a. Some ?p) (address (nw_node ?eh)) (tls_cert_fingerprint (nw_node ?eh)) = Inr ?s"
    by (simp add: transport_connect_def tls_connect_def sample_peer_def sample_hops_def Let_def sample_new_hop_def
        sample_descriptor_def verify_server_cert_def eq_ignore_ascii_case_def is_ok_def)
  ultimately show ?thesis by (rule that [rotated])
qed

theorem circuit_build_sync_witness:
  "\<exists>net c rd hp x. build_circuit_on toy_prims net (\<lambda>i. replicate 32 5) 1 (map nw_node sample_hops) = Inr (c, rd) \<and>
     path_sync toy_prims (hp_path \<lparr>ce_circuit = c, ce_channels = [], ce_metrics = client_metrics_new 0\<rparr> hp x)"
proof -
  let ?sec = "\<lambda>i :: nat. replicate 32 5 :: bytes"
  have hops: "sample_hops = hd sample_hops # tl sample_hops" by (simp add: sample_hops_def Let_def)
  have sec: "\<forall>i. length (?sec i) = 32" by simp
  obtain net s where net: "transport_connect toy_prims net (address (nw_node (hd sample_hops)))
      (tls_cert_fingerprint (nw_node (hd sample_hops))) = Inr s"
    "connection_run (\<lambda>i. 0) toy_prims 1 ?sec (hd sample_hops) (tl sample_hops) s" by (rule sample_connection)
  from circuit_build_sync [OF toy_prims_ok sec sample_hops_ok(3,4) _ sample_hops_ok(1,2) net(1) sample_hops_linked net(2)] sample_hops_ok(5)
  show ?thesis unfolding hops [symmetric] by (metis client_end.select_convs(1) order_refl)
qed

end
