(* ===== verification/Stream_Path.thy ===== *)
theory Stream_Path
  imports Circuit_Path Client_Stream
begin

text \<open>
  Opening a stream over a whole circuit: the client's task allocates an id, registers its
  channel and sends BEGIN; the cell goes through every hop to the exit, which connects to
  the destination and answers CONNECTED on the connection the BEGIN came on; that cell goes
  back to the task, which tells the SOCKS5 client. The result is a stream that is open at
  both ends, in the sense of the data path.
\<close>

section \<open>BEGIN at the exit\<close>

text \<open>A BEGIN sealed in the state the exit is in, for a destination that it can connect to.\<close>

lemma trim_plain: "CHR 0x00 \<notin> set s \<Longrightarrow> trim_end_nul (s @ [CHR 0x00]) = s"
proof -
  assume "CHR 0x00 \<notin> set s"
  then have "rev s = [] \<or> hd (rev s) \<noteq> CHR 0x00" by (metis hd_in_set set_rev)
  then have "dropWhile (\<lambda>c. c = CHR 0x00) (rev s) = rev s" by (simp only: dropWhile_eq_self_iff)
  then show ?thesis by (simp add: trim_end_nul_def)
qed

lemma utf8_ok_nul: "utf8_ok bs \<Longrightarrow> utf8_ok (bs @ [0])"
proof (induction bs rule: utf8_ok.induct)
  case (2 a r1)
  note IH = "2.IH" and ok = "2.prems"
  show ?case
  proof (cases "a < 0x80")
    case True
    with IH(1) ok show ?thesis by (simp only: utf8_ok.simps append_Cons if_True)
  next
    case F1: False
    then obtain b r2 where r1: "r1 = b # r2" using ok by (cases r1) (simp_all only: utf8_ok.simps if_False list.case)
    show ?thesis
    proof (cases "0xC2 \<le> a \<and> a \<le> 0xDF")
      case True
      with IH(2) [OF F1 r1] F1 r1 ok show ?thesis by (simp only: utf8_ok.simps append_Cons if_False if_True list.case simp_thms)
    next
      case F2: False
      then obtain c r3 where r2: "r2 = c # r3"
        using ok F1 r1 by (cases r2) (simp_all only: utf8_ok.simps if_False list.case)
      show ?thesis
      proof (cases "0xE0 \<le> a \<and> a \<le> 0xEF")
        case True
        with IH(3) [OF F1 r1 F2 r2] F1 F2 r1 r2 ok show ?thesis
          by (simp only: utf8_ok.simps append_Cons if_False if_True list.case simp_thms) blast
      next
        case F3: False
        then obtain d r4 where r3: "r3 = d # r4"
          using ok F1 F2 r1 r2 by (cases r3) (simp_all only: utf8_ok.simps if_False list.case)
        from IH(4) [OF F1 r1 F2 r2 F3 r3] F1 F2 F3 r1 r2 r3 ok show ?thesis
          by (simp only: utf8_ok.simps append_Cons if_False list.case simp_thms) blast
      qed
    qed
  qed
qed simp

lemma exit_begin_ok:
  assumes "exit_wf (h, w)" "xh_shared h = Some a" "c = xw_cryptos w ! a" "command m = Begin"
    and "data m = fst (apply_forward (re_prims e) (ec_cipher c) d)"
    and "digest m = fst (rd_update (re_prims e) (ec_forward_digest c) (stream_id m) (to_u8 Begin) d)"
    and "from_utf8 d = Inr s" "re_dest e (trim_end_nul s)"
    and "p < length (xw_writers w)" "wr_room (xw_writers w ! p) = None"
    and "hm_get (xh_streams h) (stream_id m) = None"
    and "c1 = c\<lparr>ec_cipher := snd (apply_forward (re_prims e) (ec_cipher c) d),
      ec_forward_digest := snd (rd_update (re_prims e) (ec_forward_digest c) (stream_id m) (to_u8 Begin) d)\<rparr>"
    and "exit_seal (re_prims e) (cx_circuit_id (xh_context h)) (stream_id m) Connected [] c1 = (r, c2)"
  shows "\<exists>w'. exit_handle_message (e, Some p) m (h, w) = (Inr None, (h\<lparr>xh_streams := hm_insert (stream_id m)
      \<lparr>es_destination = trim_end_nul s, es_task = length (xw_tasks w)\<rparr> (xh_streams h)\<rparr>, w')) \<and>
    xw_tasks w' = xw_tasks w @ [\<lparr>tk_circuit = cx_circuit_id (xh_context h), tk_stream = stream_id m, tk_crypto = a,
      tk_writer = p, tk_metrics = xh_metrics h, tk_queue = [], tk_sender = True, tk_running = True, tk_sent = []\<rparr>] \<and>
    xw_cryptos w' = (xw_cryptos w)[a := c2] \<and>
    xw_writers w' = (xw_writers w)[p := snd (write_to_stream r (xw_writers w ! p))] \<and>
    wire (xw_writers w ! p) (xw_writers w' ! p) = Some r"
proof -
  have op: "exit_open (re_prims e) m c = ((True, d), c1)"
    using exit_open_sealed [OF assms(5)] assms(4,6,12) by simp
  have a: "a < length (xw_cryptos w)" using assms(1,2) by (simp add: exit_wf_def)
  have fits: "msg_fits r" by (rule exit_seal_fits [OF assms(13)]) simp
  note wr = write_to_stream_ok [OF fits assms(10)]
  have "exit_handle_message (e, Some p) m (h, w) = exit_begin_connected e m (trim_end_nul s) a p (h, set_crypto a c1 w)"
    using assms(2,4,7,8) op by (simp add: exit_handle_message_def exit_handle_begin_def assms(3) [symmetric])
  with a assms(9,11,13) wr wire_cell [OF fits] show ?thesis
    by (simp add: exit_begin_connected_def exit_spawn_stream_tasks_def Let_def)
qed

section \<open>The run of a stream's start\<close>

text \<open>
  BEGIN from the task, through the relays, to the exit, which reads it on connection \<open>p\<close>; what the
  exit writes there, back to the client's reader; the task's wait ends with what is in its
  channel.
\<close>

definition path_open ::
  "(nat \<Rightarrow> byte) \<Rightarrow> prims \<Rightarrow> nat \<Rightarrow> nat \<Rightarrow> stream_task \<times> path_state \<Rightarrow> (stream_task \<times> path_state) option"
where
  "path_open rnd P now p st =
     (let (t, ps) = st; (t1, ce1) = stream_open_step P now (t, ps_client ps) in
      case wire (ci_entry_writer (ce_circuit (ps_client ps))) (ci_entry_writer (ce_circuit ce1)) of None \<Rightarrow> None
      | Some m \<Rightarrow>
        case relays_forward m (ps\<lparr>ps_client := ce1\<rparr>) of None \<Rightarrow> None
        | Some (m, ps) \<Rightarrow>
          let (xe, xh, w) = ps_exit ps; (r, (xh', w')) = exit_handle_message (xe, Some p) m (xh, w)
          in case wire (xw_writers w ! p) (xw_writers w' ! p) of None \<Rightarrow> None
          | Some m \<Rightarrow>
            case deliver_back rnd P now m (ps\<lparr>ps_exit := (xe, xh', w')\<rparr>) of None \<Rightarrow> None
            | Some ps \<Rightarrow>
              let (t2, ce2) = stream_wait_step P now False True (t1, ps_client ps)
              in Some (t2, ps\<lparr>ps_client := ce2\<rparr>))"

lemma path_sync_client:
  "ce_circuit ce = ce_circuit (ps_client ps) \<Longrightarrow> path_sync P (ps\<lparr>ps_client := ce\<rparr>) = path_sync P ps"
  by (simp add: path_sync_def ps_keys_def split: prod.split option.split list.split)

lemma relays_forward_client:
  "relays_forward m ps = Some (m', ps') \<Longrightarrow> relays_forward m (ps\<lparr>ps_client := ce\<rparr>) = Some (m', ps'\<lparr>ps_client := ce\<rparr>)"
  by (auto simp: relays_forward_def Let_def split: prod.splits sum.splits option.splits)

text \<open>The client's part of the start: id, channel, then the BEGIN.\<close>

lemma stream_open_step_sends:
  assumes "ci_allocate_stream_id (ce_circuit ce) = (sid, c)"
    and "hm_get (ci_stream_senders (ce_circuit ce)) sid = None"
    and "ci_send_message P sid Begin (str_bytes (sm_destination t @ [CHR 0x00]))
      (c\<lparr>ci_stream_senders := hm_insert sid (length (ce_channels ce)) (ci_stream_senders c)\<rparr>) = (Inr (), c')"
  shows "\<exists>mt. stream_open_step P now (t, ce) =
    (t\<lparr>sm_circuit_id := ci_circuit_id c, sm_stream_id := sid, sm_chan := length (ce_channels ce), sm_phase := SWaiting\<rparr>,
     ce\<lparr>ce_circuit := c', ce_metrics := mt,
        ce_channels := ce_channels ce @ [\<lparr>chan_queue = [], chan_sender = True, chan_receiver = True\<rparr>]\<rparr>)"
proof -
  have "ci_stream_senders c = ci_stream_senders (ce_circuit ce)"
    using assms(1) by (auto simp: ci_allocate_stream_id_def Let_def split: if_splits)
  with assms show ?thesis
    by (simp add: stream_open_step_def ci_register_stream_def ce_send_def ce_event_def Let_def)
      (rule exI, rule client_end.equality; simp)
qed

lemma wait_connected:
  assumes "chan_queue (ce_channels ce ! sm_chan t) = [m]" "command m = Connected"
  shows "\<exists>mt. stream_wait_step P now False True (t, ce) =
    (t\<lparr>sm_replies := sm_replies t @ [RepSucceeded], sm_phase := SRelaying\<rparr>,
     ce\<lparr>ce_metrics := mt, ce_channels := (ce_channels ce)[sm_chan t := (ce_channels ce ! sm_chan t)\<lparr>chan_queue := []\<rparr>]\<rparr>)"
  using assms by (simp add: stream_wait_step_def chan_recv_def ce_event_def Let_def) (rule exI, rule client_end.equality; simp)
lemma exit_then_client: "ps\<lparr>ps_exit := x, ps_client := ce\<rparr> = ps\<lparr>ps_client := ce, ps_exit := x\<rparr>"
  by (cases ps) simp

lemma path_sync_keys:
  assumes "path_sync P ps" "ci_onion_keys (ce_circuit ce) = ps_keys ps"
    and "ci_entry_writer (ce_circuit ce) = ci_entry_writer (ce_circuit (ps_client ps))"
  shows "path_sync P (ps\<lparr>ps_client := ce\<rparr>)"
proof (rule path_syncE [OF assms(1)], goal_cases)
  case (1 e h mt xe xh w cp hop a cs x)
  show ?case
    by (rule path_syncI [of _ e h mt xe xh w cp hop a P cs]) (use 1 assms(2,3) in \<open>simp_all add: ps_keys_def\<close>)
qed

lemma relays_forward_keeps:
  "relays_forward m ps = Some (m', ps') \<Longrightarrow> ps_client ps' = ps_client ps \<and> ps_exit ps' = ps_exit ps"
  by (auto simp: relays_forward_def Let_def split: prod.splits sum.splits option.splits)

lemma send_forward_split:
  assumes "send_forward P sid cmd d ps = Some (m, ps')"
  obtains c' m0 where "ci_send_message P sid cmd d (ce_circuit (ps_client ps)) = (Inr (), c')"
    "wire (ci_entry_writer (ce_circuit (ps_client ps))) (ci_entry_writer c') = Some m0"
    "relays_forward m0 (ps\<lparr>ps_client := (ps_client ps)\<lparr>ce_circuit := c'\<rparr>\<rparr>) = Some (m, ps')"
    "ps_client ps' = (ps_client ps)\<lparr>ce_circuit := c'\<rparr>"
  using assms relays_forward_keeps [of _ _ m ps']
  by (auto simp: send_forward_def Let_def split: prod.splits sum.splits option.splits)

text \<open>A stream is untouched by what does not concern its task, its writer and its channel.\<close>

lemma stream_open_frame:
  assumes "stream_open ps j" "ps_exit ps = (xe, xh, w)" "ps_exit ps2 = (xe, xh', w')"
    and "hm_get (xh_streams xh') j = hm_get (xh_streams xh) j" "xh_shared xh' = xh_shared xh"
    and "\<And>s. hm_get (xh_streams xh) j = Some s \<Longrightarrow> es_task s < length (xw_tasks w) \<Longrightarrow>
      xw_tasks w' ! es_task s = xw_tasks w ! es_task s \<and> es_task s < length (xw_tasks w')"
    and "length (xw_cryptos w') = length (xw_cryptos w)" "length (xw_writers w') = length (xw_writers w)"
    and "\<And>i. i < length (xw_writers w) \<Longrightarrow> wr_room (xw_writers w ! i) = None \<Longrightarrow> wr_room (xw_writers w' ! i) = None"
    and "hm_get (ci_stream_senders (ce_circuit (ps_client ps2))) j = hm_get (ci_stream_senders (ce_circuit (ps_client ps))) j"
    and "\<And>b. hm_get (ci_stream_senders (ce_circuit (ps_client ps))) j = Some b \<Longrightarrow> b < length (ce_channels (ps_client ps)) \<Longrightarrow>
      ce_channels (ps_client ps2) ! b = ce_channels (ps_client ps) ! b \<and> b < length (ce_channels (ps_client ps2))"
  shows "stream_open ps2 j \<and> pipe_of ps2 j = pipe_of ps j"
proof -
  obtain s b where s: "hm_get (xh_streams xh) j = Some s"
    "hm_get (ci_stream_senders (ce_circuit (ps_client ps))) j = Some b"
    "tk_running (xw_tasks w ! es_task s)" "task_ready (es_task s) w"
    "xh_shared xh = Some (tk_crypto (xw_tasks w ! es_task s))"
    "b < length (ce_channels (ps_client ps))" "chan_receiver (ce_channels (ps_client ps) ! b)"
    by (rule stream_openE [OF assms(1,2)])
  have t: "xw_tasks w' ! es_task s = xw_tasks w ! es_task s" "es_task s < length (xw_tasks w')"
    using assms(6) [OF s(1)] s(4) by (simp_all add: task_ready_def Let_def)
  have "task_ready (es_task s) w'"
    using s(4) t assms(7-9) by (simp add: task_ready_def Let_def)
  with s t assms(2-5,10) assms(11) [OF s(2,6)] show ?thesis by (simp add: stream_open_def pipe_of_def)
qed

text \<open>So a stream that was open stays so when the exit gets a task more and the client a channel more.\<close>

lemma stream_open_extend:
  assumes "stream_open ps j" "ps_exit ps = (xe, xh, w)" "ps_exit ps2 = (xe, xh', w')"
    and "hm_get (xh_streams xh') j = hm_get (xh_streams xh) j" "xh_shared xh' = xh_shared xh"
    and "xw_tasks w' = xw_tasks w @ tks" "length (xw_cryptos w') = length (xw_cryptos w)"
    and "xw_writers w' = (xw_writers w)[p := wr]" "wr_room wr = None"
    and "hm_get (ci_stream_senders (ce_circuit (ps_client ps2))) j = hm_get (ci_stream_senders (ce_circuit (ps_client ps))) j"
    and "length (ce_channels (ps_client ps)) \<le> length (ce_channels (ps_client ps2))"
    and "\<And>b. b < length (ce_channels (ps_client ps)) \<Longrightarrow> ce_channels (ps_client ps2) ! b = ce_channels (ps_client ps) ! b"
  shows "stream_open ps2 j \<and> pipe_of ps2 j = pipe_of ps j"
proof (rule stream_open_frame [OF assms(1-5) _ assms(7) _ _ assms(10)])
  show "wr_room (xw_writers w' ! i) = None" if "i < length (xw_writers w)" "wr_room (xw_writers w ! i) = None" for i
    using that assms(8,9) by (cases "i = p") auto
qed (use assms(6,8,11,12) in \<open>auto simp: nth_append\<close>)

text \<open>The BEGIN on its way: what the client's task has done, and the cell the exit reads.\<close>

lemma begin_journey:
  assumes "path_sync P ps" "length (sm_destination t) < MAX_PAYLOAD_SIZE" "ps_exit ps = (xe, xh, w)"
    and "ci_allocate_stream_id (ce_circuit (ps_client ps)) = (sid, c)"
    and "hm_get (ci_stream_senders (ce_circuit (ps_client ps))) sid = None"
    and "xh_shared xh = Some a" "x = xw_cryptos w ! a" "d = str_bytes (sm_destination t @ [CHR 0x00])"
    and "x1 = x\<lparr>ec_cipher := snd (apply_forward P (ec_cipher x) d),
         ec_forward_digest := snd (rd_update P (ec_forward_digest x) sid (to_u8 Begin) d)\<rparr>"
    and "b = length (ce_channels (ps_client ps))"
    and "t1 = t\<lparr>sm_circuit_id := ci_circuit_id c, sm_stream_id := sid, sm_chan := b, sm_phase := SWaiting\<rparr>"
  obtains ce1 m0 m ps1 where "stream_open_step P now (t, ps_client ps) = (t1, ce1)"
    "wire (ci_entry_writer (ce_circuit (ps_client ps))) (ci_entry_writer (ce_circuit ce1)) = Some m0"
    "relays_forward m0 (ps\<lparr>ps_client := ce1\<rparr>) = Some (m, ps1)" "ps_client ps1 = ce1" "ps_exit ps1 = (xe, xh, w)"
    "ce_channels ce1 = ce_channels (ps_client ps) @ [\<lparr>chan_queue = [], chan_sender = True, chan_receiver = True\<rparr>]"
    "ci_stream_senders (ce_circuit ce1) = hm_insert sid b (ci_stream_senders (ce_circuit (ps_client ps)))"
    "stream_id m = sid" "command m = Begin" "data m = fst (apply_forward P (ec_cipher x) d)"
    "digest m = fst (rd_update P (ec_forward_digest x) sid (to_u8 Begin) d)"
    "\<And>xh' w'. exit_wf (xh', w') \<Longrightarrow> xh_shared xh' = Some a \<Longrightarrow> xw_cryptos w' ! a = x1 \<Longrightarrow>
       path_sync P (ps1\<lparr>ps_exit := (xe, xh', w')\<rparr>)"
proof -
  let ?ce = "ps_client ps"
  let ?chs = "ce_channels ?ce @ [\<lparr>chan_queue = [], chan_sender = True, chan_receiver = True\<rparr>]"
  let ?c1 = "c\<lparr>ci_stream_senders := hm_insert sid b (ci_stream_senders c)\<rparr>"
  let ?ps0 = "ps\<lparr>ps_client := ?ce\<lparr>ce_circuit := ?c1\<rparr>\<rparr>"
  have c: "ci_stream_senders c = ci_stream_senders (ce_circuit ?ce)" "ci_onion_keys c = ci_onion_keys (ce_circuit ?ce)"
    "ci_entry_writer c = ci_entry_writer (ce_circuit ?ce)"
    using assms(4) by (auto simp: ci_allocate_stream_id_def Let_def split: if_splits)
  have sync0: "path_sync P ?ps0" by (rule path_sync_keys [OF assms(1)]) (simp_all add: c ps_keys_def)
  have d: "length d \<le> MAX_PAYLOAD_SIZE" using assms(2) by (simp add: assms(8))
  obtain m ps1 where fw: "send_forward P sid Begin d ?ps0 = Some (m, ps1)" "ps_exit ps1 = (xe, xh, w)" "stream_id m = sid"
    "command m = Begin" "data m = fst (apply_forward P (ec_cipher x) d)"
    "digest m = fst (rd_update P (ec_forward_digest x) sid (to_u8 Begin) d)"
    and sync1: "\<And>xh' w'. exit_wf (xh', w') \<Longrightarrow> xh_shared xh' = Some a \<Longrightarrow> xw_cryptos w' ! a = x1 \<Longrightarrow>
       path_sync P (ps1\<lparr>ps_exit := (xe, xh', w')\<rparr>)"
    using send_forward_ok [OF sync0 _ d _ assms(6,7), of Begin xe sid] assms(3,9) by (auto simp: relayed_command_def)
  obtain c' m0 where sp: "ci_send_message P sid Begin d ?c1 = (Inr (), c')"
    "wire (ci_entry_writer ?c1) (ci_entry_writer c') = Some m0"
    "relays_forward m0 (ps\<lparr>ps_client := ?ce\<lparr>ce_circuit := c'\<rparr>\<rparr>) = Some (m, ps1)" "ps_client ps1 = ?ce\<lparr>ce_circuit := c'\<rparr>"
    by (rule send_forward_split [OF fw(1)]) (simp add: that)
  have c': "ci_stream_senders c' = hm_insert sid b (ci_stream_senders (ce_circuit ?ce))"
    using sp(1) c(1) by (auto simp: ci_send_message_def Let_def split: prod.splits sum.splits)
  obtain mt where op: "stream_open_step P now (t, ?ce) = (t1, ?ce\<lparr>ce_circuit := c', ce_metrics := mt, ce_channels := ?chs\<rparr>)"
    using stream_open_step_sends [OF assms(4,5), of P t c' now] sp(1) assms(8,10,11) by auto
  let ?ce1 = "?ce\<lparr>ce_circuit := c', ce_metrics := mt, ce_channels := ?chs\<rparr>"
  have rel: "relays_forward m0 (ps\<lparr>ps_client := ?ce1\<rparr>) = Some (m, ps1\<lparr>ps_client := ?ce1\<rparr>)"
    using relays_forward_client [OF sp(3), of ?ce1] by simp
  have sync: "path_sync P (ps1\<lparr>ps_client := ?ce1, ps_exit := (xe, xh', w')\<rparr>)"
    if "exit_wf (xh', w')" "xh_shared xh' = Some a" "xw_cryptos w' ! a = x1" for xh' w'
    using path_sync_client [of ?ce1 "ps1\<lparr>ps_exit := (xe, xh', w')\<rparr>" P] sync1 [OF that] sp(4) by (simp add: exit_then_client)
  show ?thesis
    by (rule that [OF op _ rel]) (use sp(2) c(3) fw(2-6) c' sync in simp_all)
qed

lemma path_open_ok:
  assumes "path_sync P ps" "streams_open ps sids"
    and "utf8_ok (str_bytes (sm_destination t))" "CHR 0x00 \<notin> set (sm_destination t)"
    and "length (sm_destination t) < MAX_PAYLOAD_SIZE"
    and "ps_exit ps = (xe, xh, w)" "re_dest xe (sm_destination t)" "p < length (xw_writers w)" "wr_room (xw_writers w ! p) = None"
    and "ci_allocate_stream_id (ce_circuit (ps_client ps)) = (sid, c)"
    and "hm_get (xh_streams xh) sid = None" "hm_get (ci_stream_senders (ce_circuit (ps_client ps))) sid = None"
  shows "\<exists>t2 ps2. path_open rnd P now p (t, ps) = Some (t2, ps2) \<and> path_sync P ps2 \<and>
    streams_open ps2 (insert sid sids) \<and> sm_phase t2 = SRelaying \<and> sm_stream_id t2 = sid \<and>
    sm_replies t2 = sm_replies t @ [RepSucceeded] \<and> sm_written t2 = sm_written t \<and>
    pipe_of ps2 sid = \<lparr>sp_up = [], sp_down = []\<rparr> \<and> (\<forall>j \<in> sids. pipe_of ps2 j = pipe_of ps j) \<and>
    hm_get (ci_stream_senders (ce_circuit (ps_client ps2))) sid = Some (sm_chan t2)"
proof -
  let ?d = "str_bytes (sm_destination t @ [CHR 0x00])" and ?ce = "ps_client ps"
  let ?b = "length (ce_channels ?ce)"
  let ?chs = "ce_channels ?ce @ [\<lparr>chan_queue = [], chan_sender = True, chan_receiver = True\<rparr>]"
  obtain a where a: "xh_shared xh = Some a" "re_prims xe = P" "exit_wf (xh, w)"
    by (rule path_syncE [OF assms(1)]) (use assms(6) in auto)
  have al: "a < length (xw_cryptos w)" using a(1,3) by (simp add: exit_wf_def)
  let ?x = "xw_cryptos w ! a"
  let ?x1 = "?x\<lparr>ec_cipher := snd (apply_forward P (ec_cipher ?x) ?d),
         ec_forward_digest := snd (rd_update P (ec_forward_digest ?x) sid (to_u8 Begin) ?d)\<rparr>"
  let ?t1 = "t\<lparr>sm_circuit_id := ci_circuit_id c, sm_stream_id := sid, sm_chan := ?b, sm_phase := SWaiting\<rparr>"
  obtain ce1 m0 m ps1 where b: "stream_open_step P now (t, ?ce) = (?t1, ce1)"
    "wire (ci_entry_writer (ce_circuit ?ce)) (ci_entry_writer (ce_circuit ce1)) = Some m0"
    "relays_forward m0 (ps\<lparr>ps_client := ce1\<rparr>) = Some (m, ps1)" "ps_client ps1 = ce1" "ps_exit ps1 = (xe, xh, w)"
    "ce_channels ce1 = ?chs" "ci_stream_senders (ce_circuit ce1) = hm_insert sid ?b (ci_stream_senders (ce_circuit ?ce))"
    "stream_id m = sid" "command m = Begin" "data m = fst (apply_forward P (ec_cipher ?x) ?d)"
    "digest m = fst (rd_update P (ec_forward_digest ?x) sid (to_u8 Begin) ?d)"
    and sync1: "\<And>xh' w'. exit_wf (xh', w') \<Longrightarrow> xh_shared xh' = Some a \<Longrightarrow> xw_cryptos w' ! a = ?x1 \<Longrightarrow>
       path_sync P (ps1\<lparr>ps_exit := (xe, xh', w')\<rparr>)"
    by (rule begin_journey [OF assms(1,5,6,10,12) a(1) refl refl refl refl refl, of now]) (rule that; assumption?; simp only:)
  obtain r c2 where seal: "exit_seal P (cx_circuit_id (xh_context xh)) sid Connected [] ?x1 = (r, c2)" by force
  have utf: "from_utf8 ?d = Inr (sm_destination t @ [CHR 0x00])"
    using utf8_ok_nul [OF assms(3)] bytes_str_str_bytes [of "sm_destination t @ [CHR 0x00]"]
    by (simp add: from_utf8_def str_bytes_def del: bytes_str_str_bytes)
  obtain w' where w': "exit_handle_message (xe, Some p) m (xh, w) = (Inr None, (xh\<lparr>xh_streams := hm_insert sid
      \<lparr>es_destination = sm_destination t, es_task = length (xw_tasks w)\<rparr> (xh_streams xh)\<rparr>, w'))"
    "xw_tasks w' = xw_tasks w @ [\<lparr>tk_circuit = cx_circuit_id (xh_context xh), tk_stream = sid, tk_crypto = a,
      tk_writer = p, tk_metrics = xh_metrics xh, tk_queue = [], tk_sender = True, tk_running = True, tk_sent = []\<rparr>]"
    "xw_cryptos w' = (xw_cryptos w)[a := c2]"
    "xw_writers w' = (xw_writers w)[p := snd (write_to_stream r (xw_writers w ! p))]"
    "wire (xw_writers w ! p) (xw_writers w' ! p) = Some r"
    using exit_begin_ok [OF a(3,1) refl b(9) _ _ utf _ assms(8,9) _ refl, of xe r c2] trim_plain [OF assms(4)]
      b(8,10,11) a(2) assms(7,11) seal by auto
  let ?xh = "xh\<lparr>xh_streams := hm_insert sid \<lparr>es_destination = sm_destination t, es_task = length (xw_tasks w)\<rparr> (xh_streams xh)\<rparr>"
  have wf': "exit_wf (?xh, w')" by (rule exit_message_wf [OF a(3) w'(1)])
  let ?w1 = "set_crypto a ?x1 w"
  have "exit_wf (xh, ?w1)" using a(3) by (simp add: exit_wf_def set_crypto_def)
  from sync1 [OF this a(1)] al have syncx: "path_sync P (ps1\<lparr>ps_exit := (xe, xh, ?w1)\<rparr>)" by (simp add: set_crypto_def)
  have x1: "?x1 = xw_cryptos ?w1 ! a" using al by (simp add: set_crypto_def)
  obtain ps2 where bk: "deliver_back rnd P now r (ps1\<lparr>ps_exit := (xe, ?xh, w')\<rparr>) = Some ps2" "path_sync P ps2"
    "ps_exit ps2 = (xe, ?xh, w')"
    "ce_channels (ps_client ps2) = ?chs[?b := (?chs ! ?b)\<lparr>chan_queue := chan_queue (?chs ! ?b) @
      [msg_new (cx_circuit_id (xh_context xh)) sid Connected []]\<rparr>]"
    "ce_circuit (ps_client ps2) = (ce_circuit ce1)\<lparr>ci_onion_keys := ps_keys ps2\<rparr>"
    using deliver_back_ok [OF syncx _ a(1) x1 seal _ _ wf', where rnd = rnd and now = now] a(1) al w'(3) b(4,6,7) b(5)
    by (auto simp: chan_send_def)
  let ?conn = "msg_new (cx_circuit_id (xh_context xh)) sid Connected []"
  have q: "ce_channels (ps_client ps2) = ce_channels ?ce @ [\<lparr>chan_queue = [?conn], chan_sender = True, chan_receiver = True\<rparr>]"
    using bk(4) by simp
  then have "chan_queue (ce_channels (ps_client ps2) ! sm_chan ?t1) = [?conn]" by simp
  from wait_connected [OF this, of P now] obtain mt2 where wt: "stream_wait_step P now False True (?t1, ps_client ps2) =
      (?t1\<lparr>sm_replies := sm_replies t @ [RepSucceeded], sm_phase := SRelaying\<rparr>, (ps_client ps2)\<lparr>ce_metrics := mt2, ce_channels := ?chs\<rparr>)"
    by (auto simp: q msg_new_def)
  let ?t2 = "?t1\<lparr>sm_replies := sm_replies t @ [RepSucceeded], sm_phase := SRelaying\<rparr>"
  let ?ps3 = "ps2\<lparr>ps_client := (ps_client ps2)\<lparr>ce_metrics := mt2, ce_channels := ?chs\<rparr>\<rparr>"
  have run: "path_open rnd P now p (t, ps) = Some (?t2, ?ps3)"
    using b(1-3,5) w'(1,5) bk(1) wt by (simp add: path_open_def)
  have sync: "path_sync P ?ps3" using bk(2) by (simp add: path_sync_client)
  have senders: "ci_stream_senders (ce_circuit (ps_client ?ps3)) = hm_insert sid ?b (ci_stream_senders (ce_circuit ?ce))"
    using bk(5) b(7) by simp
  have wr: "wr_room (snd (write_to_stream r (xw_writers w ! p))) = None" by (rule wr_room_write [OF assms(9)])
  have others: "stream_open ?ps3 j \<and> pipe_of ?ps3 j = pipe_of ps j \<and> j \<noteq> sid" if "j \<in> sids" for j
  proof -
    have o: "stream_open ps j" using assms(2) that by (simp add: streams_open_def)
    then have "j \<noteq> sid" using assms(6,11) by (auto simp: stream_open_def)
    with stream_open_extend [OF o assms(6), of ?ps3 ?xh w' _ p "snd (write_to_stream r (xw_writers w ! p))"] bk(3) w'(2-4) wr senders
    show ?thesis by (simp add: nth_append)
  qed
  have own: "stream_open ?ps3 sid" "pipe_of ?ps3 sid = \<lparr>sp_up = [], sp_down = []\<rparr>"
    using bk(3) senders w'(2-4) a(1) al wr assms(8) by (simp_all add: stream_open_def pipe_of_def task_ready_def)
  have "inj_on (hm_get (ci_stream_senders (ce_circuit (ps_client ?ps3)))) (insert sid sids)"
  proof -
    have "hm_get (ci_stream_senders (ce_circuit ?ce)) j \<noteq> Some ?b" if "j \<in> sids" for j
      using assms(2) that by (auto simp: streams_open_def stream_open_def assms(6) split: option.splits)
    moreover have "inj_on (hm_get (ci_stream_senders (ce_circuit ?ce))) sids" using assms(2) by (simp add: streams_open_def)
    ultimately show ?thesis using others unfolding senders by (auto simp: inj_on_def) (metis hm_get_insert)+
  qed
  with run sync others own senders show ?thesis
    by (intro exI [of _ ?t2] exI [of _ ?ps3]) (simp add: streams_open_def)
qed

text \<open>
  C6. A stream opens through the whole circuit. The client's task asks, on an id that is free
  at both ends, for a destination the exit can connect to; BEGIN reaches the exit through
  every hop and CONNECTED comes back to the task, which tells the SOCKS5 client and goes on
  to relay. The stream is then open at both ends with nothing in its queues, the streams
  that were open keep theirs, and the client and the relays agree again.
\<close>

theorem stream_opens_end_to_end:
  assumes "path_sync P ps" "streams_open ps sids"
    and "utf8_ok (str_bytes (sm_destination t))" "CHR 0x00 \<notin> set (sm_destination t)"
    and "length (sm_destination t) < MAX_PAYLOAD_SIZE"
    and "ps_exit ps = (xe, xh, w)" "re_dest xe (sm_destination t)" "p < length (xw_writers w)" "wr_room (xw_writers w ! p) = None"
    and "ci_allocate_stream_id (ce_circuit (ps_client ps)) = (sid, c)"
    and "hm_get (xh_streams xh) sid = None" "hm_get (ci_stream_senders (ce_circuit (ps_client ps))) sid = None"
  shows "\<exists>t2 ps2. path_open rnd P now p (t, ps) = Some (t2, ps2) \<and> path_sync P ps2 \<and>
    streams_open ps2 (insert sid sids) \<and> sm_phase t2 = SRelaying \<and> sm_stream_id t2 = sid \<and>
    sm_replies t2 = sm_replies t @ [RepSucceeded] \<and> sm_written t2 = sm_written t \<and>
    pipe_of ps2 sid = \<lparr>sp_up = [], sp_down = []\<rparr> \<and> (\<forall>j \<in> sids. pipe_of ps2 j = pipe_of ps j) \<and>
    hm_get (ci_stream_senders (ce_circuit (ps_client ps2))) sid = Some (sm_chan t2)"
  using path_open_ok [OF assms] .

theorem stream_opens_end_to_end_witness:
  "\<exists>t2 ps2. path_open (\<lambda>i. 0) toy_prims 0 0 (stream_new ''web:80'', sample_path) = Some (t2, ps2) \<and>
     streams_open ps2 {2, 1} \<and> sm_replies t2 = [RepSucceeded]"
proof -
  have d: "sm_destination (stream_new ''web:80'') = ''web:80''" "sm_replies (stream_new ''web:80'') = []"
    by (simp_all add: stream_new_def)
  have u: "utf8_ok (str_bytes ''web:80'')" by code_simp
  have x: "ps_exit sample_path = (sample_env, sample_exit, sample_world)" "re_dest sample_env ''web:80''"
    "0 < length (xw_writers sample_world)" "wr_room (xw_writers sample_world ! 0) = None"
    by (simp_all add: sample_path_def sample_env_def sample_world_def sample_writer_def)
  have c: "ci_allocate_stream_id (ce_circuit (ps_client sample_path)) =
      (2, (ce_circuit (ps_client sample_path))\<lparr>ci_next_stream_id := 3\<rparr>)"
    "hm_get (xh_streams sample_exit) 2 = None" "hm_get (ci_stream_senders (ce_circuit (ps_client sample_path))) 2 = None"
    by (simp_all add: sample_path_def sample_exit_def ci_allocate_stream_id_def hm_get_def)
  from stream_opens_end_to_end [OF sample_path_sync sample_path_open, of "stream_new ''web:80''" sample_env sample_exit sample_world 0
      2 _ "\<lambda>i. 0" 0] u x c
  show ?thesis by (auto simp: d MAX_PAYLOAD_SIZE_eq)
qed

section \<open>Closing\<close>

text \<open>
  END at the exit, for a stream it has or has not: the stream and the sender of its task go,
  and the exit answers with an END of its own.
\<close>

lemma exit_end_ok:
  assumes "exit_wf (h, w)" "xh_shared h = Some a" "c = xw_cryptos w ! a" "command m = End"
    and "data m = fst (apply_forward (re_prims e) (ec_cipher c) d)"
    and "digest m = fst (rd_update (re_prims e) (ec_forward_digest c) (stream_id m) (to_u8 End) d)"
    and "c1 = c\<lparr>ec_cipher := snd (apply_forward (re_prims e) (ec_cipher c) d),
      ec_forward_digest := snd (rd_update (re_prims e) (ec_forward_digest c) (stream_id m) (to_u8 End) d)\<rparr>"
    and "exit_seal (re_prims e) (cx_circuit_id (xh_context h)) (stream_id m) End [] c1 = (r, c2)"
  shows "\<exists>w'. exit_handle_message (e, prev) m (h, w) =
      (Inr (Some r), (h\<lparr>xh_streams := hm_remove (stream_id m) (xh_streams h)\<rparr>, w')) \<and>
    xw_tasks w' = (case hm_get (xh_streams h) (stream_id m) of None \<Rightarrow> xw_tasks w
      | Some s \<Rightarrow> (xw_tasks w)[es_task s := (xw_tasks w ! es_task s)\<lparr>tk_sender := False\<rparr>]) \<and>
    xw_cryptos w' = (xw_cryptos w)[a := c2] \<and> xw_writers w' = xw_writers w"
proof -
  have op: "exit_open (re_prims e) m c = ((True, d), c1)"
    using exit_open_sealed [OF assms(5)] assms(4,6,7) by simp
  have a: "a < length (xw_cryptos w)" using assms(1,2) by (simp add: exit_wf_def)
  have "exit_handle_message (e, prev) m (h, w) = exit_handle_end e m (h, w)"
    using assms(4) by (simp add: exit_handle_message_def)
  with a assms(2,8) op show ?thesis
    by (cases "hm_get (xh_streams h) (stream_id m)")
      (simp_all add: exit_handle_end_def exit_end_reply_def assms(3) [symmetric] Let_def drop_sender_def)
qed

text \<open>A cell of the client that the exit answers: to the exit, and its answer back.\<close>

definition exit_answers ::
  "(nat \<Rightarrow> byte) \<Rightarrow> prims \<Rightarrow> nat \<Rightarrow> nat \<Rightarrow> message \<Rightarrow> path_state \<Rightarrow> path_state option"
where
  "exit_answers rnd P now p m ps =
     (case relays_forward m ps of None \<Rightarrow> None
      | Some (m, ps) \<Rightarrow>
          let (xe, xh, w) = ps_exit ps; (r, (xh', w')) = exit_handle_message (xe, Some p) m (xh, w)
          in case r of
               Inr (Some r) \<Rightarrow>
                 (case carry rnd r of None \<Rightarrow> None
                  | Some m \<Rightarrow> deliver_back rnd P now m (ps\<lparr>ps_exit := (xe, xh', w')\<rparr>))
             | _ \<Rightarrow> None)"

text \<open>An answer that was sealed in the state the exit shares with the client comes back whole.\<close>

lemma answer_journey:
  assumes "relays_forward m0 ps = Some (m, ps1)" "ps_exit ps1 = (xe, xh, w)" "exit_wf (xh, w)" "xh_shared xh = Some a"
    and "path_sync P (ps1\<lparr>ps_exit := (xe, xh, set_crypto a x1 w)\<rparr>)"
    and "exit_seal P cid sid cmd d x1 = (r, c2)" "length d \<le> MAX_PAYLOAD_SIZE" "cmd \<noteq> Destroy"
    and "exit_handle_message (xe, Some p) m (xh, w) = (Inr (Some r), (xh', w'))" "xh_shared xh' = Some a"
    and "xw_cryptos w' = (xw_cryptos w)[a := c2]"
  shows "\<exists>ps2. exit_answers rnd P now p m0 ps = Some ps2 \<and> path_sync P ps2 \<and> ps_exit ps2 = (xe, xh', w') \<and>
    ce_channels (ps_client ps2) = (case hm_get (ci_stream_senders (ce_circuit (ps_client ps1))) sid of
        None \<Rightarrow> ce_channels (ps_client ps1)
      | Some b \<Rightarrow> chan_send b (msg_new cid sid cmd d) (ce_channels (ps_client ps1))) \<and>
    ce_circuit (ps_client ps2) = (ce_circuit (ps_client ps1))\<lparr>ci_onion_keys := ps_keys ps2\<rparr>"
proof -
  have al: "a < length (xw_cryptos w)" using assms(3,4) by (simp add: exit_wf_def)
  then have x1: "x1 = xw_cryptos (set_crypto a x1 w) ! a" by (simp add: set_crypto_def)
  have wf': "exit_wf (xh', w')" by (rule exit_message_wf [OF assms(3,9)])
  have "carry rnd r = Some r" by (rule carry_cell [OF exit_seal_fits [OF assms(6,7)]])
  then have "exit_answers rnd P now p m0 ps = deliver_back rnd P now r (ps1\<lparr>ps_exit := (xe, xh', w')\<rparr>)"
    using assms(1,2,9) by (simp add: exit_answers_def)
  with deliver_back_ok [OF assms(5) _ assms(4) x1 assms(6-8) wf' assms(10), where rnd = rnd and now = now] al assms(11)
  show ?thesis by (simp cong: option.case_cong)
qed

text \<open>
  The END of a client that has given the stream up: \<open>ce0\<close> is the client that sends it,
  \<open>ce1\<close> the client when the answer comes, which no longer knows the stream.
\<close>

lemma end_journey:
  assumes "path_sync P ps" "ps_exit ps = (xe, xh, w)"
    and "ci_onion_keys (ce_circuit ce0) = ps_keys ps"
    and "ci_entry_writer (ce_circuit ce0) = ci_entry_writer (ce_circuit (ps_client ps))"
    and "ce_send P sid End [] ce0 = (q, ces)"
    and "ci_onion_keys (ce_circuit ce1) = ci_onion_keys (ce_circuit ces)"
    and "ci_entry_writer (ce_circuit ce1) = ci_entry_writer (ce_circuit ces)"
    and "hm_get (ci_stream_senders (ce_circuit ce1)) sid = None"
  shows "\<exists>m ps2 w'. wire (ci_entry_writer (ce_circuit (ps_client ps))) (ci_entry_writer (ce_circuit ce1)) = Some m \<and>
    exit_answers rnd P now p m (ps\<lparr>ps_client := ce1\<rparr>) = Some ps2 \<and> path_sync P ps2 \<and>
    ps_exit ps2 = (xe, xh\<lparr>xh_streams := hm_remove sid (xh_streams xh)\<rparr>, w') \<and>
    xw_tasks w' = (case hm_get (xh_streams xh) sid of None \<Rightarrow> xw_tasks w
      | Some s \<Rightarrow> (xw_tasks w)[es_task s := (xw_tasks w ! es_task s)\<lparr>tk_sender := False\<rparr>]) \<and>
    length (xw_cryptos w') = length (xw_cryptos w) \<and> xw_writers w' = xw_writers w \<and>
    ce_channels (ps_client ps2) = ce_channels ce1 \<and>
    ci_stream_senders (ce_circuit (ps_client ps2)) = ci_stream_senders (ce_circuit ce1)"
proof -
  let ?ps0 = "ps\<lparr>ps_client := ce0\<rparr>"
  have sync0: "path_sync P ?ps0" by (rule path_sync_keys [OF assms(1,3,4)])
  obtain a where a: "xh_shared xh = Some a" "re_prims xe = P" "exit_wf (xh, w)"
    by (rule path_syncE [OF assms(1)]) (use assms(2) in auto)
  have al: "a < length (xw_cryptos w)" using a(1,3) by (simp add: exit_wf_def)
  let ?x = "xw_cryptos w ! a"
  let ?x1 = "?x\<lparr>ec_cipher := snd (apply_forward P (ec_cipher ?x) []),
         ec_forward_digest := snd (rd_update P (ec_forward_digest ?x) sid (to_u8 End) [])\<rparr>"
  obtain m ps1 where fw: "send_forward P sid End [] ?ps0 = Some (m, ps1)" "ps_exit ps1 = (xe, xh, w)" "stream_id m = sid"
    "command m = End" "data m = fst (apply_forward P (ec_cipher ?x) [])"
    "digest m = fst (rd_update P (ec_forward_digest ?x) sid (to_u8 End) [])"
    and sync1: "\<And>xh' w'. exit_wf (xh', w') \<Longrightarrow> xh_shared xh' = Some a \<Longrightarrow> xw_cryptos w' ! a = ?x1 \<Longrightarrow>
       path_sync P (ps1\<lparr>ps_exit := (xe, xh', w')\<rparr>)"
    using send_forward_ok [OF sync0 _ _ _ a(1) refl, of End "[]" xe w sid] assms(2) by (auto simp: relayed_command_def)
  obtain c' m0 where sp: "ci_send_message P sid End [] (ce_circuit ce0) = (Inr (), c')"
    "wire (ci_entry_writer (ce_circuit ce0)) (ci_entry_writer c') = Some m0"
    "relays_forward m0 (ps\<lparr>ps_client := ce0\<lparr>ce_circuit := c'\<rparr>\<rparr>) = Some (m, ps1)" "ps_client ps1 = ce0\<lparr>ce_circuit := c'\<rparr>"
    by (rule send_forward_split [OF fw(1)]) (simp add: that)
  have ces: "ces = ce0\<lparr>ce_circuit := c'\<rparr>" using assms(5) sp(1) by (simp add: ce_send_def)
  let ?psx = "ps1\<lparr>ps_client := ce1\<rparr>"
  have rel: "relays_forward m0 (ps\<lparr>ps_client := ce1\<rparr>) = Some (m, ?psx)"
    using relays_forward_client [OF sp(3), of ce1] by simp
  obtain r c2 where seal: "exit_seal P (cx_circuit_id (xh_context xh)) sid End [] ?x1 = (r, c2)" by force
  let ?xh = "xh\<lparr>xh_streams := hm_remove sid (xh_streams xh)\<rparr>"
  obtain w' where w': "exit_handle_message (xe, Some p) m (xh, w) = (Inr (Some r), (?xh, w'))"
    "xw_tasks w' = (case hm_get (xh_streams xh) sid of None \<Rightarrow> xw_tasks w
      | Some s \<Rightarrow> (xw_tasks w)[es_task s := (xw_tasks w ! es_task s)\<lparr>tk_sender := False\<rparr>])"
    "xw_cryptos w' = (xw_cryptos w)[a := c2]" "xw_writers w' = xw_writers w"
    using exit_end_ok [OF a(3,1) refl fw(4) _ _ refl, of xe "[]" r c2 "Some p"] fw(3,5,6) a(2) seal by auto
  have "exit_wf (xh, set_crypto a ?x1 w)" using a(3) by (simp add: exit_wf_def set_crypto_def)
  from sync1 [OF this a(1)] al have "path_sync P (ps1\<lparr>ps_exit := (xe, xh, set_crypto a ?x1 w)\<rparr>)" by (simp add: set_crypto_def)
  then have syncx: "path_sync P (?psx\<lparr>ps_exit := (xe, xh, set_crypto a ?x1 w)\<rparr>)"
    using path_sync_keys [of P "ps1\<lparr>ps_exit := (xe, xh, set_crypto a ?x1 w)\<rparr>" ce1] sp(4) assms(6,7) ces
    by (simp add: exit_then_client ps_keys_def)
  obtain ps2 where bk: "exit_answers rnd P now p m0 (ps\<lparr>ps_client := ce1\<rparr>) = Some ps2" "path_sync P ps2"
    "ps_exit ps2 = (xe, ?xh, w')" "ce_channels (ps_client ps2) = ce_channels ce1"
    "ce_circuit (ps_client ps2) = (ce_circuit ce1)\<lparr>ci_onion_keys := ps_keys ps2\<rparr>"
    using answer_journey [OF rel _ a(3,1) syncx seal _ _ w'(1) _ w'(3), of rnd now] fw(2) a(1) assms(8) by auto
  moreover have "wire (ci_entry_writer (ce_circuit (ps_client ps))) (ci_entry_writer (ce_circuit ce1)) = Some m0"
    using sp(2) assms(4,7) ces by simp
  moreover have "ci_stream_senders (ce_circuit (ps_client ps2)) = ci_stream_senders (ce_circuit ce1)" by (simp add: bk(5))
  ultimately show ?thesis using bk(1-4) w'(2-4) by (intro exI [of _ m0] exI [of _ ps2] exI [of _ w']) simp
qed

text \<open>The end of the task's loop: the turn that ends it, the cleanup, the return.\<close>

lemma turn_ends:
  assumes "stream_turn P now ev (t, ce) = (False, (t0, ce0))" "\<forall>buf. ev \<noteq> ClientData buf"
  shows "t0 = t \<and> ce_circuit ce0 = ce_circuit ce \<and> length (ce_channels ce0) = length (ce_channels ce) \<and>
    (\<forall>b. b \<noteq> sm_chan t \<longrightarrow> ce_channels ce0 ! b = ce_channels ce ! b)"
  using assms
  by (auto simp: stream_turn_def chan_recv_def Let_def split: stream_event.splits received.splits list.splits if_splits)

lemma relay_step_end:
  assumes "stream_turn P now ev (t, ce) = (False, (t0, ce0))" "\<forall>buf. ev \<noteq> ClientData buf"
    and "hm_get (ci_stream_senders (ce_circuit ce)) (sm_stream_id t) = Some (sm_chan t)"
  obtains q ces ce1 where
    "stream_relay_step P now ev (t, ce) = (t\<lparr>sm_shutdown := True, sm_phase := SDone (Inr ())\<rparr>, ce1)"
    "ce_send P (sm_stream_id t) End [] ce0 = (q, ces)"
    "ci_onion_keys (ce_circuit ce1) = ci_onion_keys (ce_circuit ces)"
    "ci_entry_writer (ce_circuit ce1) = ci_entry_writer (ce_circuit ces)"
    "ci_stream_senders (ce_circuit ce1) = hm_remove (sm_stream_id t) (ci_stream_senders (ce_circuit ce))"
    "length (ce_channels ce1) = length (ce_channels ce)"
    "\<forall>b. b \<noteq> sm_chan t \<longrightarrow> ce_channels ce1 ! b = ce_channels ce ! b"
proof -
  note t = turn_ends [OF assms(1,2)]
  obtain q ces where s: "ce_send P (sm_stream_id t) End [] ce0 = (q, ces)" by force
  note f = ce_send_frame [OF s]
  let ?ce1 = "snd (stream_relay_step P now ev (t, ce))"
  have r: "stream_relay_step P now ev (t, ce) = (t\<lparr>sm_shutdown := True, sm_phase := SDone (Inr ())\<rparr>, ?ce1)"
    using assms(1) t s by (simp add: stream_relay_step_def cleanup_stream_def stream_return_def ci_unregister_stream_def Let_def)
  show ?thesis
    by (rule that [OF r s])
      (use assms t s f in \<open>simp_all add: stream_relay_step_def cleanup_stream_def stream_return_def ci_unregister_stream_def
        Let_def ce_event_def chan_drop_sender_def\<close>)
qed

text \<open>
  The whole end: the turn and the cleanup at the client, the END at the exit, its answer back.
\<close>

definition path_close ::
  "(nat \<Rightarrow> byte) \<Rightarrow> prims \<Rightarrow> nat \<Rightarrow> nat \<Rightarrow> stream_event \<Rightarrow> stream_task \<times> path_state \<Rightarrow> (stream_task \<times> path_state) option"
where
  "path_close rnd P now p ev st =
     (let (t, ps) = st; (t1, ce1) = stream_relay_step P now ev (t, ps_client ps) in
      case wire (ci_entry_writer (ce_circuit (ps_client ps))) (ci_entry_writer (ce_circuit ce1)) of None \<Rightarrow> None
      | Some m \<Rightarrow> map_option (Pair t1) (exit_answers rnd P now p m (ps\<lparr>ps_client := ce1\<rparr>)))"

lemma path_close_ok:
  assumes "path_sync P ps" "streams_open ps sids" "sm_stream_id t \<in> sids"
    and "hm_get (ci_stream_senders (ce_circuit (ps_client ps))) (sm_stream_id t) = Some (sm_chan t)"
    and "stream_turn P now ev (t, ps_client ps) = (False, st)" "\<forall>buf. ev \<noteq> ClientData buf"
  shows "\<exists>ps2 xe xh w. path_close rnd P now p ev (t, ps) = Some (t\<lparr>sm_shutdown := True, sm_phase := SDone (Inr ())\<rparr>, ps2) \<and>
    path_sync P ps2 \<and> streams_open ps2 (sids - {sm_stream_id t}) \<and>
    (\<forall>j \<in> sids - {sm_stream_id t}. pipe_of ps2 j = pipe_of ps j) \<and>
    hm_get (ci_stream_senders (ce_circuit (ps_client ps2))) (sm_stream_id t) = None \<and>
    ps_exit ps2 = (xe, xh, w) \<and> hm_get (xh_streams xh) (sm_stream_id t) = None \<and>
    (\<forall>s. hm_get (xh_streams (fst (snd (ps_exit ps)))) (sm_stream_id t) = Some s \<longrightarrow> \<not> tk_sender (xw_tasks w ! es_task s))"
proof -
  let ?sid = "sm_stream_id t" and ?ce = "ps_client ps"
  obtain xe xh w where x: "ps_exit ps = (xe, xh, w)" by (metis prod_cases3)
  have wf: "exit_wf (xh, w)" by (rule path_sync_exit_wf [OF assms(1) x])
  obtain t0 ce0 where turn: "stream_turn P now ev (t, ?ce) = (False, (t0, ce0))" using assms(5) by (cases st) auto
  obtain q ces ce1 where e: "stream_relay_step P now ev (t, ?ce) = (t\<lparr>sm_shutdown := True, sm_phase := SDone (Inr ())\<rparr>, ce1)"
    "ce_send P ?sid End [] ce0 = (q, ces)"
    "ci_onion_keys (ce_circuit ce1) = ci_onion_keys (ce_circuit ces)"
    "ci_entry_writer (ce_circuit ce1) = ci_entry_writer (ce_circuit ces)"
    "ci_stream_senders (ce_circuit ce1) = hm_remove ?sid (ci_stream_senders (ce_circuit ?ce))"
    "length (ce_channels ce1) = length (ce_channels ?ce)" "\<forall>b. b \<noteq> sm_chan t \<longrightarrow> ce_channels ce1 ! b = ce_channels ?ce ! b"
    by (rule relay_step_end [OF turn assms(6,4)])
  have c0: "ce_circuit ce0 = ce_circuit ?ce" using turn_ends [OF turn assms(6)] by simp
  obtain m ps2 w' where r: "wire (ci_entry_writer (ce_circuit ?ce)) (ci_entry_writer (ce_circuit ce1)) = Some m"
    "exit_answers rnd P now p m (ps\<lparr>ps_client := ce1\<rparr>) = Some ps2" "path_sync P ps2"
    "ps_exit ps2 = (xe, xh\<lparr>xh_streams := hm_remove ?sid (xh_streams xh)\<rparr>, w')"
    "xw_tasks w' = (case hm_get (xh_streams xh) ?sid of None \<Rightarrow> xw_tasks w
      | Some s \<Rightarrow> (xw_tasks w)[es_task s := (xw_tasks w ! es_task s)\<lparr>tk_sender := False\<rparr>])"
    "length (xw_cryptos w') = length (xw_cryptos w)" "xw_writers w' = xw_writers w"
    "ce_channels (ps_client ps2) = ce_channels ce1"
    "ci_stream_senders (ce_circuit (ps_client ps2)) = ci_stream_senders (ce_circuit ce1)"
    using end_journey [OF assms(1) x _ _ e(2,3,4), of rnd now p] c0 e(5) by (auto simp: ps_keys_def)
  have others: "stream_open ps2 j \<and> pipe_of ps2 j = pipe_of ps j" if j: "j \<in> sids - {?sid}" for j
  proof (rule stream_open_frame [OF _ x r(4)])
    show "stream_open ps j" using assms(2) j by (simp add: streams_open_def)
    fix s assume s: "hm_get (xh_streams xh) j = Some s" "es_task s < length (xw_tasks w)"
    show "xw_tasks w' ! es_task s = xw_tasks w ! es_task s \<and> es_task s < length (xw_tasks w')"
      using stream_task_inject [OF wf s(1), of ?sid] j s(2)
      by (cases "hm_get (xh_streams xh) ?sid") (auto simp: r(5))
  next
    fix b assume b: "hm_get (ci_stream_senders (ce_circuit ?ce)) j = Some b" "b < length (ce_channels ?ce)"
    have "inj_on (hm_get (ci_stream_senders (ce_circuit ?ce))) sids" using assms(2) by (simp add: streams_open_def)
    with inj_onD [OF this, of j ?sid] assms(3,4) j b(1) have "b \<noteq> sm_chan t" by auto
    with b(2) e(6,7) r(8) show "ce_channels (ps_client ps2) ! b = ce_channels ?ce ! b \<and> b < length (ce_channels (ps_client ps2))" by simp
  qed (use j r e(5) in simp_all)
  have "inj_on (hm_get (ci_stream_senders (ce_circuit (ps_client ps2)))) (sids - {?sid})"
    using assms(2) unfolding r(9) e(5) by (auto simp: streams_open_def inj_on_def)
  with others have "streams_open ps2 (sids - {?sid})" by (simp add: streams_open_def)
  moreover have "path_close rnd P now p ev (t, ps) = Some (t\<lparr>sm_shutdown := True, sm_phase := SDone (Inr ())\<rparr>, ps2)"
    using e(1) r(1,2) by (simp add: path_close_def)
  moreover have "\<not> tk_sender (xw_tasks w' ! es_task s)" if "hm_get (xh_streams xh) ?sid = Some s" for s
    using wf that r(5) by (simp add: exit_wf_def)
  ultimately show ?thesis using r(3,4,9) e(5) others x by (intro exI [of _ ps2] exI [of _ xe] exI [of _ "xh\<lparr>xh_streams := hm_remove ?sid (xh_streams xh)\<rparr>"] exI [of _ w']) simp
qed



section \<open>A destination that cannot be reached\<close>

lemma exit_begin_refused:
  assumes "exit_wf (h, w)" "xh_shared h = Some a" "c = xw_cryptos w ! a" "command m = Begin"
    and "data m = fst (apply_forward (re_prims e) (ec_cipher c) d)"
    and "digest m = fst (rd_update (re_prims e) (ec_forward_digest c) (stream_id m) (to_u8 Begin) d)"
    and "from_utf8 d = Inr s" "\<not> re_dest e (trim_end_nul s)"
    and "c1 = c\<lparr>ec_cipher := snd (apply_forward (re_prims e) (ec_cipher c) d),
      ec_forward_digest := snd (rd_update (re_prims e) (ec_forward_digest c) (stream_id m) (to_u8 Begin) d)\<rparr>"
    and "exit_seal (re_prims e) (cx_circuit_id (xh_context h)) (stream_id m) End
      (str_bytes (''Connection failed: '' @ re_os_error e)) c1 = (r, c2)"
  shows "\<exists>w'. exit_handle_message (e, Some p) m (h, w) = (Inr (Some r), (h, w')) \<and>
    xw_tasks w' = xw_tasks w \<and> xw_cryptos w' = (xw_cryptos w)[a := c2] \<and> xw_writers w' = xw_writers w"
proof -
  have op: "exit_open (re_prims e) m c = ((True, d), c1)"
    using exit_open_sealed [OF assms(5)] assms(4,6,9) by simp
  have a: "a < length (xw_cryptos w)" using assms(1,2) by (simp add: exit_wf_def)
  have "exit_handle_message (e, Some p) m (h, w) = exit_begin_failed e m a (h, set_crypto a c1 w)"
    using assms(2,4,7,8) op by (simp add: exit_handle_message_def exit_handle_begin_def assms(3) [symmetric])
  with a assms(10) show ?thesis by (simp add: exit_begin_failed_def Let_def)
qed

text \<open>
  BEGIN, the exit's END back to the task's channel, the task's wait and cleanup, its own END,
  and the answer to that.
\<close>

definition path_refused ::
  "(nat \<Rightarrow> byte) \<Rightarrow> prims \<Rightarrow> nat \<Rightarrow> nat \<Rightarrow> stream_task \<times> path_state \<Rightarrow> (stream_task \<times> path_state) option"
where
  "path_refused rnd P now p st =
     (let (t, ps) = st; (t1, ce1) = stream_open_step P now (t, ps_client ps) in
      case wire (ci_entry_writer (ce_circuit (ps_client ps))) (ci_entry_writer (ce_circuit ce1)) of None \<Rightarrow> None
      | Some m \<Rightarrow>
        case exit_answers rnd P now p m (ps\<lparr>ps_client := ce1\<rparr>) of None \<Rightarrow> None
        | Some ps \<Rightarrow>
          let (t2, ce2) = stream_wait_step P now False True (t1, ps_client ps) in
          case wire (ci_entry_writer (ce_circuit (ps_client ps))) (ci_entry_writer (ce_circuit ce2)) of None \<Rightarrow> None
          | Some m \<Rightarrow> map_option (Pair t2) (exit_answers rnd P now p m (ps\<lparr>ps_client := ce2\<rparr>)))"

lemma wait_refused:
  assumes "chan_queue (ce_channels ce ! b) = [m]" "command m = End"
    and "hm_get (ci_stream_senders (ce_circuit ce)) sid = Some b" "sm_stream_id t = sid" "sm_chan t = b"
    and "t2 = t\<lparr>sm_replies := sm_replies t @ [RepGeneralFailure], sm_shutdown := True,
      sm_phase := SDone (Inl (Msg (''Expected CONNECTED for stream '' @ show_u16 sid @ '', got '' @ show_command End)))\<rparr>"
  obtains q ce0 ces ce1 where
    "stream_wait_step P now False True (t, ce) = (t2, ce1)"
    "ce_circuit ce0 = ce_circuit ce" "ce_send P sid End [] ce0 = (q, ces)"
    "ci_onion_keys (ce_circuit ce1) = ci_onion_keys (ce_circuit ces)"
    "ci_entry_writer (ce_circuit ce1) = ci_entry_writer (ce_circuit ces)"
    "ci_stream_senders (ce_circuit ce1) = hm_remove sid (ci_stream_senders (ce_circuit ce))"
    "length (ce_channels ce1) = length (ce_channels ce)"
    "\<forall>b'. b' \<noteq> b \<longrightarrow> ce_channels ce1 ! b' = ce_channels ce ! b'"
proof -
  let ?ce0 = "ce\<lparr>ce_channels := (ce_channels ce)[b := (ce_channels ce ! b)\<lparr>chan_queue := []\<rparr>]\<rparr>"
  obtain q ces where s: "ce_send P sid End [] ?ce0 = (q, ces)" by force
  note f = ce_send_frame [OF s]
  let ?ce1 = "snd (stream_wait_step P now False True (t, ce))"
  note defs = stream_wait_step_def chan_recv_def cleanup_stream_def stream_return_def ci_unregister_stream_def Let_def
  have r: "stream_wait_step P now False True (t, ce) = (t2, ?ce1)"
    using assms(1,2,4-6) s by (simp add: defs del: show_command.simps)
  show ?thesis
    by (rule that [OF r _ s]) (use assms(1-5) s f in \<open>simp_all add: defs chan_drop_sender_def\<close>)
qed

lemma path_refused_ok:
  assumes "path_sync P ps" "streams_open ps sids"
    and "utf8_ok (str_bytes (sm_destination t))" "CHR 0x00 \<notin> set (sm_destination t)"
    and "length (sm_destination t) < MAX_PAYLOAD_SIZE"
    and "ps_exit ps = (xe, xh, w)" "\<not> re_dest xe (sm_destination t)"
    and "length (''Connection failed: '' @ re_os_error xe) \<le> MAX_PAYLOAD_SIZE"
    and "ci_allocate_stream_id (ce_circuit (ps_client ps)) = (sid, c)"
    and "hm_get (xh_streams xh) sid = None" "hm_get (ci_stream_senders (ce_circuit (ps_client ps))) sid = None"
  shows "\<exists>t2 ps2. path_refused rnd P now p (t, ps) = Some (t2, ps2) \<and> path_sync P ps2 \<and> streams_open ps2 sids \<and>
    (\<forall>j \<in> sids. pipe_of ps2 j = pipe_of ps j) \<and> sm_replies t2 = sm_replies t @ [RepGeneralFailure] \<and> sm_shutdown t2 \<and>
    sm_phase t2 = SDone (Inl (Msg (''Expected CONNECTED for stream '' @ show_u16 sid @ '', got '' @ show_command End))) \<and>
    hm_get (ci_stream_senders (ce_circuit (ps_client ps2))) sid = None \<and>
    hm_get (xh_streams (fst (snd (ps_exit ps2)))) sid = None"
proof -
  let ?d = "str_bytes (sm_destination t @ [CHR 0x00])" and ?ce = "ps_client ps"
  let ?why = "str_bytes (''Connection failed: '' @ re_os_error xe)" let ?b = "length (ce_channels ?ce)"
  let ?chs = "ce_channels ?ce @ [\<lparr>chan_queue = [], chan_sender = True, chan_receiver = True\<rparr>]"
  obtain a where a: "xh_shared xh = Some a" "re_prims xe = P" "exit_wf (xh, w)"
    by (rule path_syncE [OF assms(1)]) (use assms(6) in auto)
  have al: "a < length (xw_cryptos w)" using a(1,3) by (simp add: exit_wf_def)
  let ?x = "xw_cryptos w ! a"
  let ?x1 = "?x\<lparr>ec_cipher := snd (apply_forward P (ec_cipher ?x) ?d),
         ec_forward_digest := snd (rd_update P (ec_forward_digest ?x) sid (to_u8 Begin) ?d)\<rparr>"
  let ?t1 = "t\<lparr>sm_circuit_id := ci_circuit_id c, sm_stream_id := sid, sm_chan := ?b, sm_phase := SWaiting\<rparr>"
  obtain ce1 m0 m ps1 where b: "stream_open_step P now (t, ?ce) = (?t1, ce1)"
    "wire (ci_entry_writer (ce_circuit ?ce)) (ci_entry_writer (ce_circuit ce1)) = Some m0"
    "relays_forward m0 (ps\<lparr>ps_client := ce1\<rparr>) = Some (m, ps1)" "ps_client ps1 = ce1" "ps_exit ps1 = (xe, xh, w)"
    "ce_channels ce1 = ?chs" "ci_stream_senders (ce_circuit ce1) = hm_insert sid ?b (ci_stream_senders (ce_circuit ?ce))"
    "stream_id m = sid" "command m = Begin" "data m = fst (apply_forward P (ec_cipher ?x) ?d)"
    "digest m = fst (rd_update P (ec_forward_digest ?x) sid (to_u8 Begin) ?d)"
    and sync1: "\<And>xh' w'. exit_wf (xh', w') \<Longrightarrow> xh_shared xh' = Some a \<Longrightarrow> xw_cryptos w' ! a = ?x1 \<Longrightarrow>
       path_sync P (ps1\<lparr>ps_exit := (xe, xh', w')\<rparr>)"
    by (rule begin_journey [OF assms(1,5,6,9,11) a(1) refl refl refl refl refl, of now]) (rule that; assumption?; simp only:)
  obtain r c2 where seal: "exit_seal P (cx_circuit_id (xh_context xh)) sid End ?why ?x1 = (r, c2)" by force
  have utf: "from_utf8 ?d = Inr (sm_destination t @ [CHR 0x00])"
    using utf8_ok_nul [OF assms(3)] bytes_str_str_bytes [of "sm_destination t @ [CHR 0x00]"]
    by (simp add: from_utf8_def str_bytes_def del: bytes_str_str_bytes)
  obtain w' where w': "exit_handle_message (xe, Some p) m (xh, w) = (Inr (Some r), (xh, w'))"
    "xw_tasks w' = xw_tasks w" "xw_cryptos w' = (xw_cryptos w)[a := c2]" "xw_writers w' = xw_writers w"
    using exit_begin_refused [OF a(3,1) refl b(9) _ _ utf _ refl, of xe r c2 p] trim_plain [OF assms(4)]
      b(8,10,11) a(2) assms(7) seal by auto
  have "exit_wf (xh, set_crypto a ?x1 w)" using a(3) by (simp add: exit_wf_def set_crypto_def)
  from sync1 [OF this a(1)] al have syncx: "path_sync P (ps1\<lparr>ps_exit := (xe, xh, set_crypto a ?x1 w)\<rparr>)" by (simp add: set_crypto_def)
  let ?ended = "msg_new (cx_circuit_id (xh_context xh)) sid End ?why"
  obtain psa where bk: "exit_answers rnd P now p m0 (ps\<lparr>ps_client := ce1\<rparr>) = Some psa" "path_sync P psa" "ps_exit psa = (xe, xh, w')"
    "ce_channels (ps_client psa) = ce_channels ?ce @ [\<lparr>chan_queue = [?ended], chan_sender = True, chan_receiver = True\<rparr>]"
    "ci_stream_senders (ce_circuit (ps_client psa)) = hm_insert sid ?b (ci_stream_senders (ce_circuit ?ce))"
    using answer_journey [OF b(3,5) a(3,1) syncx seal _ _ w'(1) a(1) w'(3), of rnd now] assms(8) b(4,6,7)
    by (auto simp: chan_send_def)
  let ?t2 = "?t1\<lparr>sm_replies := sm_replies t @ [RepGeneralFailure], sm_shutdown := True,
    sm_phase := SDone (Inl (Msg (''Expected CONNECTED for stream '' @ show_u16 sid @ '', got '' @ show_command End)))\<rparr>"
  have wq: "chan_queue (ce_channels (ps_client psa) ! ?b) = [?ended]" "command ?ended = End"
    "hm_get (ci_stream_senders (ce_circuit (ps_client psa))) sid = Some ?b" "sm_stream_id ?t1 = sid" "sm_chan ?t1 = ?b"
    by (simp_all add: bk(4,5) msg_new_def)
  have t2: "?t2 = ?t1\<lparr>sm_replies := sm_replies ?t1 @ [RepGeneralFailure], sm_shutdown := True,
    sm_phase := SDone (Inl (Msg (''Expected CONNECTED for stream '' @ show_u16 sid @ '', got '' @ show_command End)))\<rparr>"
    by (simp del: show_command.simps)
  obtain q ce0 ces ce2 where
    wt: "stream_wait_step P now False True (?t1, ps_client psa) = (?t2, ce2)"
    "ce_circuit ce0 = ce_circuit (ps_client psa)" "ce_send P sid End [] ce0 = (q, ces)"
    "ci_onion_keys (ce_circuit ce2) = ci_onion_keys (ce_circuit ces)"
    "ci_entry_writer (ce_circuit ce2) = ci_entry_writer (ce_circuit ces)"
    "ci_stream_senders (ce_circuit ce2) = hm_remove sid (ci_stream_senders (ce_circuit (ps_client psa)))"
    "length (ce_channels ce2) = length (ce_channels (ps_client psa))"
    "\<forall>b'. b' \<noteq> ?b \<longrightarrow> ce_channels ce2 ! b' = ce_channels (ps_client psa) ! b'"
    by (rule wait_refused [OF wq t2, of P now]) (rule that)
  obtain m2 ps2 w2 where r: "wire (ci_entry_writer (ce_circuit (ps_client psa))) (ci_entry_writer (ce_circuit ce2)) = Some m2"
    "exit_answers rnd P now p m2 (psa\<lparr>ps_client := ce2\<rparr>) = Some ps2" "path_sync P ps2"
    "ps_exit ps2 = (xe, xh\<lparr>xh_streams := hm_remove sid (xh_streams xh)\<rparr>, w2)" "xw_tasks w2 = xw_tasks w'"
    "length (xw_cryptos w2) = length (xw_cryptos w')" "xw_writers w2 = xw_writers w'"
    "ce_channels (ps_client ps2) = ce_channels ce2"
    "ci_stream_senders (ce_circuit (ps_client ps2)) = ci_stream_senders (ce_circuit ce2)"
    using end_journey [OF bk(2,3) _ _ wt(3-5), of rnd now p] wt(2,6) assms(10) by (auto simp: ps_keys_def)
  have run: "path_refused rnd P now p (t, ps) = Some (?t2, ps2)"
    using b(1,2) bk(1) wt(1) r(1,2) by (simp add: path_refused_def del: show_command.simps)
  have senders: "hm_get (ci_stream_senders (ce_circuit (ps_client ps2))) j =
      (if j = sid then None else hm_get (ci_stream_senders (ce_circuit ?ce)) j)" for j
    by (simp add: r(9) wt(6) bk(5))
  have others: "stream_open ps2 j \<and> pipe_of ps2 j = pipe_of ps j \<and> j \<noteq> sid" if "j \<in> sids" for j
  proof -
    have o: "stream_open ps j" using assms(2) that by (simp add: streams_open_def)
    then have ne: "j \<noteq> sid" using assms(6,10) by (auto simp: stream_open_def)
    have "stream_open ps2 j \<and> pipe_of ps2 j = pipe_of ps j"
      by (rule stream_open_frame [OF o assms(6) r(4)])
        (use ne senders r(5-8) wt(7,8) w'(2-4) bk(4) in \<open>simp_all add: nth_append\<close>)
    with ne show ?thesis by simp
  qed
  have "inj_on (hm_get (ci_stream_senders (ce_circuit (ps_client ps2)))) sids"
    using assms(2) others by (auto simp: streams_open_def inj_on_def senders)
  with run r(3,4) others senders show ?thesis
    by (intro exI [of _ ?t2] exI [of _ ps2]) (simp add: streams_open_def del: show_command.simps)
qed

text \<open>
  C8. A stream that the exit cannot open leaves no trace. The exit's END says so to the
  waiting task, which answers the SOCKS5 client with a general failure, shuts its socket and
  returns the error; it unregisters the id and sends its own END, whose answer disturbs
  nobody. The id is free again at both ends, the streams that were open keep their queues,
  and the client and the relays agree again.
\<close>

theorem stream_refused_end_to_end:
  assumes "path_sync P ps" "streams_open ps sids"
    and "utf8_ok (str_bytes (sm_destination t))" "CHR 0x00 \<notin> set (sm_destination t)"
    and "length (sm_destination t) < MAX_PAYLOAD_SIZE"
    and "ps_exit ps = (xe, xh, w)" "\<not> re_dest xe (sm_destination t)"
    and "length (''Connection failed: '' @ re_os_error xe) \<le> MAX_PAYLOAD_SIZE"
    and "ci_allocate_stream_id (ce_circuit (ps_client ps)) = (sid, c)"
    and "hm_get (xh_streams xh) sid = None" "hm_get (ci_stream_senders (ce_circuit (ps_client ps))) sid = None"
  shows "\<exists>t2 ps2. path_refused rnd P now p (t, ps) = Some (t2, ps2) \<and> path_sync P ps2 \<and> streams_open ps2 sids \<and>
    (\<forall>j \<in> sids. pipe_of ps2 j = pipe_of ps j) \<and> sm_replies t2 = sm_replies t @ [RepGeneralFailure] \<and> sm_shutdown t2 \<and>
    sm_phase t2 = SDone (Inl (Msg (''Expected CONNECTED for stream '' @ show_u16 sid @ '', got '' @ show_command End))) \<and>
    hm_get (ci_stream_senders (ce_circuit (ps_client ps2))) sid = None \<and>
    hm_get (xh_streams (fst (snd (ps_exit ps2)))) sid = None"
  using path_refused_ok [OF assms] .

theorem stream_refused_end_to_end_witness:
  "\<exists>t2 ps2. path_refused (\<lambda>i. 0) toy_prims 0 0 (stream_new ''web:80'',
      sample_path\<lparr>ps_exit := (sample_env\<lparr>re_dest := \<lambda>d. False\<rparr>, sample_exit, sample_world)\<rparr>) = Some (t2, ps2) \<and>
     streams_open ps2 {1} \<and> sm_replies t2 = [RepGeneralFailure]"
proof -
  let ?xe = "sample_env\<lparr>re_dest := \<lambda>d. False\<rparr>"
  let ?ps = "sample_path\<lparr>ps_exit := (?xe, sample_exit, sample_world)\<rparr>"
  have s: "path_sync toy_prims ?ps" "streams_open ?ps {1}"
    using sample_exit_wf
    by (simp_all add: path_sync_def streams_open_def stream_open_def sample_path_def ps_keys_def onion_keys_new_def
      sample_entry_def sample_middle_def sample_hop_def sample_writer_def sample_env_def sample_exit_def sample_world_def
      sample_crypto_def hm_get_def sample_task_def task_ready_def)
  have d: "sm_destination (stream_new ''web:80'') = ''web:80''" "sm_replies (stream_new ''web:80'') = []"
    by (simp_all add: stream_new_def)
  have u: "utf8_ok (str_bytes ''web:80'')" by code_simp
  have c: "ci_allocate_stream_id (ce_circuit (ps_client ?ps)) =
      (2, (ce_circuit (ps_client sample_path))\<lparr>ci_next_stream_id := 3\<rparr>)"
    "hm_get (xh_streams sample_exit) 2 = None" "hm_get (ci_stream_senders (ce_circuit (ps_client ?ps))) 2 = None"
    "re_os_error ?xe = ''connection refused''"
    by (simp_all add: sample_path_def sample_exit_def sample_env_def ci_allocate_stream_id_def hm_get_def)
  from stream_refused_end_to_end [OF s, of "stream_new ''web:80''" ?xe sample_exit sample_world 2 _ "\<lambda>i. 0" 0 0] u c
  show ?thesis by (auto simp: d MAX_PAYLOAD_SIZE_eq)
qed

end
