(* ===== verification/Client_Main.thy ===== *)
theory Client_Main
  imports Client_Stream Node_Setup Circuit_Build
begin

text \<open>
  The client process (\<open>tor-client/src/main.rs\<close>, \<open>run\<close> and \<open>handle_connection\<close> in
  \<open>tor-client/src/client/socks_proxy.rs\<close>): the configuration it ends up with, the pool it
  fills before it listens, and then everything that runs at once: the accept loop, one task
  for each SOCKS5 connection, one reader for each circuit, the monitor and the keepalive.
  The tasks share the pool, the circuits, the channels and the metrics; an event says which
  of them runs next, for as long as it holds its locks, and what it sees from outside. The
  theorems are about every sequence of events from the start on.
\<close>

section \<open>Start\<close>

text \<open>The answer to the question that the largest circuits raise.\<close>

definition confirmed :: "string \<Rightarrow> bool" where
  "confirmed line = (eq_ignore_ascii_case (str_trim line) ''y'' \<or> eq_ignore_ascii_case (str_trim line) ''yes'')"

text \<open>Exit with status 0, an error, or on with the start; the wizard may still be waiting for keys.\<close>

datatype 'a launch = Aborts | Waits | Fails any_error | Goes 'a

definition client_config_of :: "client_config \<Rightarrow> key list \<Rightarrow> any_error + string \<Rightarrow> client_config launch" where
  "client_config_of c keys answer =
     (if cc_tui c
      then case cw_loop keys (cw_new c) of Editing w \<Rightarrow> Waits | Quit \<Rightarrow> Aborts | Launched c \<Rightarrow> Goes c
      else if cc_hops c = MAX_HOPS
      then case answer of
          Inl er \<Rightarrow> Fails (Msg ''Failed to read confirmation'')
        | Inr line \<Rightarrow> if confirmed line then Goes c else Aborts
      else Goes c)"

datatype conn_phase =
    ConnAccepted                      \<comment> \<open>the SOCKS5 handshake\<close>
  | ConnStreaming nat stream_task     \<comment> \<open>\<open>handle_stream\<close> on the circuit at an address\<close>
  | ConnDone "any_error + unit"

record socks_conn =
  sn_peer :: socket_addr
  sn_phase :: conn_phase
  sn_replies :: "socks_rep list"  \<comment> \<open>of \<open>handle_connection\<close> itself\<close>

record client_proc =
  cl_pool :: pool_state
  cl_channels :: "channel list"
  cl_conns :: "socks_conn list"
  cl_running :: bool  \<comment> \<open>the accept loop\<close>

text \<open>
  From the directory's channel to the SOCKS5 listener: \<open>connected\<close> and \<open>bound\<close> are how the
  two library calls end.
\<close>

definition client_start :: "pool_env \<Rightarrow> nat \<Rightarrow> client_config \<Rightarrow> any_error + unit \<Rightarrow> any_error + unit \<Rightarrow> any_error + client_proc" where
  "client_start e now c connected bound =
     (case connected of
        Inl er \<Rightarrow> Inl er
      | Inr _ \<Rightarrow>
          let p = cp_set_metrics (cp_new (cc_pool_size c) (cc_hops c) (cc_max_rebuild_attempts c));
              w = \<lparr>pw_store = [], pw_metrics = client_metrics_new now, pw_readers = [], pw_builds = 0\<rparr>
          in case cp_initialize e (p, w) of
               (Inl er, st) \<Rightarrow> Inl er
             | (Inr built, st) \<Rightarrow>
                 let st = fold (\<lambda>(a, rd). spawn_reader a rd) built st
                 in (case bound of
                       Inl er \<Rightarrow> Inl (Msg ''Failed to bind SOCKS5 server'')
                     | Inr _ \<Rightarrow> Inr \<lparr>cl_pool = st, cl_channels = [], cl_conns = [], cl_running = True\<rparr>))"

section \<open>What runs\<close>

text \<open>A computation on one circuit, which also reaches the channels and the metrics.\<close>

definition circuit_end :: "nat \<Rightarrow> client_proc \<Rightarrow> client_end" where
  "circuit_end a s = \<lparr>ce_circuit = pw_store (snd (cl_pool s)) ! a, ce_channels = cl_channels s,
     ce_metrics = pw_metrics (snd (cl_pool s))\<rparr>"

definition put_end :: "nat \<Rightarrow> client_end \<Rightarrow> client_proc \<Rightarrow> client_proc" where
  "put_end a ce s = (let (p, w) = cl_pool s in
     s\<lparr>cl_pool := (p, w\<lparr>pw_store := (pw_store w)[a := ce_circuit ce], pw_metrics := ce_metrics ce\<rparr>),
       cl_channels := ce_channels ce\<rparr>)"

definition cl_event :: "nat \<Rightarrow> client_event \<Rightarrow> client_proc \<Rightarrow> client_proc" where
  "cl_event now k s = s\<lparr>cl_pool := (fst (cl_pool s), pw_update True (cm_push_event now k) (snd (cl_pool s)))\<rparr>"

definition set_conn :: "nat \<Rightarrow> socks_conn \<Rightarrow> client_proc \<Rightarrow> client_proc" where
  "set_conn k cn s = s\<lparr>cl_conns := (cl_conns s)[k := cn]\<rparr>"

text \<open>The accept loop.\<close>

definition proxy_accept :: "nat \<Rightarrow> socket_addr \<Rightarrow> client_proc \<Rightarrow> client_proc" where
  "proxy_accept now peer s =
     (let (p, w) = cl_pool s;
          w = pw_update True (\<lambda>m. m\<lparr>cm_connections_accepted := cm_connections_accepted m + 1\<rparr>) w
      in s\<lparr>cl_pool := (p, w), cl_conns := cl_conns s @ [\<lparr>sn_peer = peer, sn_phase = ConnAccepted, sn_replies = []\<rparr>]\<rparr>)"

definition proxy_accept_failed :: "nat \<Rightarrow> string \<Rightarrow> client_proc \<Rightarrow> client_proc" where
  "proxy_accept_failed now err s = cl_event now (ClientError (''Accept failed: '' @ err)) s"

text \<open>The task of a connection returns.\<close>

definition conn_return :: "pool_env \<Rightarrow> nat \<Rightarrow> nat \<Rightarrow> socks_conn \<Rightarrow> any_error + unit \<Rightarrow> client_proc \<Rightarrow> client_proc" where
  "conn_return e now k cn r s =
     (let s = set_conn k (cn\<lparr>sn_phase := ConnDone r\<rparr>) s in
      case r of
        Inr _ \<Rightarrow> s
      | Inl er \<Rightarrow> cl_event now (ClientError (''Connection from '' @ show_socket_addr (sn_peer cn) @ '' failed: '' @ pe_error_text e er)) s)"

text \<open>Its handshake, and the circuit its stream goes over.\<close>

definition conn_request :: "pool_env \<Rightarrow> nat \<Rightarrow> nat \<Rightarrow> socks_conn \<Rightarrow> socks_request \<Rightarrow> client_proc \<Rightarrow> client_proc" where
  "conn_request e now k cn req s =
     (case socks_connect e now (sn_peer cn) req (cl_pool s) of
        (Inl er, replies, st) \<Rightarrow> conn_return e now k (cn\<lparr>sn_replies := sn_replies cn @ replies\<rparr>) (Inl er) (s\<lparr>cl_pool := st\<rparr>)
      | (Inr (a, dest), replies, st) \<Rightarrow>
          set_conn k (cn\<lparr>sn_replies := sn_replies cn @ replies, sn_phase := ConnStreaming a (stream_new dest)\<rparr>) (s\<lparr>cl_pool := st\<rparr>))"

text \<open>A step of its stream, in the phase the step is for.\<close>

definition conn_stream :: "nat \<Rightarrow> stream_phase \<Rightarrow> (stream_state \<Rightarrow> stream_state) \<Rightarrow> client_proc \<Rightarrow> client_proc" where
  "conn_stream k ph f s =
     (case get_at (cl_conns s) k of
        None \<Rightarrow> s
      | Some cn \<Rightarrow>
          (case sn_phase cn of
             ConnStreaming a t \<Rightarrow>
               if sm_phase t = ph
               then let (t, ce) = f (t, circuit_end a s)
                    in set_conn k (cn\<lparr>sn_phase := ConnStreaming a t\<rparr>) (put_end a ce s)
               else s
           | _ \<Rightarrow> s))"

text \<open>What follows \<open>handle_stream\<close>.\<close>

definition conn_finish :: "pool_env \<Rightarrow> nat \<Rightarrow> nat \<Rightarrow> client_proc \<Rightarrow> client_proc" where
  "conn_finish e now k s =
     (case get_at (cl_conns s) k of
        None \<Rightarrow> s
      | Some cn \<Rightarrow>
          (case sn_phase cn of
             ConnStreaming a t \<Rightarrow>
               (case sm_phase t of
                  SDone r \<Rightarrow> conn_return e now k cn r (s\<lparr>cl_pool := socks_finish e now a r (cl_pool s)\<rparr>)
                | _ \<Rightarrow> s)
           | _ \<Rightarrow> s))"

text \<open>One turn of a reader: what is left to read, unless it ends.\<close>

definition reader_turn :: "prims \<Rightarrow> nat \<Rightarrow> reader \<Rightarrow> client_end \<Rightarrow> reader option \<times> client_end" where
  "reader_turn P now rd ce =
     (case from_stream rd of
        (Inr (Some m), rd) \<Rightarrow>
          (case reader_message P now m ce of
             (True, ce) \<Rightarrow> (Some rd, ce)
           | (False, ce) \<Rightarrow> (None, reader_exit ce))
      | (Inr None, rd) \<Rightarrow> (None, reader_exit (reader_closed now ce))
      | (Inl e, rd) \<Rightarrow> (None, reader_exit (reader_closed now ce)))"

lemma circuit_reader_turn:
  "circuit_reader (Suc n) P now rd ce =
     (case reader_turn P now rd ce of (None, ce) \<Rightarrow> ce | (Some rd, ce) \<Rightarrow> circuit_reader n P now rd ce)"
  by (auto simp: reader_turn_def split: prod.splits sum.splits option.splits bool.splits)

definition proc_read :: "prims \<Rightarrow> nat \<Rightarrow> nat \<Rightarrow> client_proc \<Rightarrow> client_proc" where
  "proc_read P now i s =
     (case get_at (pw_readers (snd (cl_pool s))) i of
        None \<Rightarrow> s
      | Some (a, rd) \<Rightarrow>
          let (r, ce) = reader_turn P now rd (circuit_end a s); s = put_end a ce s; (p, w) = cl_pool s;
              rs = pw_readers w
          in s\<lparr>cl_pool := (p, w\<lparr>pw_readers := (case r of Some rd \<Rightarrow> rs[i := (a, rd)] | None \<Rightarrow> take i rs @ drop (Suc i) rs)\<rparr>)\<rparr>)"

text \<open>
  The monitor's interval, in seconds. A monitor that panics (its backoff overflows, see
  \<open>backoff_bounds\<close>) does nothing more.
\<close>

definition MONITOR_INTERVAL :: nat where "MONITOR_INTERVAL = 30"

datatype proc_event =
    Accepts socket_addr | AcceptFails string | Interrupted
  | Requests nat socks_request
  | OpensStream nat | AwaitsConnected nat bool bool | RelaysStream nat stream_event | FinishesStream nat
  | ReadsCell nat
  | MonitorRuns
  | PadsCircuits "nat \<Rightarrow> nat" "nat \<Rightarrow> byte"

fun proc_step :: "pool_env \<Rightarrow> nat \<Rightarrow> proc_event \<Rightarrow> client_proc \<Rightarrow> client_proc" where
  "proc_step e now (Accepts peer) s = (if cl_running s then proxy_accept now peer s else s)"
| "proc_step e now (AcceptFails err) s = (if cl_running s then proxy_accept_failed now err s else s)"
| "proc_step e now Interrupted s = s\<lparr>cl_running := False\<rparr>"
| "proc_step e now (Requests k req) s =
     (case get_at (cl_conns s) k of
        None \<Rightarrow> s
      | Some cn \<Rightarrow> (case sn_phase cn of ConnAccepted \<Rightarrow> conn_request e now k cn req s | _ \<Rightarrow> s))"
| "proc_step e now (OpensStream k) s = conn_stream k SOpening (stream_open_step (pe_prims e) now) s"
| "proc_step e now (AwaitsConnected k timed_out reply_ok) s =
     conn_stream k SWaiting (stream_wait_step (pe_prims e) now timed_out reply_ok) s"
| "proc_step e now (RelaysStream k ev) s = conn_stream k SRelaying (stream_relay_step (pe_prims e) now ev) s"
| "proc_step e now (FinishesStream k) s = conn_finish e now k s"
| "proc_step e now (ReadsCell i) s = proc_read (pe_prims e) now i s"
| "proc_step e now MonitorRuns s =
     (case monitor_turn e now MONITOR_INTERVAL (cl_pool s) of None \<Rightarrow> s | Some (slept, st) \<Rightarrow> s\<lparr>cl_pool := st\<rparr>)"
| "proc_step e now (PadsCircuits pick rnd) s = s\<lparr>cl_pool := keepalive_turn pick rnd (cl_pool s)\<rparr>"

fun proc_run :: "pool_env \<Rightarrow> (nat \<times> proc_event) list \<Rightarrow> client_proc \<Rightarrow> client_proc" where
  "proc_run e [] s = s"
| "proc_run e ((now, ev) # evs) s = proc_run e evs (proc_step e now ev s)"

section \<open>The start\<close>

text \<open>The \<open>i\<close>-th build of the start succeeds: a path, and a circuit over it.\<close>

definition start_builds :: "pool_env \<Rightarrow> nat \<Rightarrow> nat \<Rightarrow> bool" where
  "start_builds e hops i = (case pe_path e i hops of
     Inl er \<Rightarrow> False
   | Inr path \<Rightarrow> is_ok (build_circuit_on (pe_prims e) (pe_net e i) (pe_secret e i) (word_of_nat (Suc i)) path))"

text \<open>The pool after \<open>m\<close> builds, and the readers the initialisation has collected.\<close>

definition filled :: "nat \<Rightarrow> (nat \<times> reader) list \<Rightarrow> pool_state \<Rightarrow> bool" where
  "filled m rs st = (let (p, w) = st in
     cp_circuits p = map (\<lambda>a. (word_of_nat (Suc a), a)) [0..<m] \<and> cp_next_circuit_id p = word_of_nat (Suc m) \<and>
     cp_metrics p \<and> pw_builds w = m \<and> pw_readers w = [] \<and> length (pw_store w) = m \<and> map fst rs = [0..<m] \<and>
     (\<forall>a < m. ci_state (pw_store w ! a) = CReady \<and> ci_stream_senders (pw_store w ! a) = []) \<and>
     cm_circuits_built (pw_metrics w) = word_of_nat m \<and> pool_inv (p, w))"

lemma ids_below:
  assumes "a < m" "m < 2 ^ 32 - 1"
  shows "(word_of_nat (Suc a) :: u32) \<noteq> word_of_nat (Suc m)"
proof -
  have "unat (word_of_nat (Suc a) :: u32) = Suc a" "unat (word_of_nat (Suc m) :: u32) = Suc m"
    using assms by (simp_all add: unat_of_nat del: of_nat_Suc)
  with assms(1) show ?thesis by (metis nat_neq_iff Suc_inject)
qed

lemma update_fresh: "k \<notin> fst ` set m \<Longrightarrow> hm_insert k v m = m @ [(k, v)]"
  by (simp add: hm_insert_def AList.update_conv' [symmetric]) (induction m; auto)

lemma build_step_filled:
  assumes "filled m rs (p, w)" "m < 2 ^ 32 - 1" "start_builds e (cp_hop_count p) m"
  shows "\<exists>rd p' w'. cp_build_circuit e (p, w) = (Inr (word_of_nat (Suc m), rd), (p', w')) \<and>
    filled (Suc m) (rs @ [(m, rd)]) (p', w') \<and> cp_hop_count p' = cp_hop_count p"
proof -
  obtain path c rd where b: "pe_path e m (cp_hop_count p) = Inr path"
    "build_circuit_on (pe_prims e) (pe_net e m) (pe_secret e m) (word_of_nat (Suc m)) path = Inr (c, rd)"
    using assms(3) by (auto simp: start_builds_def is_ok_def split: sum.splits)
  note c = build_circuit_on_fields [OF b(2)]
  note f = assms(1) [unfolded filled_def Let_def prod.case]
  have new: "hm_insert (word_of_nat (Suc m)) m (cp_circuits p) = map (\<lambda>a. (word_of_nat (Suc a), a)) [0..<Suc m]"
    using f ids_below [OF _ assms(2)] by (subst update_fresh) (fastforce simp del: of_nat_Suc)+
  obtain r p' w' where r: "cp_build_circuit e (p, w) = (r, (p', w'))" by (metis prod_cases3)
  have inv: "pool_inv (p', w')" using pool_inv_build [OF _ r] f by blast
  have "r = Inr (word_of_nat (Suc m), rd) \<and> cp_hop_count p' = cp_hop_count p \<and> filled (Suc m) (rs @ [(m, rd)]) (p', w')"
    using r b f new c inv unfolding filled_def cp_build_circuit_def cp_allocate_circuit_id_def
    by (auto simp: Let_def pw_update_def cm_push_event_def nth_append less_Suc_eq)
  with r show ?thesis by auto
qed

lemma build_step_fails:
  assumes "filled m rs (p, w)" "\<not> start_builds e (cp_hop_count p) m"
  shows "\<exists>er st. cp_build_circuit e (p, w) = (Inl er, st)"
  using assms
  by (auto simp: filled_def start_builds_def cp_build_circuit_def cp_allocate_circuit_id_def Let_def
      split: sum.splits prod.splits)

lemma initialize_loop_filled:
  assumes "filled m rs (p, w)" "m + n < 2 ^ 32"
  shows "if \<forall>i < n. start_builds e (cp_hop_count p) (m + i)
    then \<exists>rs' st'. cp_initialize_loop n e rs (p, w) = (Inr rs', st') \<and> filled (m + n) rs' st'
    else \<exists>er st'. cp_initialize_loop n e rs (p, w) = (Inl er, st')"
  using assms
proof (induction n arbitrary: m rs p w)
  case (Suc n)
  show ?case
  proof (cases "start_builds e (cp_hop_count p) m")
    case True
    obtain rd p' w' where b: "cp_build_circuit e (p, w) = (Inr (word_of_nat (Suc m), rd), (p', w'))"
      "filled (Suc m) (rs @ [(m, rd)]) (p', w')" "cp_hop_count p' = cp_hop_count p"
      using build_step_filled [OF Suc.prems(1) _ True] Suc.prems(2) by auto
    have "length (pw_store w) = m" using Suc.prems(1) by (simp add: filled_def)
    with b(1) have step: "cp_initialize_loop (Suc n) e rs (p, w) = cp_initialize_loop n e (rs @ [(m, rd)]) (p', w')"
      using built_after_build [OF b(1)] by simp
    have all: "(\<forall>i < Suc n. start_builds e (cp_hop_count p) (m + i)) = (\<forall>i < n. start_builds e (cp_hop_count p) (Suc m + i))"
      using True by (auto simp: less_Suc_eq_0_disj)
    have "Suc m + n < 2 ^ 32" using Suc.prems(2) by simp
    from Suc.IH [OF b(2) this] show ?thesis unfolding step all b(3) by (simp only: add_Suc_shift)
  next
    case False
    with build_step_fails [OF Suc.prems(1) False] show ?thesis by (auto split: prod.splits)
  qed
qed auto

lemma spawn_all:
  "fold (\<lambda>(a, rd). spawn_reader a rd) rs (p, w) = (p, w\<lparr>pw_readers := pw_readers w @ rs\<rparr>)"
  by (induction rs arbitrary: w) (auto simp: spawn_reader_def)

lemma filled_start:
  "filled 0 [] (cp_set_metrics (cp_new n h m), \<lparr>pw_store = [], pw_metrics = client_metrics_new now, pw_readers = [], pw_builds = 0\<rparr>)"
  by (simp add: filled_def cp_set_metrics_def cp_new_def client_metrics_new_def pool_inv_def)

lemma client_start_cases:
  assumes "cc_pool_size c < 2 ^ 32"
  shows "is_ok (client_start e now c connected bound) \<longleftrightarrow>
    is_ok connected \<and> is_ok bound \<and> (\<forall>i < cc_pool_size c. start_builds e (cc_hops c) i)"
    and "client_start e now c connected bound = Inr s \<Longrightarrow> \<exists>rs p w. filled (cc_pool_size c) rs (p, w) \<and>
      s = \<lparr>cl_pool = (p, w\<lparr>pw_readers := rs\<rparr>), cl_channels = [], cl_conns = [], cl_running = True\<rparr>"
proof -
  let ?p = "cp_set_metrics (cp_new (cc_pool_size c) (cc_hops c) (cc_max_rebuild_attempts c))"
  let ?w = "\<lparr>pw_store = [], pw_metrics = client_metrics_new now, pw_readers = [], pw_builds = 0\<rparr>"
  have h: "cp_hop_count ?p = cc_hops c" "cp_pool_size ?p = cc_pool_size c" by (simp_all add: cp_set_metrics_def cp_new_def)
  have l: "if \<forall>i < cc_pool_size c. start_builds e (cc_hops c) i
    then \<exists>rs st. cp_initialize e (?p, ?w) = (Inr rs, st) \<and> filled (cc_pool_size c) rs st
    else \<exists>er st. cp_initialize e (?p, ?w) = (Inl er, st)"
    using initialize_loop_filled [OF filled_start, of "cc_pool_size c" e "cc_pool_size c" "cc_hops c" "cc_max_rebuild_attempts c" now]
      assms by (simp only: cp_initialize_def fst_conv h add_0) simp
  show "is_ok (client_start e now c connected bound) \<longleftrightarrow>
    is_ok connected \<and> is_ok bound \<and> (\<forall>i < cc_pool_size c. start_builds e (cc_hops c) i)"
    using l by (auto simp: client_start_def Let_def is_ok_def split: sum.splits if_splits)
  show "client_start e now c connected bound = Inr s \<Longrightarrow> \<exists>rs p w. filled (cc_pool_size c) rs (p, w) \<and>
      s = \<lparr>cl_pool = (p, w\<lparr>pw_readers := rs\<rparr>), cl_channels = [], cl_conns = [], cl_running = True\<rparr>"
    using l by (auto simp: client_start_def Let_def spawn_all filled_def split: sum.splits if_splits) blast
qed

lemma filled_get: "filled m rs (p, w) \<Longrightarrow> a < m \<Longrightarrow> hm_get (cp_circuits p) (word_of_nat (Suc a)) = Some a"
  by (subst hm_get_in_set) (auto simp: filled_def pool_inv_def simp del: of_nat_Suc)

lemma filled_selects:
  assumes "filled m rs (p, w)" "0 < m"
  shows "\<exists>a < m. cp_select_circuit e (p, w\<lparr>pw_readers := rs'\<rparr>) = (Inr (a, None), (p, w\<lparr>pw_readers := rs'\<rparr>))"
proof -
  let ?w = "w\<lparr>pw_readers := rs'\<rparr>"
  have f: "hm_wf (cp_circuits p)" "cp_circuits p = map (\<lambda>a. (word_of_nat (Suc a), a)) [0..<m]" "ready_at ?w 0"
    using assms unfolding filled_def pool_inv_def Let_def prod.case by auto
  have "(word_of_nat (Suc 0), 0) \<in> set (cp_circuits p)" using assms(2) unfolding f(2) by force
  with f(3) obtain i n where b: "best_ready ?w (cp_circuits p) None = Some (i, n)"
    using best_ready_None [of ?w "cp_circuits p" None] by (cases "best_ready ?w (cp_circuits p) None") auto
  then obtain a where a: "(i, a) \<in> set (cp_circuits p)" using best_ready_Some [OF b] by auto
  then have "hm_get (cp_circuits p) i = Some a" using hm_get_in_set [OF f(1)] by simp
  moreover have "a < m" using a unfolding f(2) by auto
  ultimately show ?thesis using b by (auto simp: cp_select_circuit_def)
qed

text \<open>
  C23. The client listens only once its pool is full: it starts exactly when the directory
  answers, the listener is bound and every build of the pool succeeds; then the pool holds
  as many circuits as configured, under the ids from 1 on, each of them ready, each with one
  reader of its own, and a first connection gets one of them without a build.
\<close>

theorem client_start_fills_pool:
  assumes "cc_pool_size c < 2 ^ 32"
  shows "case client_start e now c connected bound of
      Inl er \<Rightarrow> \<not> (is_ok connected \<and> is_ok bound \<and> (\<forall>i < cc_pool_size c. start_builds e (cc_hops c) i))
    | Inr s \<Rightarrow> (let (p, w) = cl_pool s in
        is_ok connected \<and> is_ok bound \<and> (\<forall>i < cc_pool_size c. start_builds e (cc_hops c) i) \<and>
        cp_circuit_count p = cc_pool_size c \<and> length (pw_store w) = cc_pool_size c \<and> map fst (pw_readers w) = [0..<cc_pool_size c] \<and>
        (\<forall>a < cc_pool_size c. cp_get_circuit (word_of_nat (Suc a)) p = Some a \<and> ready_at w a) \<and>
        cm_circuits_built (pw_metrics w) = word_of_nat (cc_pool_size c) \<and> cl_running s \<and> cl_conns s = [] \<and>
        (0 < cc_pool_size c \<longrightarrow> (\<exists>a < cc_pool_size c. cp_select_circuit e (p, w) = (Inr (a, None), (p, w)))))"
proof (cases "client_start e now c connected bound")
  case (Inl er)
  with client_start_cases(1) [OF assms, of e now connected bound] show ?thesis by (auto simp: is_ok_def)
next
  case (Inr s)
  obtain rs p w where f: "filled (cc_pool_size c) rs (p, w)"
    "s = \<lparr>cl_pool = (p, w\<lparr>pw_readers := rs\<rparr>), cl_channels = [], cl_conns = [], cl_running = True\<rparr>"
    using client_start_cases(2) [OF assms Inr] by blast
  have "is_ok connected \<and> is_ok bound \<and> (\<forall>i < cc_pool_size c. start_builds e (cc_hops c) i)"
    using client_start_cases(1) [OF assms, of e now connected bound] Inr by simp
  with f filled_get [OF f(1)] filled_selects [OF f(1), of e rs] show ?thesis
    unfolding Inr by (simp add: filled_def cp_circuit_count_def cp_get_circuit_def del: of_nat_Suc)
qed

definition sample_start_env :: "network \<Rightarrow> pool_env" where
  "sample_start_env net = \<lparr>pe_prims = toy_prims, pe_path = (\<lambda>i n. Inr (map nw_node sample_hops)), pe_net = (\<lambda>i. net),
     pe_secret = (\<lambda>i j. replicate 32 5), pe_clock = (\<lambda>i. 0), pe_error_text = (\<lambda>er. ''error'')\<rparr>"

lemma sample_start_builds: obtains net where "start_builds (sample_start_env net) n 0"
proof -
  let ?sec = "\<lambda>i :: nat. replicate 32 5 :: bytes"
  have hops: "sample_hops = hd sample_hops # tl sample_hops" by (simp add: sample_hops_def Let_def)
  have sec: "\<forall>i. length (?sec i) = 32" by simp
  obtain net s where net: "transport_connect toy_prims net (address (nw_node (hd sample_hops)))
      (tls_cert_fingerprint (nw_node (hd sample_hops))) = Inr s"
    "connection_run (\<lambda>i. 0) toy_prims 1 ?sec (hd sample_hops) (tl sample_hops) s" by (rule sample_connection)
  have two: "2 \<le> length (tl sample_hops)" using sample_hops_ok(5) by simp
  obtain c rd where "build_circuit_on toy_prims net ?sec 1 (map nw_node sample_hops) = Inr (c, rd)"
    using circuit_build [OF toy_prims_ok sec sample_hops_ok(3,4) two sample_hops_ok(1,2) net(1) sample_hops_linked net(2)]
    unfolding hops [symmetric] by blast
  then have "start_builds (sample_start_env net) n 0" by (simp add: start_builds_def sample_start_env_def)
  then show ?thesis by (rule that)
qed

theorem client_start_fills_pool_witness:
  "\<exists>net s. client_start (sample_start_env net) 0 (client_config_default\<lparr>cc_pool_size := 1\<rparr>) (Inr ()) (Inr ()) = Inr s \<and>
     cp_circuit_count (fst (cl_pool s)) = 1"
proof -
  let ?c = "client_config_default\<lparr>cc_pool_size := 1\<rparr>"
  obtain net where net: "start_builds (sample_start_env net) (cc_hops ?c) 0" by (rule sample_start_builds)
  show ?thesis
    using client_start_fills_pool [where c = ?c and e = "sample_start_env net" and now = 0 and connected = "Inr ()" and bound = "Inr ()"] net
    by (intro exI [of _ net], cases "client_start (sample_start_env net) 0 ?c (Inr ()) (Inr ())") (auto simp: Let_def)
qed

end
