(* ===== verification/Client_Traffic.thy ===== *)
theory Client_Traffic
  imports Client_Main
begin

text \<open>
  Who gets what in the client process: every circuit, channel and reader belongs to whom it
  should in each state the process can reach, and the bytes of a SOCKS5 connection are those
  of its own stream on its own circuit, whatever the other connections, the readers, the
  monitor and the keepalive do in between.
\<close>

section \<open>What a task touches\<close>

text \<open>A step of a stream with the channel \<open>b\<close>: no other queue, no new sender.\<close>

definition stream_frame :: "nat \<Rightarrow> client_end \<Rightarrow> client_end \<Rightarrow> bool" where
  "stream_frame b ce ce' = (length (ce_channels ce') = length (ce_channels ce) \<and>
     (\<forall>i. i \<noteq> b \<longrightarrow> chan_queue (ce_channels ce' ! i) = chan_queue (ce_channels ce ! i) \<and>
        chan_receiver (ce_channels ce' ! i) = chan_receiver (ce_channels ce ! i)) \<and>
     (\<forall>j i. hm_get (ci_stream_senders (ce_circuit ce')) j = Some i \<longrightarrow>
        hm_get (ci_stream_senders (ce_circuit ce)) j = Some i) \<and>
     ci_circuit_id (ce_circuit ce') = ci_circuit_id (ce_circuit ce))"

lemma stream_frame_refl [simp]: "stream_frame b ce ce"
  by (simp add: stream_frame_def)

lemma stream_frame_trans: "stream_frame b ce ce1 \<Longrightarrow> stream_frame b ce1 ce2 \<Longrightarrow> stream_frame b ce ce2"
  by (simp add: stream_frame_def)

lemma stream_frame_metrics [simp]:
  "stream_frame b ce (ce_event now k ce1) = stream_frame b ce ce1"
  "stream_frame b ce (ce1\<lparr>ce_metrics := m\<rparr>) = stream_frame b ce ce1"
  by (simp_all add: stream_frame_def ce_event_def)

lemma drop_sender_frame [simp]:
  "length (chan_drop_sender i chs) = length chs \<and> chan_queue (chan_drop_sender i chs ! j) = chan_queue (chs ! j) \<and>
   chan_receiver (chan_drop_sender i chs ! j) = chan_receiver (chs ! j)"
  by (cases "length chs \<le> i") (simp_all add: chan_drop_sender_def list_update_beyond nth_list_update)

lemma frame_send: "ce_send P sid cmd d ce = (r, ce') \<Longrightarrow> stream_frame b ce ce'"
  using ce_send_frame [of P sid cmd d ce r ce'] by (simp add: stream_frame_def)

lemma frame_cleanup: "cleanup_stream P (t, ce) = (t', ce') \<Longrightarrow> stream_frame b ce ce'"
proof -
  assume c: "cleanup_stream P (t, ce) = (t', ce')"
  obtain r ce1 where s: "ce_send P (sm_stream_id t) End [] ce = (r, ce1)" by force
  have "stream_frame b ce1 ce'"
    using c s by (auto simp: cleanup_stream_def ci_unregister_stream_def stream_frame_def Let_def split: option.splits if_splits)
  with frame_send [OF s] show ?thesis by (rule stream_frame_trans)
qed

lemma frame_return: "stream_return r (t, ce) = (t', ce') \<Longrightarrow> stream_frame (sm_chan t) ce ce'"
  by (auto simp: stream_return_def stream_frame_def Let_def)

lemma frame_recv: "chan_recv b chs = (r, chs') \<Longrightarrow> ce_channels ce = chs \<Longrightarrow> stream_frame b ce (ce\<lparr>ce_channels := chs'\<rparr>)"
  by (auto simp: chan_recv_def stream_frame_def split: list.splits if_splits)

lemma frame_chunks: "send_chunks P sid chs ce = (r, ce') \<Longrightarrow> stream_frame b ce ce'"
proof (induction chs arbitrary: ce)
  case (Cons ch chs)
  obtain q ce1 where s: "ce_send P sid Data ch ce = (q, ce1)" by force
  with Cons.prems have "ce1 = ce' \<or> send_chunks P sid chs ce1 = (r, ce')" by (auto split: sum.splits)
  with Cons.IH frame_send [OF s] show ?case by (metis stream_frame_trans)
qed simp

text \<open>What is still to be written of a queue.\<close>

definition queued :: "message list \<Rightarrow> bytes" where
  "queued q = concat (map data (filter (\<lambda>m. command m = Data) q))"

lemma queued_simps [simp]: "queued [] = []" "queued (m # q) = (if command m = Data then data m else []) @ queued q"
    "queued (q @ q') = queued q @ queued q'"
  by (simp_all add: queued_def)

text \<open>
  What a step does with the stream's own channel: what it writes comes from the front of
  the queue, and until the task is done nothing is lost.
\<close>

definition done_task :: "stream_task \<Rightarrow> bool" where
  "done_task t = (case sm_phase t of SDone r \<Rightarrow> True | _ \<Rightarrow> False)"

definition consumes :: "stream_task \<Rightarrow> client_end \<Rightarrow> stream_task \<Rightarrow> client_end \<Rightarrow> bool" where
  "consumes t ce t' ce' = (let ch = ce_channels ce ! sm_chan t; ch' = ce_channels ce' ! sm_chan t in
     sm_stream_id t' = sm_stream_id t \<and> sm_chan t' = sm_chan t \<and> sm_phase t' \<noteq> SOpening \<and>
     prefix (sm_written t') (sm_written t @ queued (chan_queue ch)) \<and>
     (\<not> done_task t' \<longrightarrow> chan_receiver ch' = chan_receiver ch \<and>
        sm_written t' @ queued (chan_queue ch') = sm_written t @ queued (chan_queue ch)))"

lemma return_consumes:
  "stream_return r (t, ce) = (t', ce') \<Longrightarrow> done_task t' \<and> sm_stream_id t' = sm_stream_id t \<and> sm_chan t' = sm_chan t \<and>
    sm_phase t' \<noteq> SOpening \<and> sm_written t' = sm_written t"
  by (auto simp: stream_return_def Let_def done_task_def)

lemma cleanup_keeps_task: "cleanup_stream P (t, ce) = (t', ce') \<Longrightarrow> t' = t\<lparr>sm_shutdown := True\<rparr>"
  using cleanup_fields [of P t ce t' ce'] by simp

text \<open>Cleanup and return, the way most steps end.\<close>

lemma finish_consumes:
  assumes "stream_return r (cleanup_stream P (t1, ce1)) = (t', ce')"
    and "stream_frame (sm_chan t) ce ce1" "sm_stream_id t1 = sm_stream_id t" "sm_chan t1 = sm_chan t" "sm_written t1 = sm_written t"
  shows "stream_frame (sm_chan t) ce ce' \<and> consumes t ce t' ce'"
proof -
  obtain t2 ce2 where c: "cleanup_stream P (t1, ce1) = (t2, ce2)" by force
  note t2 = cleanup_keeps_task [OF c]
  have r: "stream_return r (t2, ce2) = (t', ce')" using assms(1) c by simp
  have "sm_chan t2 = sm_chan t" using t2 assms(4) by simp
  then have "stream_frame (sm_chan t) ce2 ce'" using frame_return [OF r] by simp
  with assms(2) frame_cleanup [OF c] have "stream_frame (sm_chan t) ce ce'" by (blast intro: stream_frame_trans)
  with return_consumes [OF r] t2 assms(3-5) show ?thesis by (simp add: consumes_def Let_def)
qed

lemma wait_consumes:
  assumes "stream_wait_step P now timed_out reply_ok (t, ce) = (t', ce')" "sm_phase t = SWaiting" "sm_chan t < length (ce_channels ce)"
  shows "stream_frame (sm_chan t) ce ce' \<and> consumes t ce t' ce'"
proof (cases timed_out)
  case True
  then show ?thesis using assms(1) by (intro finish_consumes) (auto simp: stream_wait_step_def Let_def)
next
  case False
  obtain q chs where r: "chan_recv (sm_chan t) (ce_channels ce) = (q, chs)" by force
  note f = frame_recv [OF r refl]
  show ?thesis
  proof (cases q)
    case NothingYet
    then show ?thesis using assms(1,2) False r by (auto simp: stream_wait_step_def Let_def consumes_def)
  next
    case ChannelEnded
    then show ?thesis using assms(1) False r by (intro finish_consumes) (auto simp: stream_wait_step_def Let_def)
  next
    case (Received m)
    show ?thesis
    proof (cases "command m = Connected")
      case True
      with r Received assms(3) have c: "queued (chan_queue (chs ! sm_chan t)) = queued (chan_queue (ce_channels ce ! sm_chan t))"
        "chan_receiver (chs ! sm_chan t) = chan_receiver (ce_channels ce ! sm_chan t)"
        by (auto simp: chan_recv_def split: list.splits if_splits)
      show ?thesis
      proof (cases reply_ok)
        case ok: True
        with assms(1) False r Received True f c show ?thesis
          by (auto simp: stream_wait_step_def Let_def consumes_def)
      next
        case no: False
        obtain ce1 where ce1: "ce1 = ce_event now (StreamConnected (sm_circuit_id t) (sm_stream_id t)) (ce\<lparr>ce_channels := chs\<rparr>)" by simp
        have ret: "stream_return (Inl (Msg ''Failed to send SOCKS5 success reply'')) (t, ce1) = (t', ce')"
          using assms(1) False r Received True no by (simp add: stream_wait_step_def Let_def ce1)
        have "stream_frame (sm_chan t) ce ce'"
          using f frame_return [OF ret] by (auto simp: ce1 stream_frame_def ce_event_def)
        with return_consumes [OF ret] show ?thesis by (simp add: consumes_def Let_def)
      qed
    next
      case other: False
      from assms(1) False r Received other
      have ret: "stream_return (Inl (Msg (''Expected CONNECTED for stream '' @ show_u16 (sm_stream_id t) @ '', got '' @ show_command (command m))))
        (cleanup_stream P (t\<lparr>sm_replies := sm_replies t @ [RepGeneralFailure]\<rparr>, ce\<lparr>ce_channels := chs\<rparr>)) = (t', ce')"
        by (simp add: stream_wait_step_def Let_def del: show_command.simps)
      show ?thesis by (rule finish_consumes [OF ret f]) simp_all
    qed
  qed
qed

lemma send_chunks_channels: "send_chunks P sid chs ce = (r, ce') \<Longrightarrow> ce_channels ce' = ce_channels ce"
  by (induction chs arbitrary: ce) (auto split: prod.splits sum.splits dest!: ce_send_frame)

lemma turn_consumes:
  assumes "stream_turn P now ev (t, ce) = (b, (t1, ce1))" "sm_phase t = SRelaying" "sm_chan t < length (ce_channels ce)"
  shows "stream_frame (sm_chan t) ce ce1 \<and> (b \<longrightarrow> consumes t ce t1 ce1) \<and> (\<not> b \<longrightarrow> t1 = t)"
proof (cases ev)
  case (ClientData buf)
  obtain r ce2 where s: "send_chunks P (sm_stream_id t) (chunks MAX_PAYLOAD_SIZE buf) ce = (r, ce2)" by force
  note len = send_chunks_channels [OF s]
  have "stream_frame (sm_chan t) ce ce1 \<and> ce_channels ce1 = ce_channels ce \<and> t1 = t"
    using assms(1) s ClientData len frame_chunks [OF s, of "sm_chan t"]
    by (auto simp: stream_turn_def Let_def ce_event_def stream_frame_def split: bool.splits)
  with assms(2) show ?thesis by (simp add: consumes_def)
next
  case (CircuitMessage ok)
  obtain q chs where r: "chan_recv (sm_chan t) (ce_channels ce) = (q, chs)" by force
  with assms CircuitMessage frame_recv [OF r refl] show ?thesis
    by (cases q) (auto simp: stream_turn_def Let_def consumes_def chan_recv_def split: list.splits if_splits)
qed (use assms in \<open>auto simp: stream_turn_def\<close>)

lemma relay_consumes:
  assumes "stream_relay_step P now ev (t, ce) = (t', ce')" "sm_phase t = SRelaying" "sm_chan t < length (ce_channels ce)"
  shows "stream_frame (sm_chan t) ce ce' \<and> consumes t ce t' ce'"
proof -
  obtain b t1 ce1 where s: "stream_turn P now ev (t, ce) = (b, (t1, ce1))" by (metis prod_cases3)
  note c = turn_consumes [OF s assms(2,3)]
  show ?thesis
  proof (cases b)
    case True
    then show ?thesis using assms(1) s c by (simp add: stream_relay_step_def)
  next
    case False
    obtain t2 ce2 where cl: "cleanup_stream P (t1, ce1) = (t2, ce2)" by force
    let ?ce = "ce_event now (StreamEnd (sm_circuit_id t2) (sm_stream_id t2)) ce2"
    have r: "stream_return (Inr ()) (t2, ?ce) = (t', ce')" using assms(1) s False cl by (simp add: stream_relay_step_def)
    have t2: "t2 = t\<lparr>sm_shutdown := True\<rparr>" using cleanup_keeps_task [OF cl] c False by simp
    have "stream_frame (sm_chan t) ce ?ce" using c frame_cleanup [OF cl, of "sm_chan t"] by (auto intro: stream_frame_trans)
    moreover have "stream_frame (sm_chan t) ?ce ce'" using frame_return [OF r] t2 by simp
    ultimately have "stream_frame (sm_chan t) ce ce'" by (rule stream_frame_trans)
    with return_consumes [OF r] t2 show ?thesis by (simp add: consumes_def Let_def)
  qed
qed

text \<open>The opening step: a channel of its own, known under its id, and nothing else touched.\<close>

lemma open_effect:
  assumes "stream_open_step P now (t, ce) = (t', ce')"
  shows "sm_chan t' = length (ce_channels ce) \<and> length (ce_channels ce') = Suc (length (ce_channels ce)) \<and>
    sm_written t' = sm_written t \<and> sm_phase t' \<noteq> SOpening \<and>
    (\<forall>i < length (ce_channels ce). chan_queue (ce_channels ce' ! i) = chan_queue (ce_channels ce ! i) \<and>
       chan_receiver (ce_channels ce' ! i) = chan_receiver (ce_channels ce ! i)) \<and>
    chan_queue (ce_channels ce' ! sm_chan t') = [] \<and> (\<not> done_task t' \<longrightarrow> chan_receiver (ce_channels ce' ! sm_chan t')) \<and>
    ci_stream_senders (ce_circuit ce') = hm_insert (sm_stream_id t') (sm_chan t') (ci_stream_senders (ce_circuit ce)) \<and>
    ci_circuit_id (ce_circuit ce') = ci_circuit_id (ce_circuit ce)"
proof -
  let ?b = "length (ce_channels ce)"
  obtain sid c where al: "ci_allocate_stream_id (ce_circuit ce) = (sid, c)" by force
  have c: "ci_stream_senders c = ci_stream_senders (ce_circuit ce)" "ci_circuit_id c = ci_circuit_id (ce_circuit ce)"
    using al by (auto simp: ci_allocate_stream_id_def Let_def)
  let ?new = "ce_channels ce @ [\<lparr>chan_queue = [], chan_sender = True, chan_receiver = True\<rparr>]"
  obtain c1 chs where rg: "ci_register_stream sid ?b (c, ?new) = (c1, chs)" by force
  have chs: "length chs = Suc ?b" "\<forall>i. chan_queue (chs ! i) = chan_queue (?new ! i) \<and> chan_receiver (chs ! i) = chan_receiver (?new ! i)"
    using rg by (auto simp: ci_register_stream_def split: option.splits)
  let ?t = "t\<lparr>sm_circuit_id := ci_circuit_id c1, sm_stream_id := sid, sm_chan := ?b\<rparr>"
  obtain r ce1 where s: "ce_send P sid Begin (str_bytes (sm_destination t @ [CHR 0x00])) (ce\<lparr>ce_circuit := c1, ce_channels := chs\<rparr>) = (r, ce1)"
    by force
  have c1: "ci_stream_senders c1 = hm_insert sid ?b (ci_stream_senders (ce_circuit ce))" "ci_circuit_id c1 = ci_circuit_id (ce_circuit ce)"
    using rg c by (auto simp: ci_register_stream_def)
  note f = ce_send_frame [OF s]
  show ?thesis
    using assms al rg s f c1 chs
    by (cases r) (auto simp: stream_open_step_def Let_def stream_return_def done_task_def nth_append nth_list_update)
qed

section \<open>What a reader touches\<close>

text \<open>The decrypted cell that a reader hands on in its next turn, if it hands one on.\<close>

definition read_cell :: "prims \<Rightarrow> nat \<Rightarrow> reader \<Rightarrow> client_end \<Rightarrow> message option" where
  "read_cell P now rd ce =
     (case fst (from_stream rd) of
        Inr (Some m) \<Rightarrow>
          if fst (reader_message P now m ce)
          then Some (msg_new (circuit_id m) (stream_id m) (command m) (fst (onion_decrypt P (ci_onion_keys (ce_circuit ce)) (data m))))
          else None
      | _ \<Rightarrow> None)"

definition queues_kept :: "channel list \<Rightarrow> channel list \<Rightarrow> bool" where
  "queues_kept chs chs' = (length chs' = length chs \<and>
     (\<forall>i. chan_queue (chs' ! i) = chan_queue (chs ! i) \<and> chan_receiver (chs' ! i) = chan_receiver (chs ! i)))"

lemma drop_all_kept: "queues_kept chs (fold chan_drop_sender is chs)"
  by (induction "is" arbitrary: chs) (auto simp: queues_kept_def)

lemma reader_exit_effect:
  "queues_kept (ce_channels ce) (ce_channels (reader_exit ce)) \<and> ci_stream_senders (ce_circuit (reader_exit ce)) = [] \<and>
   ci_circuit_id (ce_circuit (reader_exit ce)) = ci_circuit_id (ce_circuit ce)"
  using drop_all_kept [of "ce_channels ce" "hm_values (ci_stream_senders (ce_circuit ce))"]
  by (simp add: reader_exit_def ci_clear_streams_def Let_def)

lemma reader_message_effect:
  assumes "reader_message P now m ce = (b, ce')"
  shows "ci_circuit_id (ce_circuit ce') = ci_circuit_id (ce_circuit ce) \<and>
    (\<not> b \<longrightarrow> queues_kept (ce_channels ce) (ce_channels ce')) \<and>
    (b \<longrightarrow> ci_stream_senders (ce_circuit ce') = ci_stream_senders (ce_circuit ce) \<and>
      ce_channels ce' = (case hm_get (ci_stream_senders (ce_circuit ce)) (stream_id m) of
        Some a \<Rightarrow> chan_send a (msg_new (circuit_id m) (stream_id m) (command m) (fst (onion_decrypt P (ci_onion_keys (ce_circuit ce)) (data m))))
          (ce_channels ce)
      | None \<Rightarrow> ce_channels ce))"
proof (cases "command m = Destroy")
  case True
  with assms drop_all_kept [of "ce_channels ce" "hm_values (ci_stream_senders (ce_circuit ce))"] show ?thesis
    by (auto simp: reader_message_def reader_closed_def ci_clear_streams_def Let_def)
next
  case False
  obtain d k where d: "onion_decrypt P (ci_onion_keys (ce_circuit ce)) (data m) = (d, k)" by force
  obtain ok bd where v: "rd_verify P (ok_backward_digest k) (stream_id m) (to_u8 (command m)) d (digest m) = (ok, bd)" by force
  from assms False d v show ?thesis
    by (auto simp: reader_message_def reader_closed_def Let_def queues_kept_def split: if_splits option.splits)
qed

lemma reader_turn_effect:
  assumes "reader_turn P now rd ce = (r, ce')"
  shows "ci_circuit_id (ce_circuit ce') = ci_circuit_id (ce_circuit ce) \<and>
    (case read_cell P now rd ce of
       None \<Rightarrow> queues_kept (ce_channels ce) (ce_channels ce') \<and> ci_stream_senders (ce_circuit ce') = []
     | Some dm \<Rightarrow> ci_stream_senders (ce_circuit ce') = ci_stream_senders (ce_circuit ce) \<and>
         ce_channels ce' = (case hm_get (ci_stream_senders (ce_circuit ce)) (stream_id dm) of
           Some a \<Rightarrow> chan_send a dm (ce_channels ce) | None \<Rightarrow> ce_channels ce))"
proof -
  have closed: "queues_kept (ce_channels ce) (ce_channels (reader_exit (reader_closed now ce)))"
    "ci_stream_senders (ce_circuit (reader_exit (reader_closed now ce))) = []"
    "ci_circuit_id (ce_circuit (reader_exit (reader_closed now ce))) = ci_circuit_id (ce_circuit ce)"
    using reader_exit_effect [of "reader_closed now ce"] by (simp_all add: reader_closed_def)
  obtain x rd1 where x: "from_stream rd = (x, rd1)" by force
  show ?thesis
  proof (cases "\<exists>m. x = Inr (Some m)")
    case True
    then obtain m where m: "x = Inr (Some m)" by blast
    obtain b ce1 where rm: "reader_message P now m ce = (b, ce1)" by force
    note e = reader_message_effect [OF rm] reader_exit_effect [of ce1]
    show ?thesis
    proof (cases b)
      case True
      have "stream_id (msg_new i j cmd d) = j" for i j cmd d by (simp add: msg_new_def)
      with assms x m rm e True show ?thesis by (simp add: reader_turn_def read_cell_def)
    next
      case False
      with assms x m rm e show ?thesis by (auto simp: reader_turn_def read_cell_def queues_kept_def)
    qed
  next
    case False
    with assms x closed show ?thesis
      by (auto simp: reader_turn_def read_cell_def split: sum.splits option.splits)
  qed
qed

section \<open>What the pool touches\<close>

text \<open>New circuits have no streams, the others keep theirs; readers read circuits that exist.\<close>

definition pool_ext :: "pool_world \<Rightarrow> pool_world \<Rightarrow> bool" where
  "pool_ext w w' = (length (pw_store w) \<le> length (pw_store w') \<and>
     (\<forall>a < length (pw_store w'). ci_stream_senders (pw_store w' ! a) =
        (if a < length (pw_store w) then ci_stream_senders (pw_store w ! a) else [])) \<and>
     (\<forall>x \<in> set (pw_readers w'). x \<in> set (pw_readers w) \<or> fst x < length (pw_store w')))"

lemma pool_ext_refl [simp]: "pool_ext w w"
  by (simp add: pool_ext_def)

lemma pool_ext_trans: "pool_ext w w1 \<Longrightarrow> pool_ext w1 w2 \<Longrightarrow> pool_ext w w2"
  unfolding pool_ext_def by (smt (verit, best) order_trans le_less_trans linorder_not_less less_le_trans)

lemma pool_ext_update [simp]: "pool_ext w (pw_update b f w') = pool_ext w w'" "pool_ext (pw_update b f w) w' = pool_ext w w'"
  by (simp_all add: pool_ext_def)

lemma pool_ext_build: "cp_build_circuit e (p, w) = (r, (p', w')) \<Longrightarrow> pool_ext w w'"
proof (cases r)
  case (Inl er)
  assume "cp_build_circuit e (p, w) = (r, (p', w'))"
  with Inl build_error_fields [of e p w er p' w'] show ?thesis by (simp add: pool_ext_def)
next
  case (Inr x)
  assume b: "cp_build_circuit e (p, w) = (r, (p', w'))"
  obtain cid rd where "x = (cid, rd)" by force
  with b Inr build_fields [of e p w cid rd p' w'] show ?thesis by (auto simp: pool_ext_def nth_append less_Suc_eq)
qed

lemma pool_ext_spawn: "pool_ext w w' \<Longrightarrow> a < length (pw_store w') \<Longrightarrow> pool_ext w (snd (spawn_reader a rd (p, w')))"
  by (auto simp: pool_ext_def spawn_reader_def)

lemma built_below: "cp_build_circuit e (p, w) = (Inr (cid, rd), (p', w')) \<Longrightarrow> length (pw_store w) < length (pw_store w')"
  using build_fields [of e p w cid rd p' w'] by auto

lemma pool_ext_select:
  assumes "cp_select_circuit e (p, w) = (r, (p', w'))" "pool_inv (p, w)"
  shows "pool_ext w w' \<and> (\<forall>a rd. r = Inr (a, rd) \<longrightarrow> a < length (pw_store w'))"
proof (cases "best_ready w (cp_circuits p) None")
  case None
  obtain q p1 w1 where b: "cp_build_circuit e (p, w) = (q, (p1, w1))" by (metis prod_cases3)
  from assms(1) None b show ?thesis
    using pool_ext_build [OF b] built_after_build [of e p w _ _ p1 w1] built_below [of e p w _ _ p1 w1]
    by (auto simp: cp_select_circuit_def split: sum.splits)
next
  case (Some x)
  with assms show ?thesis
    by (auto simp: cp_select_circuit_def pool_inv_def split: option.splits prod.splits)
qed

lemma pool_ext_replace:
  assumes "cp_replace_circuit e i (p, w) = (r, (p', w'))"
  shows "pool_ext w w' \<and> (\<forall>a rd. r = Inr (a, rd) \<longrightarrow> a < length (pw_store w'))"
proof -
  let ?p = "p\<lparr>cp_circuits := hm_remove i (cp_circuits p)\<rparr>"
  obtain q p1 w1 where b: "cp_build_circuit e (?p, w) = (q, (p1, w1))" by (metis prod_cases3)
  have "pool_ext w w'"
    using assms b pool_ext_build [OF b]
    by (auto simp: cp_replace_circuit_def Let_def split: sum.splits prod.splits if_splits)
  moreover have "a < length (pw_store w')" if "r = Inr (a, rd)" for a rd
    using assms
  proof (cases rule: replace_cases)
    case (built cid rd' p2 w2)
    with that built_below [OF built(1)] show ?thesis by simp
  qed (use that in simp)
  ultimately show ?thesis by blast
qed

lemma pool_ext_set_state: "pool_ext w (set_state s a w)"
  by (cases "length (pw_store w) \<le> a") (auto simp: pool_ext_def set_state_def list_update_beyond nth_list_update)

lemma pool_ext_expire_fold: "fold expire_one is (aged, (p, w)) = (aged', (p', w')) \<Longrightarrow> pool_ext w w'"
proof (induction "is" arbitrary: aged p w)
  case (Cons i "is")
  obtain aged1 p1 w1 where s: "expire_one i (aged, (p, w)) = (aged1, (p1, w1))" by (metis prod_cases3)
  then have "pool_ext w w1" using pool_ext_set_state by (auto simp: expire_one_def split: option.splits if_splits)
  moreover have "pool_ext w1 w'" using Cons s by simp
  ultimately show ?case by (rule pool_ext_trans)
qed simp

lemma pool_ext_monitor_build: "pool_ext (snd st) (snd (monitor_build e st))"
proof -
  obtain p w where st: "st = (p, w)" by force
  obtain q p1 w1 where b: "cp_build_circuit e (p, w) = (q, (p1, w1))" by (metis prod_cases3)
  note x = pool_ext_build [OF b]
  show ?thesis
  proof (cases q)
    case (Inl er)
    with b x show ?thesis by (simp add: monitor_build_def st)
  next
    case (Inr y)
    obtain cid rd where y: "y = (cid, rd)" by force
    have "hm_get (cp_circuits p1) cid = Some (length (pw_store w))" using build_fields [of e p w cid rd p1 w1] b Inr y by simp
    with b x Inr y built_below [of e p w cid rd p1 w1] show ?thesis by (simp add: monitor_build_def st pool_ext_spawn)
  qed
qed

lemma pool_ext_monitor_builds: "pool_ext (snd st) (snd ((monitor_build e ^^ n) st))"
  by (induction n) (auto intro: pool_ext_trans pool_ext_monitor_build)

lemma pool_ext_monitor_replace:
  assumes "monitor_replace e ci i st = Some (t, st')"
  shows "pool_ext (snd st) (snd st')"
proof (cases "cp_is_abandoned i (fst st)")
  case False
  obtain p w where st: "st = (p, w)" by force
  obtain q p1 w1 where r: "cp_replace_circuit e i (p, w) = (q, (p1, w1))" by (metis prod_cases3)
  note x = pool_ext_replace [OF r]
  from assms False r x show ?thesis
    by (cases q) (auto simp: monitor_replace_def st intro!: pool_ext_spawn split: option.splits)
qed (use assms in \<open>auto simp: monitor_replace_def\<close>)

lemma pool_ext_monitor_replace_all: "monitor_replace_all e ci is st = Some (t, st') \<Longrightarrow> pool_ext (snd st) (snd st')"
proof (induction "is" arbitrary: st t)
  case (Cons i "is")
  then obtain t1 st1 t2 where "monitor_replace e ci i st = Some (t1, st1)" "monitor_replace_all e ci is st1 = Some (t2, st')"
    by (auto split: option.splits)
  with Cons.IH pool_ext_monitor_replace show ?case by (blast intro: pool_ext_trans)
qed simp

lemma pool_ext_monitor_turn:
  assumes "monitor_turn e now ci st = Some (t, st')"
  shows "pool_ext (snd st) (snd st')"
proof -
  obtain p w where st: "st = (p, w)" by force
  obtain aged p1 w1 where x: "cp_expire_aged_circuits now (p, w) = (aged, (p1, w1))" by (metis prod_cases3)
  let ?st2 = "(monitor_build e ^^ length aged) (p1, w1)"
  obtain t' where r: "monitor_replace_all e ci (ids_in_state CClosed (monitor_sweep ?st2)) (monitor_sweep ?st2) = Some (t', st')"
    using assms x by (auto simp: monitor_turn_def st Let_def)
  have "pool_ext w w1" using x pool_ext_expire_fold by (simp add: cp_expire_aged_circuits_def)
  moreover have "pool_ext w1 (snd ?st2)" using pool_ext_monitor_builds [of "(p1, w1)"] by simp
  moreover have "pool_ext (snd ?st2) (snd st')" using pool_ext_monitor_replace_all [OF r] by (simp add: monitor_sweep_def)
  ultimately show ?thesis unfolding st by (auto intro: pool_ext_trans)
qed

lemma pool_ext_keepalive_one: "pool_ext w (keepalive_one pick rnd a w)"
  by (cases "length (pw_store w) \<le> a")
    (auto simp: pool_ext_def keepalive_one_def Let_def list_update_beyond nth_list_update split: prod.splits)

lemma pool_ext_keepalive: "pool_ext (snd st) (snd (keepalive_turn pick rnd st))"
proof -
  have "pool_ext w (fold (keepalive_one pick rnd) as w)" for as w
  proof (induction as arbitrary: w)
    case (Cons a as)
    then show ?case using pool_ext_keepalive_one [of w pick rnd a] by (auto intro: pool_ext_trans)
  qed simp
  then show ?thesis by (simp add: keepalive_turn_def)
qed

lemma pool_ext_connect:
  assumes "socks_connect e now peer req (p, w) = (r, replies, (p', w'))" "pool_inv (p, w)"
  shows "pool_ext w w' \<and> pool_inv (p', w') \<and> (\<forall>a dest. r = Inr (a, dest) \<longrightarrow> a < length (pw_store w'))"
proof (cases req)
  case (Request conn cmd dest)
  let ?w = "pw_update True (cm_push_event now (Socks5Accept peer dest)) w"
  obtain q p1 w1 where s: "cp_select_circuit e (p, ?w) = (q, (p1, w1))" by (metis prod_cases3)
  have x: "pool_ext w w1" "pool_inv (p1, w1)" "\<forall>a rd. q = Inr (a, rd) \<longrightarrow> a < length (pw_store w1)"
    using pool_ext_select [OF s] pool_inv_select [OF _ s] assms(2) by simp_all
  show ?thesis
  proof (cases "\<exists>a rd. conn \<and> q = Inr (a, Some rd)")
    case True
    then obtain a rd where q: "conn" "q = Inr (a, Some rd)" by blast
    with assms(1) s Request have "(p', w') = spawn_reader a rd (p1, w1)" "r = Inr (a, dest)"
      by (simp_all add: socks_connect_def Let_def)
    with pool_ext_spawn [OF x(1), of a rd p1] pool_inv_spawn [OF x(2), of a rd] x(3) q(2) show ?thesis
      by (auto simp: spawn_reader_def)
  next
    case False
    with assms s x Request show ?thesis
      by (cases q) (auto simp: socks_connect_def Let_def split: if_splits option.splits)
  qed
qed (use assms in \<open>auto simp: socks_connect_def\<close>)

lemma pool_ext_finish:
  assumes "socks_finish e now a r (p, w) = (p', w')" "pool_inv (p, w)"
  shows "pool_ext w w' \<and> pool_inv (p', w')"
proof (cases r)
  case (Inl er)
  let ?w = "pw_update True (cm_push_event now (ClientError (''Stream processing failed: '' @ pe_error_text e er))) w"
  obtain q p1 w1 where s: "cp_replace_circuit e (ci_circuit_id (pw_store ?w ! a)) (p, ?w) = (q, (p1, w1))" by (metis prod_cases3)
  have x: "pool_ext w w1" "pool_inv (p1, w1)" "\<forall>b rd. q = Inr (b, rd) \<longrightarrow> b < length (pw_store w1)"
    using pool_ext_replace [OF s] pool_inv_replace [OF _ s] assms(2) by simp_all
  show ?thesis
  proof (cases "ci_state (pw_store ?w ! a) = CClosed \<and> is_ok q")
    case True
    then obtain b rd where q: "q = Inr (b, rd)" by (cases q) (auto simp: is_ok_def)
    with True assms(1) s Inl have "(p', w') = spawn_reader b rd (p1, w1)" by (simp add: socks_finish_def Let_def)
    with pool_ext_spawn [OF x(1), of b rd p1] pool_inv_spawn [OF x(2), of b rd] x(3) q show ?thesis
      by (auto simp: spawn_reader_def)
  next
    case False
    with assms s x Inl show ?thesis
      by (cases q) (auto simp: socks_finish_def Let_def split: if_splits)
  qed
qed (use assms in \<open>auto simp: socks_finish_def\<close>)

lemma pool_inv_monitor_turn:
  assumes "pool_inv st" "monitor_turn e now ci st = Some (t, st')"
  shows "pool_inv st'"
proof -
  obtain aged st1 where x: "cp_expire_aged_circuits now st = (aged, st1)" by (metis surj_pair)
  have builds: "pool_inv s \<Longrightarrow> pool_inv ((monitor_build e ^^ n) s)" for n s
    by (induction n) (auto intro: pool_inv_monitor_build)
  have replaces: "pool_inv s \<Longrightarrow> monitor_replace_all e ci is s = Some (t, s') \<Longrightarrow> pool_inv s'" for "is" s t s'
    by (induction "is" arbitrary: s t) (auto split: option.splits dest: pool_inv_monitor_replace)
  have "pool_inv st1" using pool_inv_expire [OF assms(1), of now] x by simp
  from replaces [OF pool_inv_sweep [OF builds [OF this]]] show ?thesis
    using assms(2) x by (auto simp: monitor_turn_def Let_def)
qed

lemma pool_inv_keepalive_turn: "pool_inv st \<Longrightarrow> pool_inv (keepalive_turn pick rnd st)"
proof -
  have "pool_inv (p, w) \<Longrightarrow> pool_inv (p, fold (keepalive_one pick rnd) as w)" for p w as
    by (induction as arbitrary: w) (auto intro: pool_inv_keepalive)
  then show "pool_inv st \<Longrightarrow> ?thesis" by (cases st) (simp add: keepalive_turn_def)
qed

section \<open>The process\<close>

definition streaming :: "client_proc \<Rightarrow> nat \<Rightarrow> nat \<Rightarrow> stream_task \<Rightarrow> bool" where
  "streaming s k a t = (k < length (cl_conns s) \<and> sn_phase (cl_conns s ! k) = ConnStreaming a t)"

definition owns :: "client_proc \<Rightarrow> nat \<Rightarrow> nat \<Rightarrow> stream_task \<Rightarrow> bool" where
  "owns s k a t = (streaming s k a t \<and> sm_phase t \<noteq> SOpening)"

abbreviation store_of :: "client_proc \<Rightarrow> circuit list" where
  "store_of s \<equiv> pw_store (snd (cl_pool s))"

abbreviation readers_of :: "client_proc \<Rightarrow> (nat \<times> reader) list" where
  "readers_of s \<equiv> pw_readers (snd (cl_pool s))"

definition sender_of :: "client_proc \<Rightarrow> nat \<Rightarrow> u16 \<Rightarrow> nat option" where
  "sender_of s a j = hm_get (ci_stream_senders (store_of s ! a)) j"

text \<open>
  The pool is consistent; readers and streams are on circuits that exist; a channel has one
  stream, and a circuit sends to it only under the id of that stream, on its circuit.
\<close>

definition proc_inv :: "client_proc \<Rightarrow> bool" where
  "proc_inv s = (pool_inv (cl_pool s) \<and> (\<forall>x \<in> set (readers_of s). fst x < length (store_of s)) \<and>
     (\<forall>k a t. streaming s k a t \<longrightarrow> a < length (store_of s) \<and> (sm_phase t = SOpening \<longrightarrow> sm_written t = [])) \<and>
     (\<forall>k a t. owns s k a t \<longrightarrow> sm_chan t < length (cl_channels s)) \<and>
     (\<forall>k a t k' a' t'. owns s k a t \<and> owns s k' a' t' \<and> sm_chan t = sm_chan t' \<longrightarrow> k = k') \<and>
     (\<forall>a j b. a < length (store_of s) \<and> sender_of s a j = Some b \<longrightarrow> b < length (cl_channels s) \<and>
        (\<forall>k a' t. owns s k a' t \<and> sm_chan t = b \<longrightarrow> a' = a \<and> sm_stream_id t = j)))"

lemma proc_invE:
  assumes "proc_inv s"
  shows "pool_inv (cl_pool s)" "x \<in> set (readers_of s) \<Longrightarrow> fst x < length (store_of s)"
    and "streaming s k a t \<Longrightarrow> a < length (store_of s)" "owns s k a t \<Longrightarrow> sm_chan t < length (cl_channels s)"
    and "owns s k a t \<Longrightarrow> owns s k' a' t' \<Longrightarrow> sm_chan t = sm_chan t' \<Longrightarrow> k = k'"
    and "a < length (store_of s) \<Longrightarrow> sender_of s a j = Some b \<Longrightarrow> b < length (cl_channels s)"
    and "a < length (store_of s) \<Longrightarrow> sender_of s a j = Some b \<Longrightarrow> owns s k a' t \<Longrightarrow> sm_chan t = b \<Longrightarrow> a' = a \<and> sm_stream_id t = j"
    and "streaming s k a t \<Longrightarrow> sm_phase t = SOpening \<Longrightarrow> sm_written t = []"
  using assms unfolding proc_inv_def by blast+

text \<open>Steps that open no stream keep it, once they only extend the pool and forget senders.\<close>

lemma proc_inv_keeps:
  assumes "proc_inv s" "pool_inv (cl_pool s')" "\<forall>x \<in> set (readers_of s'). fst x < length (store_of s')"
    and "length (store_of s) \<le> length (store_of s')" "length (cl_channels s) \<le> length (cl_channels s')"
    and "\<And>k a t. streaming s' k a t \<Longrightarrow> (sm_phase t = SOpening \<and> sm_written t = [] \<and> a < length (store_of s')) \<or>
      (sm_phase t \<noteq> SOpening \<and> (\<exists>t0. owns s k a t0 \<and> sm_chan t0 = sm_chan t \<and> sm_stream_id t0 = sm_stream_id t))"
    and "\<And>a j b. a < length (store_of s') \<Longrightarrow> sender_of s' a j = Some b \<Longrightarrow> a < length (store_of s) \<and> sender_of s a j = Some b"
  shows "proc_inv s'"
proof -
  note i = proc_invE [OF assms(1)]
  have own: "\<exists>t0. owns s k a t0 \<and> sm_chan t0 = sm_chan t \<and> sm_stream_id t0 = sm_stream_id t" if "owns s' k a t" for k a t
    using assms(6) that by (auto simp: owns_def)
  have "a < length (store_of s') \<and> (sm_phase t = SOpening \<longrightarrow> sm_written t = [])" if "streaming s' k a t" for k a t
    using assms(6) [OF that] i(3) assms(4) by (metis owns_def less_le_trans)
  moreover have "sm_chan t < length (cl_channels s')" if "owns s' k a t" for k a t
    using own [OF that] i(4) assms(5) by (metis less_le_trans)
  moreover have "k = k'" if "owns s' k a t" "owns s' k' a' t'" "sm_chan t = sm_chan t'" for k a t k' a' t'
    using own [OF that(1)] own [OF that(2)] that(3) i(5) by metis
  moreover have "b < length (cl_channels s') \<and> (\<forall>k a' t. owns s' k a' t \<and> sm_chan t = b \<longrightarrow> a' = a \<and> sm_stream_id t = j)"
    if "a < length (store_of s')" "sender_of s' a j = Some b" for a j b
  proof -
    note old = assms(7) [OF that]
    have "b < length (cl_channels s)" using i(6) old by blast
    moreover have "a' = a \<and> sm_stream_id t = j" if "owns s' k a' t" "sm_chan t = b" for k a' t
      using own [OF that(1)] i(7) [of a j b k a'] old that(2) by metis
    ultimately show ?thesis using assms(5) by auto
  qed
  ultimately show ?thesis using assms(2,3) unfolding proc_inv_def by blast
qed

lemma proc_inv_pool:
  assumes "proc_inv s" "pool_ext (snd (cl_pool s)) (snd (cl_pool s'))" "pool_inv (cl_pool s')" "cl_channels s' = cl_channels s"
    and "\<And>k a t. streaming s' k a t \<Longrightarrow> streaming s k a t \<or> (sm_phase t = SOpening \<and> sm_written t = [] \<and> a < length (store_of s'))"
  shows "proc_inv s'"
proof (rule proc_inv_keeps [OF assms(1,3)])
  note i = proc_invE [OF assms(1)]
  have len: "length (store_of s) \<le> length (store_of s')" using assms(2) by (simp add: pool_ext_def)
  then show "length (store_of s) \<le> length (store_of s')" .
  show "\<forall>x \<in> set (readers_of s'). fst x < length (store_of s')"
    using assms(2) i(2) len by (fastforce simp: pool_ext_def)
  show "length (cl_channels s) \<le> length (cl_channels s')" using assms(4) by simp
  show "(sm_phase t = SOpening \<and> sm_written t = [] \<and> a < length (store_of s')) \<or>
      (sm_phase t \<noteq> SOpening \<and> (\<exists>t0. owns s k a t0 \<and> sm_chan t0 = sm_chan t \<and> sm_stream_id t0 = sm_stream_id t))" if "streaming s' k a t" for k a t
    using assms(5) [OF that] i(3,8) [of k a t] len by (auto simp: owns_def)
  show "a < length (store_of s) \<and> sender_of s a j = Some b" if "a < length (store_of s')" "sender_of s' a j = Some b" for a j b
    using assms(2) that by (auto simp: pool_ext_def sender_of_def split: if_splits)
qed

lemma proc_fields [simp]:
  "cl_conns (put_end a ce s) = cl_conns s" "cl_channels (put_end a ce s) = ce_channels ce"
  "store_of (put_end a ce s) = (store_of s)[a := ce_circuit ce]" "readers_of (put_end a ce s) = readers_of s"
  "fst (cl_pool (put_end a ce s)) = fst (cl_pool s)"
  "cl_conns (set_conn k cn s) = (cl_conns s)[k := cn]" "cl_pool (set_conn k cn s) = cl_pool s"
  "cl_channels (set_conn k cn s) = cl_channels s"
  "cl_conns (cl_event now ev s) = cl_conns s" "cl_channels (cl_event now ev s) = cl_channels s"
  "cl_pool (cl_event now ev s) = (fst (cl_pool s), pw_update True (cm_push_event now ev) (snd (cl_pool s)))"
  "ce_circuit (circuit_end a s) = store_of s ! a" "ce_channels (circuit_end a s) = cl_channels s"
  by (simp_all add: put_end_def set_conn_def cl_event_def circuit_end_def split: prod.splits)

lemma streaming_set_conn:
  "streaming (set_conn k cn s) j a t = (if j = k then k < length (cl_conns s) \<and> sn_phase cn = ConnStreaming a t else streaming s j a t)"
  by (auto simp: streaming_def nth_list_update)

lemma streaming_fields [simp]:
  "streaming (put_end a ce s) = streaming s" "streaming (cl_event now ev s) = streaming s"
  "streaming (s\<lparr>cl_pool := st\<rparr>) = streaming s" "streaming (s\<lparr>cl_running := b\<rparr>) = streaming s"
  by (intro ext; simp add: streaming_def)+

lemma pool_inv_put_end:
  assumes "pool_inv (cl_pool s)" "ci_circuit_id (ce_circuit ce) = ci_circuit_id (store_of s ! a)"
  shows "pool_inv (cl_pool (put_end a ce s))"
proof -
  obtain p w where s: "cl_pool s = (p, w)" by force
  with pool_inv_touch [of p w "ce_circuit ce" a] assms show ?thesis by (simp add: put_end_def pool_inv_def Let_def)
qed

lemma conn_streamE:
  assumes "conn_stream k ph f s \<noteq> s"
  obtains a t cn t' ce' where "streaming s k a t" "sm_phase t = ph" "cl_conns s ! k = cn" "f (t, circuit_end a s) = (t', ce')"
    "conn_stream k ph f s = set_conn k (cn\<lparr>sn_phase := ConnStreaming a t'\<rparr>) (put_end a ce' s)"
  using assms that
  by (auto simp: conn_stream_def get_at_def streaming_def split: if_splits option.splits conn_phase.splits prod.splits)

lemma sender_put_end:
  "a < length (store_of s) \<Longrightarrow> sender_of (put_end a ce s) i j =
    (if i = a then hm_get (ci_stream_senders (ce_circuit ce)) j else sender_of s i j)"
  by (simp add: sender_of_def nth_list_update)

lemma sender_set_conn [simp]: "sender_of (set_conn k cn s) = sender_of s"
  by (intro ext) (simp add: sender_of_def)

lemma proc_inv_stream:
  assumes "proc_inv s" "owns s k a t" "stream_frame (sm_chan t) (circuit_end a s) ce'" "consumes t (circuit_end a s) t' ce'"
  shows "proc_inv (set_conn k (cn\<lparr>sn_phase := ConnStreaming a t'\<rparr>) (put_end a ce' s))"
proof (rule proc_inv_keeps [OF assms(1)])
  note i = proc_invE [OF assms(1)]
  have a: "a < length (store_of s)" using i(3) assms(2) by (auto simp: owns_def)
  let ?s = "set_conn k (cn\<lparr>sn_phase := ConnStreaming a t'\<rparr>) (put_end a ce' s)"
  show "pool_inv (cl_pool ?s)" using pool_inv_put_end [OF i(1)] assms(3) by (simp add: stream_frame_def)
  show "\<forall>x \<in> set (readers_of ?s). fst x < length (store_of ?s)" using i(2) by simp
  show "length (cl_channels s) \<le> length (cl_channels ?s)" using assms(3) by (simp add: stream_frame_def)
  show "(sm_phase u = SOpening \<and> sm_written u = [] \<and> b < length (store_of ?s)) \<or>
      (sm_phase u \<noteq> SOpening \<and> (\<exists>t0. owns s j b t0 \<and> sm_chan t0 = sm_chan u \<and> sm_stream_id t0 = sm_stream_id u))" if "streaming ?s j b u" for j b u
    using that assms(2,4) i(3,8) [of j b u] by (auto simp: streaming_set_conn owns_def consumes_def Let_def split: if_splits)
  show "b < length (store_of s) \<and> sender_of s b j = Some c" if "b < length (store_of ?s)" "sender_of ?s b j = Some c" for b j c
    using that assms(3) a by (auto simp: stream_frame_def sender_of_def nth_list_update split: if_splits)
qed simp

lemma proc_inv_open:
  assumes "proc_inv s" "streaming s k a t" "sm_phase t = SOpening" "stream_open_step P now (t, circuit_end a s) = (t', ce')"
  shows "proc_inv (set_conn k (cn\<lparr>sn_phase := ConnStreaming a t'\<rparr>) (put_end a ce' s))"
proof -
  note i = proc_invE [OF assms(1)] and o = open_effect [OF assms(4)]
  have a: "a < length (store_of s)" using i(3) assms(2) by blast
  let ?s = "set_conn k (cn\<lparr>sn_phase := ConnStreaming a t'\<rparr>) (put_end a ce' s)" and ?b = "length (cl_channels s)"
  have len: "length (cl_channels ?s) = Suc ?b" "sm_chan t' = ?b" "sm_phase t' \<noteq> SOpening" using o by simp_all
  have k: "k < length (cl_conns s)" using assms(2) by (simp add: streaming_def)
  have str: "streaming ?s j c u \<longleftrightarrow> (if j = k then c = a \<and> u = t' else streaming s j c u)" for j c u
    using k by (auto simp: streaming_set_conn)
  have own: "owns ?s j c u \<longleftrightarrow> (if j = k then c = a \<and> u = t' else owns s j c u)" for j c u
    using len(3) by (auto simp: owns_def str)
  have snd: "sender_of ?s c j = (if c = a \<and> j = sm_stream_id t' then Some ?b else sender_of s c j)" for c j
    using o a by (auto simp: sender_of_def nth_list_update)
  have "pool_inv (cl_pool ?s)" using pool_inv_put_end [OF i(1)] o by simp
  moreover have "c < length (store_of ?s) \<and> (sm_phase u = SOpening \<longrightarrow> sm_written u = [])" if "streaming ?s j c u" for j c u
    using that a i(3,8) [of j c u] len(3) by (auto simp: str split: if_splits)
  moreover have "sm_chan u < length (cl_channels ?s)" if "owns ?s j c u" for j c u
    using that len i(4) [of j c u] by (auto simp: own split: if_splits)
  moreover have "j = j'" if "owns ?s j c u" "owns ?s j' c' u'" "sm_chan u = sm_chan u'" for j c u j' c' u'
  proof (cases "j = k"; cases "j' = k")
    assume "j = k" "j' \<noteq> k"
    with that len(2) have "u = t'" "owns s j' c' u'" by (simp_all add: own)
    with i(4) [of j' c' u'] that(3) len(2) show ?thesis by simp
  next
    assume "j \<noteq> k" "j' = k"
    with that len(2) have "u' = t'" "owns s j c u" by (simp_all add: own)
    with i(4) [of j c u] that(3) len(2) show ?thesis by simp
  next
    assume "j \<noteq> k" "j' \<noteq> k"
    with that have "owns s j c u" "owns s j' c' u'" by (simp_all add: own)
    then show ?thesis using i(5) that(3) by blast
  qed simp
  moreover have "d < length (cl_channels ?s) \<and> (\<forall>k' a' u. owns ?s k' a' u \<and> sm_chan u = d \<longrightarrow> a' = c \<and> sm_stream_id u = j)"
    if "c < length (store_of ?s)" "sender_of ?s c j = Some d" for c j d
  proof (cases "c = a \<and> j = sm_stream_id t'")
    case True
    with that(2) snd [of c j] have d: "d = ?b" by simp
    have "a' = c \<and> sm_stream_id u = j" if "owns ?s k' a' u" "sm_chan u = d" for k' a' u
      using that True d i(4) [of k' a' u] by (auto simp: own split: if_splits)
    with d len(1) show ?thesis by auto
  next
    case False
    with that snd [of c j] have old: "c < length (store_of s)" "sender_of s c j = Some d" by simp_all
    have d: "d < ?b" by (rule i(6) [OF old])
    have "a' = c \<and> sm_stream_id u = j" if "owns ?s k' a' u" "sm_chan u = d" for k' a' u
      using that d len(2) i(7) [OF old, of k' a' u] by (auto simp: own split: if_splits)
    with d len(1) show ?thesis by auto
  qed
  moreover have "\<forall>x \<in> set (readers_of ?s). fst x < length (store_of ?s)" using i(2) by simp
  ultimately show ?thesis unfolding proc_inv_def by blast
qed

definition put_reader :: "nat \<Rightarrow> nat \<times> reader \<Rightarrow> reader option \<Rightarrow> client_proc \<Rightarrow> client_proc" where
  "put_reader i x r s = (let (p, w) = cl_pool s; rs = pw_readers w in
     s\<lparr>cl_pool := (p, w\<lparr>pw_readers := (case r of Some rd \<Rightarrow> rs[i := (fst x, rd)] | None \<Rightarrow> take i rs @ drop (Suc i) rs)\<rparr>)\<rparr>)"

lemma proc_readE:
  assumes "proc_read P now i s \<noteq> s"
  obtains a rd r ce' where "i < length (readers_of s)" "readers_of s ! i = (a, rd)" "reader_turn P now rd (circuit_end a s) = (r, ce')"
    "proc_read P now i s = put_reader i (a, rd) r (put_end a ce' s)"
  using assms that
  by (auto simp: proc_read_def put_reader_def get_at_def Let_def split: if_splits option.splits prod.splits)

lemma put_reader_fields [simp]:
  "streaming (put_reader i x r s) = streaming s" "cl_channels (put_reader i x r s) = cl_channels s"
  "cl_conns (put_reader i x r s) = cl_conns s" "store_of (put_reader i x r s) = store_of s"
  "pool_inv (cl_pool (put_reader i x r s)) = pool_inv (cl_pool s)" "sender_of (put_reader i x r s) = sender_of s"
  by (auto simp: put_reader_def streaming_def sender_of_def pool_inv_def Let_def fun_eq_iff split: prod.splits)

lemma chan_send_fields [simp]:
  "length (chan_send b m chs) = length chs" "chan_receiver (chan_send b m chs ! i) = chan_receiver (chs ! i)"
  "i \<noteq> b \<Longrightarrow> chan_queue (chan_send b m chs ! i) = chan_queue (chs ! i)"
  by (cases "length chs \<le> b"; auto simp: chan_send_def list_update_beyond nth_list_update)+

lemma proc_inv_read:
  assumes "proc_inv s" "i < length (readers_of s)" "readers_of s ! i = (a, rd)" "reader_turn P now rd (circuit_end a s) = (r, ce')"
  shows "proc_inv (put_reader i (a, rd) r (put_end a ce' s))"
proof (rule proc_inv_keeps [OF assms(1)])
  note inv = proc_invE [OF assms(1)] and e = reader_turn_effect [OF assms(4)]
  let ?s = "put_reader i (a, rd) r (put_end a ce' s)"
  have a: "a < length (store_of s)" using inv(2) [OF nth_mem [OF assms(2)]] assms(3) by simp
  show "pool_inv (cl_pool ?s)" using pool_inv_put_end [OF inv(1)] e by simp
  have rs: "readers_of ?s = (case r of Some rd \<Rightarrow> (readers_of s)[i := (a, rd)] | None \<Rightarrow> take i (readers_of s) @ drop (Suc i) (readers_of s))"
    by (cases "cl_pool s"; cases r) (simp_all add: put_reader_def put_end_def Let_def)
  have "(c, y) \<in> set (readers_of s) \<or> c = a" if "(c, y) \<in> set (readers_of ?s)" for c y
    using that subsetD [OF set_update_subset_insert [of "readers_of s" i]] unfolding rs
    by (cases r) (auto dest: in_set_takeD in_set_dropD)
  then show "\<forall>x \<in> set (readers_of ?s). fst x < length (store_of ?s)" using inv(2) a by fastforce
  have "length (ce_channels ce') = length (cl_channels s)"
    using e by (auto simp: queues_kept_def split: option.splits)
  then show "length (cl_channels s) \<le> length (cl_channels ?s)" by simp
  show "(sm_phase u = SOpening \<and> sm_written u = [] \<and> b < length (store_of ?s)) \<or>
      (sm_phase u \<noteq> SOpening \<and> (\<exists>t0. owns s j b t0 \<and> sm_chan t0 = sm_chan u \<and> sm_stream_id t0 = sm_stream_id u))" if "streaming ?s j b u" for j b u
    using that inv(3,8) [of j b u] by (auto simp: owns_def)
  show "b < length (store_of s) \<and> sender_of s b j = Some c" if "b < length (store_of ?s)" "sender_of ?s b j = Some c" for b j c
    using that e a by (auto simp: sender_of_def nth_list_update split: if_splits option.splits)
qed simp

lemma conn_return_fields [simp]:
  "cl_channels (conn_return e now k cn r s) = cl_channels s" "length (cl_conns (conn_return e now k cn r s)) = length (cl_conns s)"
  by (simp_all add: conn_return_def Let_def split: sum.splits)

lemma streaming_return:
  "streaming (conn_return e now k cn r s) j a t = (j \<noteq> k \<and> streaming s j a t)"
  by (auto simp: conn_return_def Let_def streaming_set_conn split: sum.splits)

lemma pool_return:
  "pool_ext w (snd (cl_pool (conn_return e now k cn r s))) = pool_ext w (snd (cl_pool s))"
  "pool_inv (cl_pool (conn_return e now k cn r s)) = pool_inv (cl_pool s)"
  "length (store_of (conn_return e now k cn r s)) = length (store_of s)"
  "sender_of (conn_return e now k cn r s) = sender_of s"
  by (cases "cl_pool s"; auto simp: conn_return_def Let_def sender_of_def fun_eq_iff split: sum.splits)+

text \<open>The steps that touch neither channels nor circuits' streams.\<close>

definition pool_event :: "proc_event \<Rightarrow> bool" where
  "pool_event ev = (case ev of OpensStream k \<Rightarrow> False | AwaitsConnected k a b \<Rightarrow> False | RelaysStream k sev \<Rightarrow> False
     | ReadsCell i \<Rightarrow> False | _ \<Rightarrow> True)"

lemma pool_event_effect:
  assumes "pool_event ev" "proc_inv s" "s' = proc_step e now ev s"
  shows "pool_ext (snd (cl_pool s)) (snd (cl_pool s')) \<and> pool_inv (cl_pool s') \<and> cl_channels s' = cl_channels s \<and>
    (\<forall>k a t. streaming s' k a t \<longrightarrow> streaming s k a t \<or>
      (sm_phase t = SOpening \<and> sm_written t = [] \<and> sn_phase (cl_conns s ! k) = ConnAccepted \<and> a < length (store_of s')))"
proof -
  obtain p w where st: "cl_pool s = (p, w)" by force
  have inv: "pool_inv (p, w)" using proc_invE(1) [OF assms(2)] st by simp
  show ?thesis
  proof (cases ev)
    case (Accepts peer)
    then show ?thesis using inv assms(3) st
      by (auto simp: proxy_accept_def Let_def streaming_def nth_append less_Suc_eq)
  next
    case (Requests k req)
    show ?thesis
    proof (cases "k < length (cl_conns s) \<and> sn_phase (cl_conns s ! k) = ConnAccepted")
      case True
      obtain r replies p' w' where c: "socks_connect e now (sn_peer (cl_conns s ! k)) req (p, w) = (r, replies, (p', w'))" by (metis prod_cases4)
      note x = pool_ext_connect [OF c inv]
      from True Requests assms(3) have s': "s' = conn_request e now k (cl_conns s ! k) req s" by (simp add: get_at_def)
      from x c st True show ?thesis unfolding s'
        by (cases r) (auto simp: conn_request_def pool_return streaming_return streaming_set_conn stream_new_def split: prod.splits)
    next
      case False
      then have "s' = s" using Requests assms(3) by (auto simp: get_at_def split: conn_phase.splits)
      with inv st show ?thesis by simp
    qed
  next
    case (FinishesStream k)
    show ?thesis
    proof (cases "\<exists>a t r. streaming s k a t \<and> sm_phase t = SDone r")
      case True
      then obtain a t r where k: "k < length (cl_conns s)" "sn_phase (cl_conns s ! k) = ConnStreaming a t" "sm_phase t = SDone r"
        by (auto simp: streaming_def)
      obtain p' w' where f: "socks_finish e now a r (p, w) = (p', w')" by force
      from k FinishesStream assms(3) f st pool_ext_finish [OF f inv] show ?thesis
        by (auto simp: conn_finish_def get_at_def pool_return streaming_return)
    next
      case False
      then have "s' = s" using FinishesStream assms(3)
        by (auto simp: conn_finish_def get_at_def streaming_def split: conn_phase.splits stream_phase.splits)
      with inv st show ?thesis by simp
    qed
  next
    case MonitorRuns
    then show ?thesis using assms(3) st inv pool_inv_monitor_turn pool_ext_monitor_turn
      by (fastforce split: option.splits)
  next
    case (PadsCircuits pick rnd)
    then show ?thesis using assms(3) st inv pool_inv_keepalive_turn pool_ext_keepalive [of "(p, w)" pick rnd] by simp
  qed (use assms st inv in \<open>auto simp: pool_event_def proxy_accept_failed_def\<close>)
qed

lemma proc_inv_step:
  assumes "proc_inv s"
  shows "proc_inv (proc_step e now ev s)"
proof (cases "pool_event ev")
  case True
  from pool_event_effect [OF this assms refl, of e now] show ?thesis by (intro proc_inv_pool [OF assms]) auto
next
  case False
  have stream: "proc_inv (conn_stream k ph f s)"
    if "ph \<noteq> SOpening" "\<And>a t t' ce'. owns s k a t \<Longrightarrow> sm_phase t = ph \<Longrightarrow> f (t, circuit_end a s) = (t', ce') \<Longrightarrow>
      stream_frame (sm_chan t) (circuit_end a s) ce' \<and> consumes t (circuit_end a s) t' ce'" for k ph f
  proof (cases "conn_stream k ph f s = s")
    case changed: False
    from conn_streamE [OF changed] obtain a t cn t' ce' where c: "streaming s k a t" "sm_phase t = ph" "f (t, circuit_end a s) = (t', ce')"
      "conn_stream k ph f s = set_conn k (cn\<lparr>sn_phase := ConnStreaming a t'\<rparr>) (put_end a ce' s)" by metis
    then have own: "owns s k a t" using that(1) by (simp add: owns_def)
    show ?thesis unfolding c(4) using that(2) [OF own c(2,3)] by (intro proc_inv_stream [OF assms own]) auto
  qed (use assms in simp)
  note chan = proc_invE(4) [OF assms]
  from False consider k where "ev = OpensStream k" | k to ok where "ev = AwaitsConnected k to ok"
    | k sev where "ev = RelaysStream k sev" | i where "ev = ReadsCell i"
    by (cases ev) (auto simp: pool_event_def)
  then show ?thesis
  proof cases
    case 1
    show ?thesis
    proof (cases "proc_step e now ev s = s")
      case changed: False
      with 1 have "conn_stream k SOpening (stream_open_step (pe_prims e) now) s \<noteq> s" by simp
      from conn_streamE [OF this] proc_inv_open [OF assms] 1 show ?thesis by (metis proc_step.simps(5))
    qed (use assms in simp)
  next
    case 2
    then show ?thesis using stream [of SWaiting k] wait_consumes chan by auto
  next
    case 3
    then show ?thesis using stream [of SRelaying k] relay_consumes chan by auto
  next
    case 4
    show ?thesis
    proof (cases "proc_step e now ev s = s")
      case changed: False
      with 4 have "proc_read (pe_prims e) now i s \<noteq> s" by simp
      from proc_readE [OF this] proc_inv_read [OF assms] 4 show ?thesis by (metis proc_step.simps(9))
    qed (use assms in simp)
  qed
qed

lemma proc_inv_run: "proc_inv s \<Longrightarrow> proc_inv (proc_run e evs s)"
  by (induction e evs s rule: proc_run.induct) (auto simp: proc_inv_step)

lemma proc_inv_start:
  assumes "client_start e now c connected bound = Inr s" "cc_pool_size c < 2 ^ 32"
  shows "proc_inv s"
proof -
  obtain rs p w where f: "filled (cc_pool_size c) rs (p, w)"
    "s = \<lparr>cl_pool = (p, w\<lparr>pw_readers := rs\<rparr>), cl_channels = [], cl_conns = [], cl_running = True\<rparr>"
    using client_start_cases(2) [OF assms(2,1)] by blast
  then have "pool_inv (p, w)" "map fst rs = [0..<length (pw_store w)]" "\<forall>a < length (pw_store w). ci_stream_senders (pw_store w ! a) = []"
    by (simp_all add: filled_def)
  moreover from this(2) have "\<forall>x \<in> set rs. fst x < length (pw_store w)" by (metis atLeastLessThan_iff image_eqI list.set_map set_upt)
  ultimately show ?thesis by (simp add: proc_inv_def f(2) streaming_def owns_def sender_of_def pool_inv_def)
qed

section \<open>The bytes of a connection\<close>

text \<open>What the readers hand on for one stream id of one circuit: the data of its DATA cells.\<close>

definition cell_bytes :: "pool_env \<Rightarrow> nat \<Rightarrow> u16 \<Rightarrow> nat \<Rightarrow> proc_event \<Rightarrow> client_proc \<Rightarrow> bytes" where
  "cell_bytes e a sid now ev s =
     (case ev of
        ReadsCell i \<Rightarrow>
          (case get_at (readers_of s) i of
             None \<Rightarrow> []
           | Some (b, rd) \<Rightarrow>
               (case read_cell (pe_prims e) now rd (circuit_end b s) of
                  None \<Rightarrow> []
                | Some m \<Rightarrow> if b = a \<and> stream_id m = sid then queued [m] else []))
      | _ \<Rightarrow> [])"

fun stream_bytes :: "pool_env \<Rightarrow> nat \<Rightarrow> u16 \<Rightarrow> (nat \<times> proc_event) list \<Rightarrow> client_proc \<Rightarrow> bytes" where
  "stream_bytes e a sid [] s = []"
| "stream_bytes e a sid ((now, ev) # evs) s =
     cell_bytes e a sid now ev s @ stream_bytes e a sid evs (proc_step e now ev s)"

text \<open>
  The state of a connection that has been handed \<open>d\<close>: written, or waiting in its queue; what
  is beyond the queue was lost after its id had gone to another channel.
\<close>

definition task_fed :: "nat \<Rightarrow> bytes \<Rightarrow> stream_task \<Rightarrow> client_proc \<Rightarrow> bool" where
  "task_fed a d t s = (if done_task t then prefix (sm_written t) d
     else chan_receiver (cl_channels s ! sm_chan t) \<and>
       (\<exists>rest. d = sm_written t @ queued (chan_queue (cl_channels s ! sm_chan t)) @ rest \<and>
          (sender_of s a (sm_stream_id t) = Some (sm_chan t) \<longrightarrow> rest = [])))"

definition conn_fed :: "nat \<Rightarrow> nat \<Rightarrow> u16 \<Rightarrow> bytes \<Rightarrow> client_proc \<Rightarrow> bool" where
  "conn_fed k a sid d s = (k < length (cl_conns s) \<and> sn_phase (cl_conns s ! k) \<noteq> ConnAccepted \<and>
     (\<forall>b t. streaming s k b t \<longrightarrow> b = a \<and> sm_stream_id t = sid \<and> sm_phase t \<noteq> SOpening \<and> task_fed a d t s))"

text \<open>A task stays fed as long as its queue does and no sender comes for it.\<close>

lemma task_fed_keeps:
  assumes "task_fed a d t s" "chan_queue (cl_channels s' ! sm_chan t) = chan_queue (cl_channels s ! sm_chan t)"
    and "chan_receiver (cl_channels s' ! sm_chan t) = chan_receiver (cl_channels s ! sm_chan t)"
    and "sender_of s' a (sm_stream_id t) = Some (sm_chan t) \<Longrightarrow> sender_of s a (sm_stream_id t) = Some (sm_chan t)"
  shows "task_fed a d t s'"
  using assms by (auto simp: task_fed_def)

lemma task_fed_consumes:
  assumes "task_fed a d t s" "a < length (store_of s)" "stream_frame (sm_chan t) (circuit_end a s) ce'" "consumes t (circuit_end a s) t' ce'"
    and "\<not> done_task t"
  shows "task_fed a d t' (set_conn k cn (put_end a ce' s))"
proof -
  obtain rest where d: "d = sm_written t @ queued (chan_queue (cl_channels s ! sm_chan t)) @ rest"
    "sender_of s a (sm_stream_id t) = Some (sm_chan t) \<longrightarrow> rest = []" "chan_receiver (cl_channels s ! sm_chan t)"
    using assms(1,5) by (auto simp: task_fed_def)
  show ?thesis
  proof (cases "done_task t'")
    case True
    with assms(4) d(1) show ?thesis by (auto simp: task_fed_def consumes_def Let_def intro: prefix_order.trans)
  next
    case False
    have "d = sm_written t' @ queued (chan_queue (ce_channels ce' ! sm_chan t')) @ rest"
      using assms(4) False d(1) by (simp add: consumes_def Let_def)
    moreover have "rest = []" if "sender_of (put_end a ce' s) a (sm_stream_id t') = Some (sm_chan t')"
      using that assms(2-4) d(2) by (auto simp: sender_put_end stream_frame_def consumes_def sender_of_def Let_def)
    ultimately show ?thesis using False assms(4) d(3) by (auto simp: task_fed_def consumes_def Let_def)
  qed
qed

lemma task_fed_read:
  assumes "proc_inv s" "owns s k a t" "task_fed a d t s" "i < length (readers_of s)" "readers_of s ! i = (c, rd)"
    and "reader_turn (pe_prims e) now rd (circuit_end c s) = (r, ce')"
  shows "task_fed a (d @ cell_bytes e a (sm_stream_id t) now (ReadsCell i) s) t (put_reader i (c, rd) r (put_end c ce' s))"
proof -
  note inv = proc_invE [OF assms(1)] and eff = reader_turn_effect [OF assms(6)]
  let ?s = "put_reader i (c, rd) r (put_end c ce' s)" and ?b = "sm_chan t"
  let ?x = "cell_bytes e a (sm_stream_id t) now (ReadsCell i) s"
  have c: "c < length (store_of s)" using inv(2) [OF nth_mem [OF assms(4)]] assms(5) by simp
  show ?thesis
  proof (cases "done_task t")
    case True
    with assms(3) show ?thesis by (auto simp: task_fed_def intro: prefix_order.trans)
  next
    case False
    obtain rest where f: "d = sm_written t @ queued (chan_queue (cl_channels s ! ?b)) @ rest"
      "sender_of s a (sm_stream_id t) = Some ?b \<longrightarrow> rest = []" "chan_receiver (cl_channels s ! ?b)"
      using assms(3) False by (auto simp: task_fed_def)
    have b: "?b < length (cl_channels s)" by (rule inv(4) [OF assms(2)])
    show ?thesis
    proof (cases "read_cell (pe_prims e) now rd (circuit_end c s)")
      case None
      then have "?x = []" using assms(4,5) by (simp add: cell_bytes_def get_at_def)
      moreover have "task_fed a d t ?s"
        using eff None c by (intro task_fed_keeps [OF assms(3)]) (auto simp: queues_kept_def sender_put_end split: if_splits)
      ultimately show ?thesis by simp
    next
      case (Some m)
      have snd: "sender_of ?s = sender_of s" using eff Some c by (auto simp: fun_eq_iff sender_of_def nth_list_update)
      have x: "?x = (if c = a \<and> stream_id m = sm_stream_id t then queued [m] else [])"
        using Some assms(4,5) by (simp add: cell_bytes_def get_at_def)
      have chs: "cl_channels ?s = (case sender_of s c (stream_id m) of Some i \<Rightarrow> chan_send i m (cl_channels s) | None \<Rightarrow> cl_channels s)"
        using eff Some by (simp add: sender_of_def cong: option.case_cong)
      show ?thesis
      proof (cases "sender_of s c (stream_id m) = Some ?b")
        case True
        from inv(7) [OF c True assms(2) refl] have here: "a = c" "sm_stream_id t = stream_id m" by simp_all
        with True f(2) have "rest = []" by simp
        with f x here True chs b False snd show ?thesis
          by (simp add: task_fed_def chan_send_def)
      next
        case other: False
        have same: "chan_queue (cl_channels ?s ! ?b) = chan_queue (cl_channels s ! ?b)"
          "chan_receiver (cl_channels ?s ! ?b) = chan_receiver (cl_channels s ! ?b)"
          using other unfolding chs by (auto split: option.splits)
        have "d @ ?x = sm_written t @ queued (chan_queue (cl_channels ?s ! ?b)) @ (rest @ ?x)" using f(1) same by simp
        moreover have "rest @ ?x = []" if "sender_of ?s a (sm_stream_id t) = Some ?b"
          using that f(2) x other unfolding snd by auto
        ultimately show ?thesis using False f(3) same unfolding task_fed_def by auto
      qed
    qed
  qed
qed

lemma conn_fed_step:
  assumes "proc_inv s" "conn_fed k a sid d s"
  shows "conn_fed k a sid (d @ cell_bytes e a sid now ev s) (proc_step e now ev s)"
proof (cases "pool_event ev")
  case True
  let ?s = "proc_step e now ev s"
  note x = pool_event_effect [OF True assms(1) refl, of e now]
  have nil: "cell_bytes e a sid now ev s = []" using True by (auto simp: cell_bytes_def pool_event_def split: proc_event.splits)
  have k: "k < length (cl_conns s)" "sn_phase (cl_conns s ! k) \<noteq> ConnAccepted" using assms(2) by (simp_all add: conn_fed_def)
  have phase: "k < length (cl_conns ?s) \<and> sn_phase (cl_conns ?s ! k) \<noteq> ConnAccepted"
    using k True by (cases ev) (auto simp: pool_event_def proxy_accept_def proxy_accept_failed_def conn_request_def conn_finish_def conn_return_def get_at_def
        nth_append nth_list_update Let_def split: prod.splits sum.splits option.splits conn_phase.splits stream_phase.splits)
  have "task_fed a d t ?s" if t: "streaming ?s k b t" for b t
  proof -
    from x t k(2) have old: "streaming s k b t" by blast
    with assms(2) have t: "task_fed a d t s" "b = a" by (auto simp: conn_fed_def)
    have "a < length (store_of s)" using proc_invE(3) [OF assms(1) old] t(2) by simp
    with x have "sender_of ?s a = sender_of s a" by (auto simp: pool_ext_def sender_of_def fun_eq_iff)
    with x show ?thesis by (intro task_fed_keeps [OF t(1)]) simp_all
  qed
  moreover have "streaming s k b t" if "streaming ?s k b t" for b t using that x k(2) by blast
  ultimately show ?thesis using phase assms(2) unfolding conn_fed_def nil append_Nil2 by blast
next
  case False
  note inv = proc_invE [OF assms(1)]
  have k: "k < length (cl_conns s)" "sn_phase (cl_conns s ! k) \<noteq> ConnAccepted" using assms(2) by (simp_all add: conn_fed_def)
  have mine: "b = a \<and> sm_stream_id t = sid \<and> sm_phase t \<noteq> SOpening \<and> task_fed a d t s \<and> owns s k b t" if "streaming s k b t" for b t
    using assms(2) that unfolding conn_fed_def owns_def by blast
  have stream: "conn_fed k a sid d (conn_stream j ph f s)"
    if ph: "ph \<noteq> SOpening" "\<not> (\<exists>r. ph = SDone r)" and f: "\<And>c t t' ce'. owns s j c t \<Longrightarrow> sm_phase t = ph \<Longrightarrow> f (t, circuit_end c s) = (t', ce') \<Longrightarrow>
      stream_frame (sm_chan t) (circuit_end c s) ce' \<and> consumes t (circuit_end c s) t' ce'" for j ph f
  proof (cases "conn_stream j ph f s = s")
    case changed: False
    from conn_streamE [OF changed] obtain c u cn u' ce' where u: "streaming s j c u" "sm_phase u = ph" "f (u, circuit_end c s) = (u', ce')"
      "conn_stream j ph f s = set_conn j (cn\<lparr>sn_phase := ConnStreaming c u'\<rparr>) (put_end c ce' s)" by metis
    have own: "owns s j c u" using u(1,2) ph(1) by (simp add: owns_def)
    have c: "c < length (store_of s)" by (rule inv(3) [OF u(1)])
    note fr = f [OF own u(2,3)]
    let ?s = "set_conn j (cn\<lparr>sn_phase := ConnStreaming c u'\<rparr>) (put_end c ce' s)"
    show ?thesis
    proof (cases "j = k")
      case True
      with mine u(1) have m: "c = a" "sm_stream_id u = sid" "task_fed a d u s" by auto
      have "\<not> done_task u" using u(2) ph(2) by (auto simp: done_task_def split: stream_phase.splits)
      with task_fed_consumes [OF m(3) _ _ _] fr c m(1) have "task_fed a d u' ?s" by blast
      with True k fr m show ?thesis unfolding u(4) by (auto simp: conn_fed_def streaming_set_conn consumes_def Let_def)
    next
      case other: False
      have "task_fed a d t ?s" if "streaming s k b t" for b t
      proof -
        note m = mine [OF that]
        have "sm_chan t \<noteq> sm_chan u" using inv(5) [OF _ own, of k b t] m other by blast
        moreover have "sender_of s a i = Some x" if "sender_of ?s a i = Some x" for i x
          using that fr c by (auto simp: stream_frame_def sender_of_def nth_list_update split: if_splits)
        moreover have fed: "task_fed a d t s" using m by blast
        ultimately show ?thesis using fr by (intro task_fed_keeps [OF fed]) (simp_all add: stream_frame_def)
      qed
      with mine k other show ?thesis unfolding u(4) by (auto simp: conn_fed_def streaming_set_conn)
    qed
  qed (use assms in simp)
  from False consider j where "ev = OpensStream j" | j to ok where "ev = AwaitsConnected j to ok"
    | j sev where "ev = RelaysStream j sev" | i where "ev = ReadsCell i"
    by (cases ev) (auto simp: pool_event_def)
  then show ?thesis
  proof cases
    case 1
    let ?f = "stream_open_step (pe_prims e) now"
    show ?thesis
    proof (cases "conn_stream j SOpening ?f s = s")
      case True
      with 1 assms(2) show ?thesis by (simp add: cell_bytes_def)
    next
      case changed: False
      from conn_streamE [OF changed] obtain c u cn u' ce' where u: "streaming s j c u" "sm_phase u = SOpening" "?f (u, circuit_end c s) = (u', ce')"
        "conn_stream j SOpening ?f s = set_conn j (cn\<lparr>sn_phase := ConnStreaming c u'\<rparr>) (put_end c ce' s)" by metis
      have other: "j \<noteq> k" using mine u(1,2) by blast
      have c: "c < length (store_of s)" by (rule inv(3) [OF u(1)])
      note o = open_effect [OF u(3)]
      let ?s = "set_conn j (cn\<lparr>sn_phase := ConnStreaming c u'\<rparr>) (put_end c ce' s)"
      have "task_fed a d t ?s" if "streaming s k b t" for b t
      proof -
        note m = mine [OF that]
        have "sm_chan t < length (cl_channels s)" "task_fed a d t s" using inv(4) m by blast+
        note b = this(1) and fed = this(2)
        from o c b show ?thesis
          by (intro task_fed_keeps [OF fed]) (auto simp: sender_of_def nth_list_update split: if_splits)
      qed
      with mine k other 1 show ?thesis unfolding 1 proc_step.simps u(4) by (auto simp: conn_fed_def streaming_set_conn cell_bytes_def)
    qed
  next
    case 2
    then show ?thesis using stream [of SWaiting j] wait_consumes inv(4) by (auto simp: cell_bytes_def)
  next
    case 3
    then show ?thesis using stream [of SRelaying j] relay_consumes inv(4) by (auto simp: cell_bytes_def)
  next
    case 4
    show ?thesis
    proof (cases "i < length (readers_of s)")
      case True
      obtain c rd where rd: "readers_of s ! i = (c, rd)" by force
      obtain r ce' where t: "reader_turn (pe_prims e) now rd (circuit_end c s) = (r, ce')" by force
      have s': "proc_step e now ev s = put_reader i (c, rd) r (put_end c ce' s)"
        using 4 True rd t by (auto simp: proc_read_def put_reader_def get_at_def Let_def split: prod.splits cong: option.case_cong)
      have "b = a \<and> sm_stream_id t = sid \<and> sm_phase t \<noteq> SOpening \<and>
          task_fed a (d @ cell_bytes e a sid now (ReadsCell i) s) t (put_reader i (c, rd) r (put_end c ce' s))"
        if "streaming s k b t" for b t
        using mine [OF that] task_fed_read [OF assms(1) _ _ True rd t, of k a t d] by auto
      with k show ?thesis unfolding s' unfolding 4 conn_fed_def put_reader_fields proc_fields streaming_fields by blast
    next
      case None: False
      then show ?thesis using assms(2) 4 by (simp add: proc_read_def get_at_def cell_bytes_def)
    qed
  qed
qed

lemma conn_fed_run:
  "proc_inv s \<Longrightarrow> conn_fed k a sid d s \<Longrightarrow> conn_fed k a sid (d @ stream_bytes e a sid evs s) (proc_run e evs s)"
proof (induction e evs s arbitrary: d rule: proc_run.induct)
  case (2 e now ev evs s)
  from 2(1) [OF proc_inv_step [OF 2(2)] conn_fed_step [OF 2(2,3), of e now ev]] show ?case by simp
qed simp

section \<open>The process, from its start\<close>



section \<open>Samples\<close>

definition sample_config :: client_config where
  "sample_config = client_config_default\<lparr>cc_pool_size := 1\<rparr>"

definition sample_request :: "(nat \<times> proc_event) list" where
  "sample_request = [(0, Accepts (SocketAddr (V4 [127, 0, 0, 1]) 5000 0)), (0, Requests 0 (Request True ''Connect'' ''web:80''))]"

lemma sample_started:
  obtains net s0 where "client_start (sample_start_env net) 0 sample_config (Inr ()) (Inr ()) = Inr s0"
proof -
  obtain net where net: "start_builds (sample_start_env net) (cc_hops sample_config) 0" by (rule sample_start_builds)
  have "is_ok (client_start (sample_start_env net) 0 sample_config (Inr ()) (Inr ()))"
    using client_start_cases(1) [of sample_config "sample_start_env net" 0 "Inr ()" "Inr ()"] net by (simp add: sample_config_def)
  then show ?thesis using that by (auto simp: is_ok_def split: sum.splits)
qed

lemma sample_streaming:
  assumes "client_start e 0 sample_config (Inr ()) (Inr ()) = Inr s0"
  obtains a where "streaming (proc_run e sample_request s0) 0 a (stream_new ''web:80'')"
proof -
  obtain rs p w where f: "filled 1 rs (p, w)"
    "s0 = \<lparr>cl_pool = (p, w\<lparr>pw_readers := rs\<rparr>), cl_channels = [], cl_conns = [], cl_running = True\<rparr>"
    using client_start_cases(2) [OF _ assms] by (auto simp: sample_config_def)
  have metrics: "filled 1 rs (p, w\<lparr>pw_metrics := m\<rparr>)" if "cm_circuits_built m = cm_circuits_built (pw_metrics w)" for m
    using f(1) that unfolding filled_def pool_inv_def Let_def prod.case by auto
  have "\<exists>a. cp_select_circuit e (p, w\<lparr>pw_readers := rs, pw_metrics := m\<rparr>) = (Inr (a, None), (p, w\<lparr>pw_readers := rs, pw_metrics := m\<rparr>))"
    if "cm_circuits_built m = cm_circuits_built (pw_metrics w)" for m
  proof -
    have w: "w\<lparr>pw_readers := rs, pw_metrics := m\<rparr> = w\<lparr>pw_metrics := m, pw_readers := rs\<rparr>" by simp
    show ?thesis using filled_selects [OF metrics [OF that] zero_less_one, of e rs] unfolding w by blast
  qed
  note selects = this
  let ?m = "cm_push_event 0 (Socks5Accept (SocketAddr (V4 [127, 0, 0, 1]) 5000 0) ''web:80'')
    ((pw_metrics w)\<lparr>cm_connections_accepted := cm_connections_accepted (pw_metrics w) + 1\<rparr>)"
  obtain a where "cp_select_circuit e (p, w\<lparr>pw_readers := rs, pw_metrics := ?m\<rparr>) = (Inr (a, None), (p, w\<lparr>pw_readers := rs, pw_metrics := ?m\<rparr>))"
    using selects [of ?m] by (auto simp: cm_push_event_def)
  then have "streaming (proc_run e sample_request s0) 0 a (stream_new ''web:80'')"
    by (simp add: sample_request_def f(2) proxy_accept_def get_at_def conn_request_def socks_connect_def
        streaming_def set_conn_def pw_update_def)
  then show ?thesis by (rule that)
qed



section \<open>Ids that come round\<close>

text \<open>
  An id that is still in use when it comes round goes to the new stream: the old one loses
  its sender, and its cleanup, by the id, takes the new stream's away.
\<close>

lemma reused_id_steals:
  assumes "ci_allocate_stream_id c = (sid, c1)" "hm_get (ci_stream_senders c) sid = Some old"
    and "ci_register_stream sid b (c1, chs) = (c2, chs2)" "old < length chs" "b < length chs"
    and "ci_unregister_stream sid (c2, chs2) = (c3, chs3)"
  shows "\<not> chan_sender (chs2 ! old) \<and> hm_get (ci_stream_senders c3) sid = None \<and> \<not> chan_sender (chs3 ! b)"
proof -
  have "ci_stream_senders c1 = ci_stream_senders c" using assms(1) by (auto simp: ci_allocate_stream_id_def Let_def)
  with assms(2-) show ?thesis
    by (auto simp: ci_register_stream_def ci_unregister_stream_def chan_drop_sender_def nth_list_update)
qed

end
