(* ===== verification/Node_Life.thy ===== *)
theory Node_Life
  imports Node_Setup
begin

text \<open>
  The processes of a relay and of the directory from their start to their end (\<open>main\<close> in
  \<open>relay-node/src/main.rs\<close> and in \<open>discovery/src/main.rs\<close>): the configuration a relay ends
  up with, its registration, its listener, the removal at the end; the directory's state, its
  cleanup task and its two listeners. What lies between is the heartbeat, the connections
  and the calls of the other theories. The theorem follows one relay through the directory.
\<close>

section \<open>A relay\<close>

text \<open>The wizard runs only for a terminal without a node type; Esc leaves the process.\<close>

datatype relay_launch = RelayQuits | RelayWaits | RelayGoes relay_config

definition relay_config_of :: "relay_config \<Rightarrow> key list \<Rightarrow> relay_launch" where
  "relay_config_of c keys =
     (if rc_tui c \<and> rc_node_type c = None
      then case rw_loop keys (rw_new c) of Editing w \<Rightarrow> RelayWaits | Quit \<Rightarrow> RelayQuits | Launched c \<Rightarrow> RelayGoes c
      else RelayGoes c)"

text \<open>The listener is bound after the registration; \<open>?\<close> leaves \<open>main\<close> when it cannot be.\<close>

definition relay_listen ::
  "any_error + unit \<Rightarrow> (start_error + node_descriptor) \<times> 'd \<Rightarrow> (start_error + node_descriptor) \<times> 'd"
where
  "relay_listen bound st =
     (case st of
        (Inl e, dir) \<Rightarrow> (Inl e, dir)
      | (Inr d, dir) \<Rightarrow> (case bound of Inl e \<Rightarrow> (Inl (StartError e), dir) | Inr _ \<Rightarrow> (Inr d, dir)))"

text \<open>What ends the wait of \<open>main\<close>; each is followed by the removal, whose failure is only logged.\<close>

definition relay_stop :: "(string \<Rightarrow> (status + unit) \<times> 'd) \<Rightarrow> string \<Rightarrow> 'd" where
  "relay_stop call i = snd (unregister_from_directory call i)"

section \<open>The directory\<close>

text \<open>The reflection service and the two listeners can fail; the cleanup runs with the configured timeout.\<close>

definition CLEANUP_INTERVAL :: nat where "CLEANUP_INTERVAL = 30"

definition dir_start ::
  "dir_config \<Rightarrow> nat \<Rightarrow> any_error + unit \<Rightarrow> (string \<Rightarrow> any_error + unit) \<Rightarrow> any_error + dir_state"
where
  "dir_start c now reflection bind =
     (let st = dir_state_new now (dcf_allow_same_ip c) in
      case reflection of Inl e \<Rightarrow> Inl e
      | Inr _ \<Rightarrow>
        (case bind (dcf_bind_addr c) of Inl e \<Rightarrow> Inl e
         | Inr _ \<Rightarrow> (case bind (dcf_web_bind_addr c) of Inl e \<Rightarrow> Inl e | Inr _ \<Rightarrow> Inr st)))"

text \<open>The cleanup task, in the operations of the service.\<close>

definition dir_cleanup :: "dir_config \<Rightarrow> dir_op" where
  "dir_cleanup c = OpCleanup (unat (dcf_stale_timeout_secs c))"

section \<open>A relay in the directory\<close>

text \<open>An operation that may file the id.\<close>

definition registers :: "(int \<Rightarrow> string) \<Rightarrow> string \<Rightarrow> dir_op \<Rightarrow> bool" where
  "registers et i op = (case op of
     OpRegister pd \<Rightarrow> (case descriptor_from_proto et pd of Inl _ \<Rightarrow> False | Inr d \<Rightarrow> node_id d = i)
   | _ \<Rightarrow> False)"

lemma absent_step:
  assumes "reg_inv t reg" "reg_lookup reg i = None" "\<not> registers et i op"
  shows "reg_lookup (exec_registry et now op reg) i = None"
proof (cases op)
  case (OpRegister pd)
  with assms(2,3) show ?thesis
    by (auto simp: exec_registry_def registers_def registry.lookup_register [OF assms(1)] split: sum.splits)
next
  case (OpCleanup timeout)
  have "reg_lookup (snd (cleanup_stale_nodes now timeout reg)) i = None"
    using registry.lookup_cleanup [OF assms(1), of now timeout i] assms(2) by (metis option.exhaust option.simps(3))
  with OpCleanup show ?thesis by (simp add: exec_registry_def)
next
  case (OpHeartbeat j pm)
  with assms(2) show ?thesis by (cases pm) (simp_all add: exec_registry_def registry.lookup_heartbeat)
qed (use assms(2) in \<open>simp_all add: exec_registry_def registry.lookup_remove\<close>)

lemma absent_run:
  assumes "dir_run et rr s ops s'" "dir_inv (fst s) (ds_registry (fst (snd s)))"
    and "reg_lookup (ds_registry (fst (snd s))) i = None" "\<forall>x \<in> set ops. \<not> registers et i (snd x)"
  shows "reg_lookup (ds_registry (fst (snd s'))) i = None"
  using assms
proof (induction rule: dir_run.induct)
  case (Step t now op st ops s)
  obtain d r where st: "st = (d, r)" by force
  have inv: "dir_inv now (exec_registry et now op (ds_registry d))"
    using Step.prems(1) Step.hyps(1) by (auto simp: st intro: dir_inv_exec)
  have "reg_inv t (ds_registry d)" using Step.prems(1) by (simp add: st dir_inv_def)
  from absent_step [OF this, of i et op now] Step.prems(2,3) inv Step.IH show ?case by (simp add: st exec_registry_eq)
qed simp

lemma not_listed:
  assumes "dir_inv t (ds_registry st)" "reg_lookup (ds_registry st) i = None"
  shows "\<forall>d \<in> set (get_all_nodes (ds_registry st)). node_id d \<noteq> i"
proof
  fix d assume d: "d \<in> set (get_all_nodes (ds_registry st))"
  have reg: "reg_inv t (ds_registry st)" using assms(1) by (simp add: dir_inv_def)
  from d obtain j where "reg_lookup (ds_registry st) j = Some d" using registered_nodes [OF reg_invD(1) [OF reg]] by blast
  with assms(2) registry.inv_id [OF reg] show "node_id d \<noteq> i" by fastforce
qed

lemma relay_start_call:
  assumes "relay_start c i kp fp connected (\<lambda>pd. rpc_register_node et now pd st) st = (Inr d, st1)"
  shows "node_id d = i \<and> register_with_directory (\<lambda>pd. rpc_register_node et now pd st) d = (Inr (), st1)"
  using assms by (auto simp: relay_start_def relay_descriptor_def Let_def split: option.splits sum.splits if_splits prod.splits)

text \<open>A relay that has started is on file, heard of at this moment.\<close>

lemma relay_registers:
  assumes "dir_run et rr (t0, dir_state_new t0 b, r0) ops0 (t, st, r)" "t \<le> now"
    and "relay_start c i kp fp connected (\<lambda>pd. rpc_register_node et now pd st) st = (Inr d, st1)" "valid_node d"
  shows "dir_inv now (ds_registry st1)" "heard_since i d now (ds_registry st1)"
    "ds_registry st1 = register_node now d (ds_registry st)"
proof -
  note call = relay_start_call [OF assms(3)]
  have inv: "dir_inv t (ds_registry st)" using dir_inv_run [OF assms(1)] dir_inv_new by simp
  have parse: "descriptor_from_proto et (descriptor_to_proto d) = Inr d" "node_id d \<noteq> ''''" "bandwidth d \<noteq> 0"
    using assms(4) by (simp_all add: valid_node_def descriptor_from_to)
  then show st1: "ds_registry st1 = register_node now d (ds_registry st)"
    using call by (auto simp: register_with_directory_def rpc_register_node_def)
  show "dir_inv now (ds_registry st1)"
    using dir_inv_exec [OF inv assms(2), of et "OpRegister (descriptor_to_proto d)"] parse st1 by (simp add: exec_registry_def)
  show "heard_since i d now (ds_registry st1)"
    using inv call by (auto simp: st1 heard_since_def get_register dir_inv_def reg_invD(1) node_entry_new_def split: option.splits)
qed


text \<open>
  A relay the directory has forgotten (it was restarted, or a cleanup came too late) goes on
  sending heartbeats, each of them refused, and never registers again.
\<close>

lemma forgotten_relay_stays_forgotten:
  assumes "reg_lookup (ds_registry st) i = None"
  shows "reg_lookup (ds_registry (heartbeat_tick (\<lambda>j pm. rpc_update_heartbeat now j pm st) now i n)) i = None"
  using assms registry.lookup_heartbeat [of now i "metrics_from_proto (metrics_to_proto (build_metrics now n))" "ds_registry st" i]
  by (auto simp: heartbeat_tick_def rpc_update_heartbeat_def Let_def split: sum.splits prod.splits)

text \<open>A relay that cannot listen has already registered, and leaves without the removal.\<close>

lemma failed_bind_stays_registered:
  assumes "relay_start c i kp fp connected call dir = (Inr d, st1)"
  shows "relay_listen (Inl e) (relay_start c i kp fp connected call dir) = (Inl (StartError e), st1)"
  using assms by (simp add: relay_listen_def)


end
