(* ===== verification/Tls_Link.thy ===== *)
theory Tls_Link
  imports Node_Life
begin

text \<open>
  How a client knows the relay it reaches (\<open>common/src/tls.rs\<close>): the relay makes a
  certificate for its node id and address, publishes the certificate's fingerprint with its
  descriptor, and serves TLS with it; who connects pins the fingerprint. Making and signing
  certificates and the TLS sessions are rcgen's and rustls', and parameters here. The theorem
  follows a fingerprint from the certificate through the directory to the connection.
\<close>

section \<open>The relay's certificate\<close>

text \<open>What \<open>RelayTlsConfig::generate\<close> calls; the errors are their texts.\<close>

record ('params, 'key, 'config) tls_lib =
  tl_params_new :: "string list \<Rightarrow> string + 'params"
  tl_common_name :: "string \<Rightarrow> 'params \<Rightarrow> 'params"
  tl_ip_name :: "ip_addr \<Rightarrow> 'params \<Rightarrow> 'params"
  tl_keygen :: "string + 'key"
  tl_self_signed :: "'params \<Rightarrow> 'key \<Rightarrow> string + bytes"
  tl_key_der :: "'key \<Rightarrow> bytes"
  tl_server_config :: "bytes list \<Rightarrow> bytes \<Rightarrow> string + 'config"

record 'config relay_tls =
  rt_fingerprint :: string
  rt_acceptor :: 'config

definition tls_generate ::
  "('params, 'key, 'config) tls_lib \<Rightarrow> prims \<Rightarrow> string \<Rightarrow> socket_addr \<Rightarrow> any_error + 'config relay_tls"
where
  "tls_generate L P i bind_addr =
     (case tl_params_new L [] of Inl e \<Rightarrow> Inl (Msg (''Failed to create certificate params: '' @ e))
      | Inr params \<Rightarrow>
     (let params = tl_ip_name L (sa_ip bind_addr) (tl_common_name L i params) in
      case tl_keygen L of Inl e \<Rightarrow> Inl (Msg (''Failed to generate TLS key pair: '' @ e))
      | Inr key \<Rightarrow>
     (case tl_self_signed L params key of Inl e \<Rightarrow> Inl (Msg (''Failed to sign TLS certificate: '' @ e))
      | Inr der \<Rightarrow>
     (let fingerprint = compute_cert_fingerprint P der in
      case tl_server_config L [der] (tl_key_der L key) of
        Inl e \<Rightarrow> Inl (Msg (''Failed to create TLS server config: '' @ e))
      | Inr config \<Rightarrow> Inr \<lparr>rt_fingerprint = fingerprint, rt_acceptor = config\<rparr>))))"

section \<open>The client's connector\<close>

datatype signature_scheme =
  ECDSA_NISTP256_SHA256 | ECDSA_NISTP384_SHA384 | ED25519 |
  RSA_PKCS1_SHA256 | RSA_PKCS1_SHA384 | RSA_PKCS1_SHA512 |
  RSA_PSS_SHA256 | RSA_PSS_SHA384 | RSA_PSS_SHA512

definition supported_verify_schemes :: "signature_scheme list" where
  "supported_verify_schemes =
     [ECDSA_NISTP256_SHA256, ECDSA_NISTP384_SHA384, ED25519,
      RSA_PKCS1_SHA256, RSA_PKCS1_SHA384, RSA_PKCS1_SHA512,
      RSA_PSS_SHA256, RSA_PSS_SHA384, RSA_PSS_SHA512]"

record fp_verifier =
  fv_expected :: string

text \<open>The connector is its verifier; no client certificate is sent.\<close>

definition make_tls_connector :: "string \<Rightarrow> any_error + fp_verifier" where
  "make_tls_connector expected_fingerprint = Inr \<lparr>fv_expected = expected_fingerprint\<rparr>"

definition connector_accepts :: "prims \<Rightarrow> fp_verifier \<Rightarrow> peer \<Rightarrow> bool" where
  "connector_accepts P v p = (peer_tls_ok p \<and> is_ok (verify_server_cert P (fv_expected v) (peer_cert p) []))"

text \<open>What the handlers and the transport use is this connector.\<close>

lemma tls_connect_connector:
  "tls_connect P fp p = (case make_tls_connector fp of Inl e \<Rightarrow> False | Inr v \<Rightarrow> connector_accepts P v p)"
  by (simp add: tls_connect_def make_tls_connector_def connector_accepts_def)

section \<open>Pinning\<close>

text \<open>rustls presents the certificate it was configured with.\<close>

definition presents_own :: "('params, 'key, 'config) tls_lib \<Rightarrow> ('config \<Rightarrow> bytes) \<Rightarrow> bool" where
  "presents_own L presented = (\<forall>der key config. tl_server_config L [der] key = Inr config \<longrightarrow> presented config = der)"

lemma tls_generate_fingerprint:
  assumes "tls_generate L P i a = Inr tls" "presents_own L presented"
  shows "rt_fingerprint tls = compute_cert_fingerprint P (presented (rt_acceptor tls))"
  using assms by (auto simp: tls_generate_def presents_own_def Let_def split: sum.splits)

lemma digit_char_lower: "d < 16 \<Longrightarrow> ascii_lower (digit_char d) = digit_char d"
  by (simp add: ascii_lower_def digit_char_def Let_def)

lemma fingerprint_lower: "to_lower (compute_cert_fingerprint P der) = compute_cert_fingerprint P der"
proof -
  have "map ascii_lower (hex2 b) = hex2 b" for b
    using unat_bounds(1) [of b] by (simp add: hex2_def digit_char_lower)
  then show ?thesis by (simp add: to_lower_def compute_cert_fingerprint_def map_concat comp_def)
qed

text \<open>Who pins the fingerprint of a relay accepts exactly the certificates with the relay's hash.\<close>

lemma pinned_certificate:
  assumes "tls_generate L P i a = Inr tls" "presents_own L presented"
  shows "tls_connect P (rt_fingerprint tls) p \<longleftrightarrow>
    peer_tls_ok p \<and> sha256_fn P (peer_cert p) = sha256_fn P (presented (rt_acceptor tls))"
proof -
  have "compute_cert_fingerprint P c = compute_cert_fingerprint P der \<longleftrightarrow> sha256_fn P c = sha256_fn P der" for c der
    by (auto simp: compute_cert_fingerprint_def dest: concat_hex2_inject)
  then show ?thesis
    by (simp add: tls_generate_fingerprint [OF assms] tls_connect_def is_ok_def verify_server_cert_def
        eq_ignore_ascii_case_def Let_def fingerprint_lower)
qed

lemma relay_start_fingerprint:
  assumes "relay_start c i kp (map_sum id rt_fingerprint tls) connected call dir = (Inr d, dir')"
  shows "\<exists>s. tls = Inr s \<and> tls_cert_fingerprint d = rt_fingerprint s"
  using assms
  by (cases tls) (auto simp: relay_start_def relay_descriptor_def Let_def split: option.splits sum.splits if_splits prod.splits)


definition sample_tls :: "(string, unit, bytes) tls_lib" where
  "sample_tls = \<lparr>tl_params_new = (\<lambda>names. Inr []), tl_common_name = (\<lambda>n ps. ps @ n), tl_ip_name = (\<lambda>ip ps. ps),
     tl_keygen = Inr (), tl_self_signed = (\<lambda>ps k. Inr (str_bytes ps)), tl_key_der = (\<lambda>k. []),
     tl_server_config = (\<lambda>certs k. case certs of [der] \<Rightarrow> Inr der | _ \<Rightarrow> Inl ''no certificate'')\<rparr>"

lemma sample_tls_presents: "presents_own sample_tls id"
  by (simp add: presents_own_def sample_tls_def)

lemma sample_tls_generated:
  "tls_generate sample_tls P i a = Inr \<lparr>rt_fingerprint = compute_cert_fingerprint P (str_bytes i), rt_acceptor = str_bytes i\<rparr>"
  by (simp add: tls_generate_def sample_tls_def)

text \<open>A directory with an entry and a middle, and an exit that registers.\<close>

lemma sample_two_nodes:
  obtains st where "dir_run (\<lambda>c. '''') sample_draw (0, dir_state_new 0 False, ()) (take 2 sample_ops) (2, st, ())"
    "ds_registry st = register_node 2 (sample_peer_node ''m'' Middle [10, 0, 0, 2])
       (register_node 1 (sample_peer_node ''e'' Entry [10, 0, 0, 1]) (registry_new False))"
proof -
  let ?e = "sample_peer_node ''e'' Entry [10, 0, 0, 1]" let ?m = "sample_peer_node ''m'' Middle [10, 0, 0, 2]"
  have valid: "valid_node ?e" "valid_node ?m" by (simp_all add: sample_peer_valid)
  obtain s1 where 1: "dir_exec (\<lambda>c. '''') sample_draw 1 (OpRegister (descriptor_to_proto ?e)) (dir_state_new 0 False, ()) = (s1, ())"
    "ds_registry s1 = register_node 1 ?e (ds_registry (dir_state_new 0 False))" by (rule exec_register [OF valid(1)])
  obtain s2 where 2: "dir_exec (\<lambda>c. '''') sample_draw 2 (OpRegister (descriptor_to_proto ?m)) (s1, ()) = (s2, ())"
    "ds_registry s2 = register_node 2 ?m (ds_registry s1)" by (rule exec_register [OF valid(2)])
  have ops: "take 2 sample_ops = [(1, OpRegister (descriptor_to_proto ?e)), (2, OpRegister (descriptor_to_proto ?m))]"
    by (simp add: sample_ops_def)
  have "dir_run (\<lambda>c. '''') sample_draw (0, dir_state_new 0 False, ()) (take 2 sample_ops) (2, s2, ())"
    unfolding ops by (rule dir_run.Step, simp, unfold 1, rule dir_run.Step, simp, unfold 2, rule dir_run.Done)
  with that 1(2) 2(2) show thesis by (simp add: dir_state_new_def)
qed

definition sample_relay_config :: relay_config where
  "sample_relay_config = relay_config_default\<lparr>rc_node_type := Some Exit, rc_bandwidth := 5\<rparr>"

lemma sample_third_path:
  assumes "d = \<lparr>node_id = ''r'', node_type = Exit, address = SocketAddr (V4 [127, 0, 0, 1]) 9001 0, public_key = pk, bandwidth = 5,
    nd_exit_policy = pol, operator_id = None, tls_cert_fingerprint = fp\<rparr>"
  shows "get_random_path sample_draw (register_node 3 d (register_node 2 (sample_peer_node ''m'' Middle [10, 0, 0, 2])
      (register_node 1 (sample_peer_node ''e'' Entry [10, 0, 0, 1]) (registry_new False)))) 3 () =
    (Inr [sample_peer_node ''e'' Entry [10, 0, 0, 1], sample_peer_node ''m'' Middle [10, 0, 0, 2], d], ())"
  unfolding assms by code_simp


end
