(* ===== verification/Wizard_Views.thy ===== *)
theory Wizard_Views
  imports Terminal_Views Node_Setup
begin

text \<open>
  What the two wizards draw (\<open>render\<close> in \<open>relay-node/src/wizard/mod.rs\<close> and
  \<open>tor-client/src/wizard/mod.rs\<close>): the rows with their labels, values and cursor, the status
  line and the help, as text with its style; and that what a wizard shows is what it
  launches.
\<close>

section \<open>Texts\<close>

definition play_sign :: string where "play_sign = [CHR 0xE2, CHR 0x96, CHR 0xB6]"
definition block_sign :: string where "block_sign = [CHR 0xE2, CHR 0x96, CHR 0x88]"
definition left_sign :: string where "left_sign = [CHR 0xE2, CHR 0x97, CHR 0x84]"
definition right_sign :: string where "right_sign = [CHR 0xE2, CHR 0x96, CHR 0xBA]"
definition cross_sign :: string where "cross_sign = [CHR 0xE2, CHR 0x9C, CHR 0x97]"
definition dash_sign :: string where "dash_sign = [CHR 0xE2, CHR 0x80, CHR 0x94]"

definition left_pad :: "nat \<Rightarrow> string \<Rightarrow> string" where
  "left_pad n s = s @ replicate (n - length s) CHR '' ''"

definition span_label :: "bool \<Rightarrow> string \<Rightarrow> text_span" where
  "span_label focused s = \<lparr>ts_text = s, ts_style = \<lparr>st_fg = None, st_bg = None, st_bold = focused\<rparr>\<rparr>"

record wizard_frame =
  wf_title :: string
  wf_rows :: "text_span list list"
  wf_status :: "text_span list"
  wf_help :: text_span

text \<open>A row: the mark of the focus, the label, and what the field shows.\<close>

definition wizard_row :: "nat \<Rightarrow> bool \<Rightarrow> string \<Rightarrow> text_span list \<Rightarrow> text_span list" where
  "wizard_row width focused label value =
     [span_label focused (if focused then play_sign @ '' '' else ''  ''), span_label focused (left_pad width label)] @ value"

definition text_value :: "bool \<Rightarrow> string \<Rightarrow> text_span list" where
  "text_value focused text =
     [if focused then span_fg Yellow text else span_raw text, span_fg Yellow (if focused then block_sign else '''')]"

definition choice_value :: "bool \<Rightarrow> string \<Rightarrow> text_span list" where
  "choice_value focused text =
     (let value = left_sign @ ''  '' @ text @ ''  '' @ right_sign
      in [if focused then span_bold Cyan value else span_raw value])"

definition wizard_status :: "string option \<Rightarrow> text_span list" where
  "wizard_status error =
     (case error of
        Some err \<Rightarrow> [span_bold Red (cross_sign @ '' ''), span_fg Red err]
      | None \<Rightarrow> [span_bold Green (check_sign @ '' ''), span_fg Green ''Ready''])"

section \<open>The relay's wizard\<close>

fun rw_text :: "relay_field \<Rightarrow> relay_wizard \<Rightarrow> string" where
  "rw_text FPort w = rw_port w"
| "rw_text FHost w = rw_host w"
| "rw_text FDirectoryUrl w = rw_directory_url w"
| "rw_text FBandwidth w = rw_bandwidth w"
| "rw_text FHeartbeat w = rw_heartbeat w"
| "rw_text FOperatorId w = rw_operator_id w"
| "rw_text _ w = ''''"

definition rw_type_name :: "relay_wizard \<Rightarrow> string" where
  "rw_type_name w =
     (let values = map (\<lambda>nt. case nt of Entry \<Rightarrow> ''Entry'' | Middle \<Rightarrow> ''Middle'' | Exit \<Rightarrow> ''Exit'') NODE_TYPES
      in case get_at values (rw_node_type_idx w) of None \<Rightarrow> ''Entry'' | Some s \<Rightarrow> s)"

definition rw_row :: "relay_wizard \<Rightarrow> nat \<Rightarrow> relay_field \<Rightarrow> text_span list" where
  "rw_row w i f =
     (let focused = (i = rw_focused w) in
      wizard_row 16 focused (rf_label f)
        (case f of
           FNodeType \<Rightarrow> choice_value focused (rw_type_name w)
         | FExitAllowAll \<Rightarrow> choice_value focused (if rw_exit_allow_all w then ''Yes'' else ''No'')
         | _ \<Rightarrow> text_value focused (rw_text f w)))"

definition rw_render :: "relay_wizard \<Rightarrow> wizard_frame" where
  "rw_render w =
     \<lparr>wf_title = '' Relay Node Setup '' @ dash_sign @ '' Configure, then press Enter to launch'',
      wf_rows = map (\<lambda>(i, f). rw_row w i f) (enumerate 0 (rw_active_fields w)),
      wf_status = wizard_status (rw_error w),
      wf_help = span_fg DarkGray (arrow_up @ arrow_down @ ''/Tab move   '' @ left_sign @ right_sign @
        '' cycle   Type edit   Backspace   Enter launch   Esc quit'')\<rparr>"

section \<open>The client's wizard\<close>

fun cw_text :: "client_field \<Rightarrow> client_wizard \<Rightarrow> string" where
  "cw_text CSocksAddr w = cw_socks_addr w"
| "cw_text CDirectoryUrl w = cw_directory_url w"
| "cw_text CPoolSize w = cw_pool_size w"
| "cw_text CHops w = cw_hops w"
| "cw_text CMaxRebuildAttempts w = cw_max_rebuild_attempts w"

definition cw_row :: "client_wizard \<Rightarrow> nat \<Rightarrow> client_field \<Rightarrow> text_span list" where
  "cw_row w i f =
     (let focused = (i = cw_focused w) in wizard_row 20 focused (cf_label f) (text_value focused (cw_text f w)))"

definition cw_render :: "client_wizard \<Rightarrow> wizard_frame" where
  "cw_render w =
     \<lparr>wf_title = '' Tor Client Setup '' @ dash_sign @ '' Configure, then press Enter to launch'',
      wf_rows = map (\<lambda>(i, f). cw_row w i f) (enumerate 0 FIELDS),
      wf_status = wizard_status (cw_error w),
      wf_help = span_fg DarkGray (arrow_up @ arrow_down @ ''/Tab move   Type edit   Backspace   Enter launch   Esc quit'')\<rparr>"

section \<open>What is shown is what is launched\<close>

text \<open>The value of a row, without its style and cursor.\<close>

definition row_value :: "text_span list \<Rightarrow> string \<times> string" where
  "row_value r = (ts_text (r ! 1), ts_text (r ! 2))"

definition choice_text :: "string \<Rightarrow> string" where
  "choice_text s = left_sign @ ''  '' @ s @ ''  '' @ right_sign"

definition marked :: "text_span list \<Rightarrow> bool" where
  "marked r = (ts_text (hd r) = play_sign @ '' '')"

lemma row_value_simps [simp]:
  "row_value (wizard_row n b l (text_value b' t)) = (left_pad n l, t)"
  "row_value (wizard_row n b l (choice_value b' t)) = (left_pad n l, choice_text t)"
  "marked (wizard_row n b l v) = b"
  by (simp_all add: row_value_def wizard_row_def text_value_def choice_value_def choice_text_def span_label_def span_bold_def
      span_fg_def span_raw_def marked_def play_sign_def Let_def)

lemma marked_rows:
  "marked (rw_row w i f) = (i = rw_focused w)" "marked (cw_row w' i f') = (i = cw_focused w')"
  by (simp_all add: rw_row_def cw_row_def Let_def)

lemma rw_row_value:
  "row_value (rw_row w i f) = (left_pad 16 (rf_label f),
     case f of FNodeType \<Rightarrow> choice_text (rw_type_name w) | FExitAllowAll \<Rightarrow> choice_text (if rw_exit_allow_all w then ''Yes'' else ''No'')
     | _ \<Rightarrow> rw_text f w)"
  by (cases f) (simp_all add: rw_row_def Let_def)

text \<open>
  Before the key that launches it, the relay's wizard shows the configuration, field for field
  (the numbers in the text that is parsed), one row marked, and the line that says it is ready
  or what was wrong before; for a node that is no exit the flag of the exit is not shown.
\<close>

lemma relay_wizard_shows_launch:
  assumes "rw_loop ks (rw_new dflt) = Editing w" "rw_key KEnter w = Launched c" "rc_node_type c = Some t"
  shows "\<exists>port bw hb. parse_u16 port = Some (unat (rc_port c)) \<and> parse_u64 bw = Some (unat (rc_bandwidth c)) \<and>
      parse_u64 hb = Some (unat (rc_heartbeat_interval c)) \<and>
      map row_value (wf_rows (rw_render w)) = map (\<lambda>(l, v). (left_pad 16 l, v))
        ([(''Node Type'', choice_text (case t of Entry \<Rightarrow> ''Entry'' | Middle \<Rightarrow> ''Middle'' | Exit \<Rightarrow> ''Exit'')), (''Port'', port), (''Host'', rc_host c),
          (''Directory URL'', rc_directory_url c), (''Bandwidth'', bw), (''Heartbeat (s)'', hb)] @
         (if t = Exit then [(''Exit Allow All'', choice_text (if rc_exit_allow_all c then ''Yes'' else ''No''))] else []) @
         [(''Operator ID'', case rc_operator_id c of None \<Rightarrow> '''' | Some s \<Rightarrow> s)]) \<and>
      (\<forall>k < length (wf_rows (rw_render w)). marked (wf_rows (rw_render w) ! k) = (k = rw_focused w)) \<and>
      rw_focused w < length (wf_rows (rw_render w))"
proof -
  obtain w' where va: "rw_validate w = (Some c, w')"
    using assms(2) by (auto simp: rw_key_def split: option.splits prod.splits)
  obtain port bw hb where v: "get_at NODE_TYPES (rw_node_type_idx w) = Some t" "parse_u16 (rw_port w) = Some port"
    "parse_u64 (rw_bandwidth w) = Some bw" "parse_u64 (rw_heartbeat w) = Some hb"
    and c: "rc_port c = word_of_nat port" "rc_host c = rw_host w" "rc_directory_url c = rw_directory_url w"
      "rc_bandwidth c = word_of_nat bw" "rc_heartbeat_interval c = word_of_nat hb" "rc_exit_allow_all c = rw_exit_allow_all w"
      "rc_operator_id c = (if rw_operator_id w = '''' then None else Some (rw_operator_id w))"
    using va assms(3) by (auto simp: rw_validate_def Let_def split: option.splits if_splits)
  have "port \<le> 65535" "bw \<le> 2 ^ 64 - 1" "hb \<le> 2 ^ 64 - 1"
    using v by (auto simp: parse_u16_def parse_u64_def dest: from_str_radix_le)
  then have n: "unat (rc_port c) = port" "unat (rc_bandwidth c) = bw" "unat (rc_heartbeat_interval c) = hb"
    by (simp_all add: c unsigned_of_nat take_bit_nat_eq_self)
  have ty: "rw_type_name w = (case t of Entry \<Rightarrow> ''Entry'' | Middle \<Rightarrow> ''Middle'' | Exit \<Rightarrow> ''Exit'')" "(rw_node_type_idx w = 2) = (t = Exit)"
    using v(1) by (auto simp: rw_type_name_def NODE_TYPES_def get_at_def nth_Cons' split: if_splits)
  have op: "(case rc_operator_id c of None \<Rightarrow> '''' | Some s \<Rightarrow> s) = rw_operator_id w" by (simp add: c)
  have rows: "map row_value (wf_rows (rw_render w)) = map (\<lambda>f. row_value (rw_row w 0 f)) (rw_active_fields w)"
    by (simp add: rw_render_def rw_row_value list_eq_iff_nth_eq nth_enumerate_eq)
  have "rw_inv w" using rw_loop_inv [OF assms(1)] rw_inv_new by blast
  then have foc: "rw_focused w < length (wf_rows (rw_render w))" by (simp add: rw_inv_def rw_render_def)
  have mark: "\<forall>k < length (wf_rows (rw_render w)). marked (wf_rows (rw_render w) ! k) = (k = rw_focused w)"
    by (simp add: rw_render_def nth_enumerate_eq marked_rows)
  show ?thesis
    by (intro exI [of _ "rw_port w"] exI [of _ "rw_bandwidth w"] exI [of _ "rw_heartbeat w"])
      (use v n foc mark in \<open>simp add: rows rw_row_value rw_active_fields_def ty op c\<close>)
qed

text \<open>The same for the client's wizard.\<close>

lemma client_wizard_shows_launch:
  assumes "cw_loop ks (cw_new dflt) = Editing w" "cw_key KEnter w = Launched c"
  shows "\<exists>pool hops att. parse_u64 pool = Some (cc_pool_size c) \<and> parse_hop_count hops = Inr (cc_hops c) \<and>
      parse_rebuild_attempts att = Inr (cc_max_rebuild_attempts c) \<and>
      map row_value (wf_rows (cw_render w)) = map (\<lambda>(l, v). (left_pad 20 l, v))
        [(''SOCKS Address'', cc_socks_addr c), (''Directory URL'', cc_directory_url c), (''Pool Size'', pool),
         (''Hops'', hops), (''Max Rebuild'', att)] \<and>
      (\<forall>k < length (wf_rows (cw_render w)). marked (wf_rows (cw_render w) ! k) = (k = cw_focused w)) \<and>
      cw_focused w < length (wf_rows (cw_render w))"
proof -
  obtain w' where "cw_validate w = (Some c, w')"
    using assms(2) by (auto simp: cw_key_def split: option.splits prod.splits)
  then have v: "parse_u64 (cw_pool_size w) = Some (cc_pool_size c)" "parse_hop_count (cw_hops w) = Inr (cc_hops c)"
    "parse_rebuild_attempts (cw_max_rebuild_attempts w) = Inr (cc_max_rebuild_attempts c)"
    "cc_socks_addr c = cw_socks_addr w" "cc_directory_url c = cw_directory_url w"
    using cw_validate_iff [of w c] by blast+
  have "cw_inv w" using cw_loop_inv [OF assms(1)] by (simp add: cw_inv_def cw_new_def FIELDS_def)
  then have foc: "cw_focused w < length (wf_rows (cw_render w))" by (simp add: cw_inv_def cw_render_def)
  have mark: "\<forall>k < length (wf_rows (cw_render w)). marked (wf_rows (cw_render w) ! k) = (k = cw_focused w)"
    by (simp add: cw_render_def nth_enumerate_eq marked_rows)
  show ?thesis
    by (intro exI [of _ "cw_pool_size w"] exI [of _ "cw_hops w"] exI [of _ "cw_max_rebuild_attempts w"])
      (use v foc mark in \<open>simp add: cw_render_def cw_row_def FIELDS_def Let_def\<close>)
qed

end
