(* ===== verification/Terminal_Session.thy ===== *)
theory Terminal_Session
  imports Terminal_Views Node_Life
begin

text \<open>
  The terminal while a dashboard or a wizard has it (\<open>run_tui\<close> in \<open>*/tui/mod.rs\<close>,
  \<open>run_wizard\<close> in \<open>*/wizard/mod.rs\<close>), and the ends of the three processes (\<open>main\<close> in
  \<open>*/main.rs\<close>) when the dashboard, a task or a signal ends them. The calls of crossterm
  and ratatui succeed or fail as the environment says; what a loop meets in its rounds is a
  list of ticks.
\<close>

section \<open>The loops\<close>

text \<open>One round: the frame cannot be drawn, polling or reading fails, nothing happens, or a key is pressed.\<close>

datatype 'k tick = DrawFails | PollFails | ReadFails | Quiet | Pressed 'k

text \<open>A loop has returned, has left the process, or is still running.\<close>

datatype 'r outcome = Returned 'r | Exited | Running

text \<open>\<open>run_event_loop\<close>: a key changes the state, or quits.\<close>

fun event_loop :: "('k \<Rightarrow> 's \<Rightarrow> 's option) \<Rightarrow> 'k tick list \<Rightarrow> 's \<Rightarrow> (any_error + bool) outcome \<times> 's" where
  "event_loop key [] s = (Running, s)"
| "event_loop key (DrawFails # ts) s = (Returned (Inl (Msg ''Failed to draw frame'')), s)"
| "event_loop key (PollFails # ts) s = (Returned (Inl (Msg ''Failed to poll events'')), s)"
| "event_loop key (ReadFails # ts) s = (Returned (Inl (Msg ''Failed to read event'')), s)"
| "event_loop key (Quiet # ts) s = event_loop key ts s"
| "event_loop key (Pressed k # ts) s =
     (case key k s of None \<Rightarrow> (Returned (Inr True), s) | Some s \<Rightarrow> event_loop key ts s)"

text \<open>\<open>wizard_loop\<close>: Esc is \<open>process::exit(0)\<close>.\<close>

fun wizard_loop :: "('k \<Rightarrow> 'w \<Rightarrow> ('w, 'c) wizard) \<Rightarrow> 'k tick list \<Rightarrow> 'w \<Rightarrow> (any_error + 'c) outcome" where
  "wizard_loop key [] w = Running"
| "wizard_loop key (DrawFails # ts) w = Returned (Inl (Msg ''Failed to draw frame''))"
| "wizard_loop key (PollFails # ts) w = Returned (Inl (Msg ''Failed to poll events''))"
| "wizard_loop key (ReadFails # ts) w = Returned (Inl (Msg ''Failed to read event''))"
| "wizard_loop key (Quiet # ts) w = wizard_loop key ts w"
| "wizard_loop key (Pressed k # ts) w =
     (case key k w of Editing w \<Rightarrow> wizard_loop key ts w | Launched c \<Rightarrow> Returned (Inr c) | Quit \<Rightarrow> Exited)"

section \<open>The screen\<close>

record console =
  con_raw :: bool
  con_alternate :: bool

text \<open>Which of the calls succeed: raw mode on, the alternate screen, the terminal, and the two back.\<close>

record console_env =
  ok_raw :: bool
  ok_alternate :: bool
  ok_terminal :: bool
  ok_raw_off :: bool
  ok_alternate_off :: bool

text \<open>What the five functions have in common: set-up, loop, and back.\<close>

definition with_screen :: "console_env \<Rightarrow> (any_error + 'r) outcome \<Rightarrow> console \<Rightarrow> (any_error + 'r) outcome \<times> console" where
  "with_screen e body s =
     (if \<not> ok_raw e then (Returned (Inl (Msg ''Failed to enable raw mode'')), s)
      else let s = s\<lparr>con_raw := True\<rparr> in
      if \<not> ok_alternate e then (Returned (Inl (Msg ''Failed to enter alternate screen'')), s)
      else let s = s\<lparr>con_alternate := True\<rparr> in
      if \<not> ok_terminal e then (Returned (Inl (Msg ''Failed to create terminal'')), s)
      else case body of
        Returned r \<Rightarrow> (Returned r, \<lparr>con_raw = \<not> ok_raw_off e, con_alternate = \<not> ok_alternate_off e\<rparr>)
      | unfinished \<Rightarrow> (unfinished, s))"

definition relay_run_tui :: "console_env \<Rightarrow> tui_key tick list \<Rightarrow> console \<Rightarrow> (any_error + bool) outcome \<times> console" where
  "relay_run_tui e ts = with_screen e (fst (event_loop relay_tui_key ts tui_new))"

text \<open>The keys of the other two dashboards only quit.\<close>

definition plain_key :: "tui_key \<Rightarrow> unit \<Rightarrow> unit option" where
  "plain_key k s = (if quit_key k then None else Some s)"

definition client_run_tui :: "console_env \<Rightarrow> tui_key tick list \<Rightarrow> console \<Rightarrow> (any_error + bool) outcome \<times> console" where
  "client_run_tui e ts = with_screen e (fst (event_loop plain_key ts ()))"

definition dir_run_tui :: "console_env \<Rightarrow> tui_key tick list \<Rightarrow> console \<Rightarrow> (any_error + bool) outcome \<times> console" where
  "dir_run_tui e ts = with_screen e (fst (event_loop plain_key ts ()))"

definition relay_run_wizard ::
  "console_env \<Rightarrow> key tick list \<Rightarrow> relay_config \<Rightarrow> console \<Rightarrow> (any_error + relay_config) outcome \<times> console"
where
  "relay_run_wizard e ts c = with_screen e (wizard_loop rw_key ts (rw_new c))"

definition client_run_wizard ::
  "console_env \<Rightarrow> key tick list \<Rightarrow> client_config \<Rightarrow> console \<Rightarrow> (any_error + client_config) outcome \<times> console"
where
  "client_run_wizard e ts c = with_screen e (wizard_loop cw_key ts (cw_new c))"

section \<open>What the loops guarantee\<close>

text \<open>
  The screen is given back whenever a loop that was entered returns, whatever it returns; a
  set-up that fails half way leaves what it had changed, and so does leaving the process.
\<close>

definition screen_ok :: "console_env \<Rightarrow> bool" where
  "screen_ok e = (ok_raw e \<and> ok_alternate e \<and> ok_terminal e \<and> ok_raw_off e \<and> ok_alternate_off e)"

lemma screen_given_back:
  assumes "screen_ok e" "with_screen e body s = (Returned r, s')"
  shows "body = Returned r \<and> s' = \<lparr>con_raw = False, con_alternate = False\<rparr>"
  using assms by (cases body) (auto simp: with_screen_def screen_ok_def Let_def)

lemma setup_leaves_raw:
  assumes "ok_raw e" "\<not> (ok_alternate e \<and> ok_terminal e)"
  shows "con_raw (snd (with_screen e body s)) \<and> (\<exists>m. fst (with_screen e body s) = Returned (Inl (Msg m)))"
  using assms by (auto simp: with_screen_def Let_def)

lemma escape_leaves_raw:
  assumes "screen_ok e"
  shows "relay_run_wizard e (Pressed KEsc # ts) c s = (Exited, \<lparr>con_raw = True, con_alternate = True\<rparr>)"
    and "client_run_wizard e (Pressed KEsc # ts) cc s = (Exited, \<lparr>con_raw = True, con_alternate = True\<rparr>)"
  using assms
  by (simp_all add: relay_run_wizard_def client_run_wizard_def with_screen_def screen_ok_def Let_def rw_key_def cw_key_def)

text \<open>A round in which the loop goes on, given the keys that quit.\<close>

definition harmless :: "('k \<Rightarrow> bool) \<Rightarrow> 'k tick \<Rightarrow> bool" where
  "harmless quits t = (case t of Quiet \<Rightarrow> True | Pressed k \<Rightarrow> \<not> quits k | _ \<Rightarrow> False)"

text \<open>A dashboard never returns \<open>Ok(false)\<close>, and \<open>Ok(true)\<close> exactly at the first key that quits.\<close>

lemma event_loop_quits:
  assumes "\<And>k s. key k s = None \<longleftrightarrow> quits k"
  shows "fst (event_loop key ts s) = Returned (Inr b) \<longleftrightarrow> b \<and> (\<exists>k rest. dropWhile (harmless quits) ts = Pressed k # rest)"
proof (induction ts arbitrary: s)
  case (Cons t ts)
  show ?case
  proof (cases t)
    case (Pressed k)
    with Cons assms [of k s] show ?thesis by (cases "key k s") (simp_all add: harmless_def)
  qed (simp_all add: Cons harmless_def)
qed simp

lemma relay_tui_quits: "relay_tui_key k s = None \<longleftrightarrow> quit_key k"
  by (simp add: relay_tui_key_cases)

lemma plain_key_quits: "plain_key k s = None \<longleftrightarrow> quit_key k"
  by (simp add: plain_key_def)

text \<open>The keys alone, without failures, are those of the dashboard and of the wizards.\<close>

lemma event_loop_keys:
  "relay_tui_keys ks s = Some s' \<Longrightarrow> event_loop relay_tui_key (map Pressed ks) s = (Running, s')"
  "relay_tui_keys ks s = None \<Longrightarrow> fst (event_loop relay_tui_key (map Pressed ks) s) = Returned (Inr True)"
  by (induction ks arbitrary: s) (auto split: option.splits)

lemma wizard_loop_keys:
  "wizard_loop rw_key (map Pressed ks) w =
     (case rw_loop ks w of Editing w \<Rightarrow> Running | Launched c \<Rightarrow> Returned (Inr c) | Quit \<Rightarrow> Exited)"
  by (induction ks arbitrary: w) (auto split: wizard.splits)

section \<open>The ends of the processes\<close>

datatype log_level = LInfo | LWarn | LError

text \<open>The dashboard's task: its result, or the text of its panic.\<close>

datatype dash_end = DashOk bool | DashFailed string | DashPanicked string

fun dash_end_log :: "dash_end \<Rightarrow> log_level \<times> string" where
  "dash_end_log (DashOk True) = (LInfo, ''TUI quit requested'')"
| "dash_end_log (DashOk False) = (LInfo, ''TUI exited'')"
| "dash_end_log (DashFailed e) = (LError, ''TUI error: '' @ e)"
| "dash_end_log (DashPanicked e) = (LError, ''TUI task panicked: '' @ e)"

datatype relay_end = DashboardEnded dash_end | CtrlC | HeartbeatEnded string | ConnectionsEnded string

fun relay_end_log :: "relay_end \<Rightarrow> log_level \<times> string" where
  "relay_end_log (DashboardEnded d) = dash_end_log d"
| "relay_end_log CtrlC = (LInfo, ''Received shutdown signal'')"
| "relay_end_log (HeartbeatEnded r) = (LError, ''Heartbeat task terminated unexpectedly: '' @ r)"
| "relay_end_log (ConnectionsEnded r) = (LError, ''Connection handler terminated unexpectedly: '' @ r)"

text \<open>Without \<open>--tui\<close> there is no dashboard to wait for.\<close>

definition relay_may_end :: "bool \<Rightarrow> relay_end \<Rightarrow> bool" where
  "relay_may_end tui e = (case e of DashboardEnded d \<Rightarrow> tui | _ \<Rightarrow> True)"

definition relay_shutdown ::
  "(status \<Rightarrow> string) \<Rightarrow> (string \<Rightarrow> (status + unit) \<times> 'd) \<Rightarrow> string \<Rightarrow> (log_level \<times> string) list \<times> 'd"
where
  "relay_shutdown text call i =
     (let (res, dir) = unregister_from_directory call i in
      ((LInfo, ''Unregistering from directory service...'') #
       (case res of Inl er \<Rightarrow> [(LWarn, ''Failed to unregister: '' @ text er)]
        | Inr _ \<Rightarrow> [(LInfo, ''Successfully unregistered from directory service'')]) @
       [(LInfo, ''Relay node stopped'')], dir))"

text \<open>
  \<open>main\<close> from the listener on: \<open>life\<close> is what the directory goes through while the relay
  runs, \<open>ends\<close> what completes, the first of which ends the wait.
\<close>

definition relay_main ::
  "(status \<Rightarrow> string) \<Rightarrow> any_error + unit \<Rightarrow> bool \<Rightarrow> ('d \<Rightarrow> 'd) \<Rightarrow> relay_end list
   \<Rightarrow> ('d \<Rightarrow> string \<Rightarrow> (status + unit) \<times> 'd) \<Rightarrow> (start_error + node_descriptor) \<times> 'd
   \<Rightarrow> ((start_error + unit) \<times> (log_level \<times> string) list \<times> 'd) option"
where
  "relay_main text bound tui life ends remove start =
     (case relay_listen bound start of
        (Inl e, dir) \<Rightarrow> Some (Inl e, [], dir)
      | (Inr d, dir) \<Rightarrow>
          (case find (relay_may_end tui) ends of None \<Rightarrow> None
           | Some e \<Rightarrow> (let (log, dir) = relay_shutdown text (remove (life dir)) (node_id d) in
               Some (Inr (), relay_end_log e # log, dir))))"

text \<open>However it ends, a relay that runs leaves the directory and returns without an error.\<close>

lemma relay_main_removes:
  assumes "relay_main text (Inr ()) tui life ends remove (Inr d, dir) = Some r"
  shows "fst r = Inr () \<and> snd (snd r) = relay_stop (remove (life dir)) (node_id d)"
  using assms by (auto simp: relay_main_def relay_listen_def relay_shutdown_def relay_stop_def Let_def split: option.splits prod.splits)

text \<open>
  Pressing q at a relay: the dashboard returns, the terminal is as it was, the process
  ends, and the directory no longer knows the relay.
\<close>

lemma relay_quits_cleanly:
  assumes "screen_ok e" "relay_run_tui e ts s = (Returned (Inr b), s')"
    and "relay_main text (Inr ()) True life [DashboardEnded (DashOk b)] (\<lambda>st j. rpc_remove_node stop j st) (Inr d, st) = r"
  shows "b \<and> s' = \<lparr>con_raw = False, con_alternate = False\<rparr> \<and>
    (\<exists>log st'. r = Some (Inr (), (LInfo, ''TUI quit requested'') # log, st') \<and> reg_lookup (ds_registry st') (node_id d) = None)"
proof -
  note given = screen_given_back [OF assms(1) assms(2) [unfolded relay_run_tui_def]]
  from given have b: b using event_loop_quits [of relay_tui_key quit_key ts tui_new b] relay_tui_quits by auto
  obtain st' where st': "snd (rpc_remove_node stop (node_id d) (life st)) = st'" by simp
  have "ds_registry st' = snd (remove_node (node_id d) (ds_registry (life st)))"
    using st' by (auto simp: rpc_remove_node_def Let_def split: sum.splits prod.splits)
  then have "reg_lookup (ds_registry st') (node_id d) = None" by (simp add: registry.lookup_remove)
  with given b st' assms(3) show ?thesis
    by (auto simp: relay_main_def relay_listen_def relay_may_end_def relay_shutdown_def unregister_from_directory_def Let_def
        split: prod.splits sum.splits)
qed

text \<open>The directory's two servers: as tasks beside its dashboard, or in \<open>main\<close> itself.\<close>

datatype server_end = ServerExited | ServerFailed string | ServerPanicked string

fun server_end_log :: "bool \<Rightarrow> string \<Rightarrow> server_end \<Rightarrow> (log_level \<times> string) list" where
  "server_end_log tui name ServerExited = (if tui then [(LInfo, name @ '' server exited'')] else [])"
| "server_end_log tui name (ServerFailed e) = [(LError, name @ '' server error: '' @ e)]"
| "server_end_log tui name (ServerPanicked e) = (if tui then [(LError, name @ '' task panicked: '' @ e)] else [])"

datatype dir_end = DirDashboardEnded dash_end | GrpcEnded server_end | WebEnded server_end

fun dir_end_log :: "bool \<Rightarrow> dir_end \<Rightarrow> (log_level \<times> string) list" where
  "dir_end_log tui (DirDashboardEnded d) = [dash_end_log d]"
| "dir_end_log tui (GrpcEnded r) = server_end_log tui ''gRPC'' r"
| "dir_end_log tui (WebEnded r) = server_end_log tui ''Web'' r"

text \<open>A panic of a server that is no task of its own is a panic of \<open>main\<close>.\<close>

definition dir_may_end :: "bool \<Rightarrow> dir_end \<Rightarrow> bool" where
  "dir_may_end tui e = (tui \<or> e \<in> {GrpcEnded ServerExited, WebEnded ServerExited} \<or>
     (case e of GrpcEnded (ServerFailed m) \<Rightarrow> True | WebEnded (ServerFailed m) \<Rightarrow> True | _ \<Rightarrow> False))"

definition dir_main ::
  "dir_config \<Rightarrow> nat \<Rightarrow> any_error + unit \<Rightarrow> (string \<Rightarrow> any_error + unit) \<Rightarrow> dir_end list
   \<Rightarrow> (any_error + (log_level \<times> string) list) option"
where
  "dir_main c now reflection bind ends =
     (case dir_start c now reflection bind of Inl e \<Rightarrow> Some (Inl e)
      | Inr st \<Rightarrow> map_option (\<lambda>e. Inr (dir_end_log (dcf_tui c) e)) (find (dir_may_end (dcf_tui c)) ends))"

text \<open>
  The client waits for its proxy, which Ctrl-C ends, and only then for its dashboard: q
  closes the dashboard and the process goes on.
\<close>

datatype client_end = ProxyStopped | ClientDashboardEnded

definition client_main_over :: "bool \<Rightarrow> client_end list \<Rightarrow> bool" where
  "client_main_over tui ends = (ProxyStopped \<in> set ends \<and> (tui \<longrightarrow> ClientDashboardEnded \<in> set ends))"

lemma client_outlives_dashboard:
  assumes "ProxyStopped \<notin> set ends"
  shows "\<not> client_main_over tui (ClientDashboardEnded # ends)"
  using assms by (simp add: client_main_over_def)

end
