(* ===== verification/Spec2Isabelle.thy ===== *)
theory Spec2Isabelle
  imports Tor_Protocol Tor_Crypto Tor_Metrics Onion_Keys Dir_Registry Relay_Node
    Client_Handshake Client_Pool Client_Stream Circuit_Path Dir_Service Node_Setup
    Terminal_Views Web_Dashboard Circuit_Build Stream_Path Client_Traffic Tls_Link Wizard_Views Terminal_Session
begin

text \<open>
  mini-tor, an onion router in Rust (\<open>src/services/\<close>): a discovery service keeps a directory
  of relays; a relay (entry, middle or exit) carries cells of 514 bytes; a client builds
  circuits of three or more relays, keeps a pool of them and offers a SOCKS5 proxy whose
  connections become streams over the circuits; three terminal dashboards and a web page
  show what happens. This development models the services' logic as functions and step
  relations over explicit states and proves what they promise to each other.

  \<^bold>\<open>The theories, bottom up.\<close>

  \<^item> \<open>Tor_Prelude\<close>: words and bytes, ranges of buffers (\<open>get_range\<close> is \<open>slice.get(a..b)\<close>), hash
    maps as association lists with the map laws as the locale \<open>map_spec\<close>, errors.
  \<^item> \<open>Tor_Net\<close>, \<open>Net_Text\<close>: IP and socket addresses, their text and its parser, as
    \<open>std::net\<close> has them; the text reads back as the address.
  \<^item> \<open>Tor_Types\<close> (\<open>common/src/types.rs\<close>, \<open>error.rs\<close>): node types, keys, exit policies,
    descriptors, errors.
  \<^item> \<open>Tor_Protocol\<close> (\<open>common/src/protocol.rs\<close>): commands, messages, the cell, and reading
    and writing cells on a stream.
  \<^item> \<open>Tor_Crypto\<close>, \<open>Onion_Keys\<close> (\<open>common/src/crypto.rs\<close>, \<open>tls.rs\<close>,
    \<open>relay-node/src/core/keypair.rs\<close>, \<open>tor-client/src/core/crypto_engine.rs\<close>): key derivation,
    ntor, ciphers, running digests, the pinned-certificate verifier, and the client's layers.
  \<^item> \<open>Tor_Metrics\<close> (\<open>*/core/metrics.rs\<close>): counters and the ring buffer of events.
  \<^item> \<open>Relay_Context\<close>, \<open>Relay_Entry\<close>, \<open>Relay_Middle\<close>, \<open>Relay_Exit\<close>, \<open>Relay_Node\<close>
    (\<open>relay-node/src/circuit/\<close>, \<open>main.rs\<close>): the three circuit handlers with every branch, the
    exit's stream tasks, the circuit registry, the background readers of the next hop, the
    connection loop and the acceptance of connections.
  \<^item> \<open>Client_Circuit\<close>, \<open>Client_Builder\<close>, \<open>Client_Handshake\<close>, \<open>Client_Pool\<close>,
    \<open>Client_Stream\<close> (\<open>tor-client/src/core/circuit.rs\<close>, \<open>transport.rs\<close>, \<open>stream.rs\<close>,
    \<open>client/socks_proxy.rs\<close>): a circuit and its reader, the builder, the pool with its
    monitor and keepalive, a SOCKS5 stream from its request to its cleanup.
  \<^item> \<open>Client_Main\<close>, \<open>Client_Traffic\<close> (\<open>tor-client/src/main.rs\<close>, \<open>run\<close> in
    \<open>client/socks_proxy.rs\<close>): the client process, from its start through every interleaving
    of its accept loop, connections, readers, monitor and keepalive.
  \<^item> \<open>Dir_Registry\<close>, \<open>Dir_Service\<close> (\<open>discovery/src/core/\<close>, \<open>api/grpc.rs\<close>, \<open>proto/src/lib.rs\<close>,
    \<open>tor-client/src/client/\<close>): the registry and path selection, the gRPC handlers, the
    messages' conversions, the cleanup task, and the calls of relays and clients.
  \<^item> \<open>Node_Setup\<close> (\<open>*/core/config.rs\<close>, \<open>*/wizard/mod.rs\<close>): configurations, arguments, wizards,
    and a relay's way to its registration.
  \<^item> \<open>Node_Life\<close> (\<open>relay-node/src/main.rs\<close>, \<open>discovery/src/main.rs\<close>): how relays and the
    directory start, and how a relay ends.
  \<^item> \<open>Tls_Link\<close> (\<open>common/src/tls.rs\<close>): a relay's certificate, its fingerprint in the directory, and
    the connections that pin it.
  \<^item> \<open>Terminal_Views\<close>, \<open>Wizard_Views\<close>, \<open>Web_Dashboard\<close> (\<open>*/tui/mod.rs\<close>, \<open>*/wizard/mod.rs\<close>,
    \<open>discovery/src/api/rest.rs\<close>, \<open>web-ui/src/app.rs\<close>): what the dashboards and wizards show, their
    keys, clicks and polls.
  \<^item> \<open>Terminal_Session\<close> (\<open>*/tui/mod.rs\<close>, \<open>*/wizard/mod.rs\<close>, \<open>*/main.rs\<close>): the loops of the dashboards and
    wizards, the terminal they take and give back, and what ends each of the processes.
  \<^item> \<open>Circuit_Path\<close>, \<open>Circuit_Build\<close>, \<open>Stream_Path\<close> and this theory: the client and
    the relays of a circuit together.

  \<^bold>\<open>State and effects.\<close> A Rust struct is a record, an enumeration a datatype, an integer a word of
  its width (\<open>usize\<close> and times are naturals). A method that takes \<open>&mut self\<close> returns the new
  state. \<open>Result\<close> is a sum with the error on the left; the texts of errors are kept.
  Shared objects (a circuit of the client, the crypto state and the stream tasks of an exit,
  write halves, channels) live in lists and are named by their index, so that sharing is
  visible. What tasks do concurrently is a sequence of steps, each of which holds the locks
  the code holds: \<open>pool_step\<close>, \<open>stream_step\<close>, \<open>reg_step\<close>, \<open>dir_run\<close>, and \<open>proc_step\<close> for the
  whole client, whose state \<open>client_proc\<close> has the pool, the channels and the connections.

  \<^bold>\<open>Parameters.\<close> \<open>prims\<close> holds AES-128 in counter mode, SHA-256, HMAC and X25519; lemmas
  assume lengths (\<open>prims_wf\<close>) and, for handshakes, that Diffie-Hellman agrees
  (\<open>dh_agrees\<close>), and \<open>toy_prims\<close> satisfies both. A network is a function from addresses to
  peers that answer what they have received; clocks, random draws, fresh secrets and
  whether a destination can be reached are arguments. Random padding is a function of the
  position. Read buffers are cut by events.

  \<^bold>\<open>Interfaces.\<close> \<open>stream_cipher\<close> and \<open>stateful_cipher\<close> (a layer comes off again and both ends
  end in the same state; interpreted by the counter mode and by a pair of ciphers),
  \<open>ntor_handshaker\<close> (exactly the server's answer is accepted), \<open>framed_codec\<close> (cells),
  \<open>map_spec\<close> (hash maps), \<open>handler_contract\<close> (what the dispatch expects of entry, middle and
  exit, each an interpretation, and the dispatch itself one more), \<open>node_store\<close> (the
  Rust trait, interpreted by the registry), \<open>node_directory\<close> (the trait the builder uses,
  interpreted by the gRPC client and by the mock).

  \<^bold>\<open>What is shown.\<close>

  \<^item> One circuit, all hops: \<open>path_sync\<close> relates the client's keys to the states of the
    relays. The builder ends in it whatever the number of hops (\<open>Circuit_Build\<close>), opening
    and closing a stream, a stream that the exit refuses, keepalives and data in both
    directions keep it (\<open>Stream_Path\<close>, \<open>Circuit_Path\<close>), and over it a circuit is a pair of queues per stream. From this the
    session, upload and download theorems of this theory follow. Nothing a relay or the
    client does is assumed to succeed; assumed are keys that belong to the descriptors,
    addresses behind which the next hop is, and open connections.
  \<^item> Cells and keys: round trips of the layout and of the framing, agreement of the
    handshake, any number of onion layers, tampering detected by the exit and by the
    client.
  \<^item> Relays: life cycle and isolation of circuits, termination of the connection loop.
  \<^item> The client: it listens with a full pool only; over every interleaving of its tasks the
    pool is consistent, no two connections share a channel, and a connection gets the bytes
    of its own stream, in order; selection, replacement, back-off, the monitor's repair,
    cleanup of streams, fresh stream ids.
  \<^item> The directory: paths handed out are sound, are found exactly when there is one, and
    reach the client; the registry's uniqueness and expiry; a relay is on file from its
    start to its end and no longer, and whoever dials it by the path handed out reaches a
    peer with the hash of its certificate; weighted choice; descriptors survive the wire.
  \<^item> Set-up and views: both wizards, what a page or a terminal shows after any keys,
    clicks and polls, and that a loop which returns gives the terminal back.

  \<^bold>\<open>Fuel.\<close> Loops over input take fuel: \<open>circuit_reader\<close>, \<open>handle_connection\<close> and
  \<open>stream_drain\<close> one unit per cell, so more than the whole cells of the input is enough
  (shown for the first two); \<open>read_groups\<close> one per group of an IPv6 address. Other recursion is
  structural or has a measure.

  \<^bold>\<open>Not modelled.\<close> Widget placement and drawing (ratatui, crossterm), the markup of the page
  (Leptos), routing, CORS and JSON of the web server (axum, serde), command line parsing
  (clap), the set-up of logging, TLS sessions and the making of certificates (rustls, rcgen: parameters of \<open>Tls_Link\<close>), the
  gRPC transport and the protobuf encoding (tonic, prost), the SOCKS5 messages
  (simple-socks5): library code the sources only call, or text for a screen. The tests
  inside the source files are not program code.
\<close>

section \<open>The circuit end to end\<close>

text \<open>
  C2. A circuit refines a pair of queues per stream. As long as the client's keys agree with
  the states of the relays, any sequence of client sends, exit sends and keepalives, in any order, over
  any streams open at both ends and with any number of middles, runs through every hop
  without a failure; afterwards the queue of each stream's destination task holds exactly
  the data the client sent on that stream, in order, each stream's channel at the client
  exactly the cells the exit sent, in order, and the two ends agree again.
\<close>

theorem circuit_refines_pipes:
  assumes "path_sync P ps" "streams_open ps sids" "\<forall>op \<in> set ops. op_on sids op \<and> op_ok op"
  shows "\<exists>ps'. path_run rnd P now ops ps = Some ps' \<and> path_sync P ps' \<and> streams_open ps' sids \<and>
    (\<forall>sid \<in> sids. pipe_of ps' sid = fold pipe_step ops (pipe_of ps) sid)"
  using path_run_pipes [OF assms] .

theorem circuit_refines_pipes_witness:
  "\<exists>ps'. path_run (\<lambda>i. 0) toy_prims 0 [Up 1 [1, 2], Down 1 Data [5], Pad (\<lambda>n. 3) (\<lambda>i. 7), Up 1 [3], Down 1 End []] sample_path = Some ps' \<and>
     pipe_of ps' 1 = \<lparr>sp_up = [[1, 2], [3]], sp_down = [(Data, [5]), (End, [])]\<rparr>"
proof -
  let ?ops = "[Up 1 [1, 2], Down 1 Data [5], Pad (\<lambda>n. 3) (\<lambda>i. 7), Up 1 [3], Down 1 End []]"
  have "pipe_of sample_path 1 = \<lparr>sp_up = [], sp_down = []\<rparr>"
    by (simp add: pipe_of_def sample_path_def sample_exit_def sample_world_def sample_task_def hm_get_def)
  with circuit_refines_pipes [OF sample_path_sync sample_path_open, of ?ops "\<lambda>i. 0" 0] show ?thesis
    by (auto simp: MAX_PAYLOAD_SIZE_eq)
qed

section \<open>A SOCKS5 stream over the circuit\<close>

lemma ce_send_is_forward:
  assumes "send_forward P sid cmd d ps = Some (m, ps')"
  shows "ce_send P sid cmd d (ps_client ps) = (Inr (), ps_client ps')"
  using assms by (auto simp: send_forward_def relays_forward_def ce_send_def Let_def split: prod.splits sum.splits option.splits)

lemma up_is_send:
  assumes "path_step rnd P now (Up sid d) ps = Some ps'"
  shows "ce_send P sid Data d (ps_client ps) = (Inr (), ps_client ps')"
  using assms
  by (auto simp: path_forward_def Let_def dest: ce_send_is_forward split: prod.splits sum.splits option.splits)

lemma send_chunks_ups:
  "path_run rnd P now (map (Up sid) ds) ps = Some ps' \<Longrightarrow> send_chunks P sid ds (ps_client ps) = (True, ps_client ps')"
proof (induction ds arbitrary: ps)
  case (Cons d ds)
  then obtain ps1 where "path_step rnd P now (Up sid d) ps = Some ps1" "path_run rnd P now (map (Up sid) ds) ps1 = Some ps'"
    by (auto split: option.splits)
  with Cons.IH show ?case by (simp add: up_is_send del: path_step.simps)
qed simp

lemma ups_queue: "sp_up (fold pipe_step (map (Up sid) ds) p sid) = sp_up (p sid) @ ds"
  by (induction ds arbitrary: p) simp_all

lemma downs_queue: "sp_down (fold pipe_step (map (\<lambda>(c, d). Down sid c d) cds) p sid) = sp_down (p sid) @ cds"
  by (induction cds arbitrary: p) auto

lemma path_step_senders:
  assumes "path_step rnd P now op ps = Some ps'"
  shows "ci_stream_senders (ce_circuit (ps_client ps')) = ci_stream_senders (ce_circuit (ps_client ps))"
proof (cases op)
  case (Up sid d)
  then show ?thesis using assms ce_send_frame [OF up_is_send [of rnd P now sid d ps ps']] by simp
next
  case (Down sid cmd d)
  then show ?thesis
    using assms by (auto simp: path_backward_def deliver_back_def reader_message_def reader_closed_def Let_def
        split: option.splits prod.splits sum.splits bool.splits if_splits)
next
  case (Pad pick filler)
  then show ?thesis using assms by (auto simp: path_pad_def Let_def split: option.splits prod.splits sum.splits)
qed

lemma path_run_senders:
  "path_run rnd P now ops ps = Some ps' \<Longrightarrow>
   ci_stream_senders (ce_circuit (ps_client ps')) = ci_stream_senders (ce_circuit (ps_client ps))"
  by (induction ops arbitrary: ps) (auto dest: path_step_senders simp del: path_step.simps split: option.splits)

text \<open>
  C3. Upload, end to end. Whatever the SOCKS5 client writes in one read, of any length, the
  stream task sends on in cells, and every byte of it goes through all the hops to the queue
  of the destination, in order and once; the task goes on, and client and relays still agree.
\<close>

theorem upload_end_to_end:
  assumes "path_sync P ps" "streams_open ps sids" "sm_stream_id t \<in> sids"
  shows "\<exists>ps' ce'. stream_turn P now (ClientData buf) (t, ps_client ps) = (True, (t, ce')) \<and>
    ce_circuit ce' = ce_circuit (ps_client ps') \<and> ce_channels ce' = ce_channels (ps_client ps') \<and>
    path_run rnd P now (map (Up (sm_stream_id t)) (chunks MAX_PAYLOAD_SIZE buf)) ps = Some ps' \<and>
    path_sync P ps' \<and> streams_open ps' sids \<and>
    concat (sp_up (pipe_of ps' (sm_stream_id t))) = concat (sp_up (pipe_of ps (sm_stream_id t))) @ buf"
proof -
  let ?sid = "sm_stream_id t" let ?ds = "chunks MAX_PAYLOAD_SIZE buf"
  have "\<forall>op \<in> set (map (Up ?sid) ?ds). op_on sids op \<and> op_ok op"
    using assms(3) chunks_bound [of _ MAX_PAYLOAD_SIZE buf] by auto
  from path_run_pipes [OF assms(1,2) this, of rnd now]
  obtain ps' where r: "path_run rnd P now (map (Up ?sid) ?ds) ps = Some ps'" "path_sync P ps'" "streams_open ps' sids"
    "pipe_of ps' ?sid = fold pipe_step (map (Up ?sid) ?ds) (pipe_of ps) ?sid" using assms(3) by blast
  have "concat ?ds = buf" by (rule chunks_concat) (simp add: MAX_PAYLOAD_SIZE_eq)
  with r send_chunks_ups [OF r(1)] show ?thesis
    by (auto simp: stream_turn_def Let_def ups_queue ce_event_def)
qed

definition sample_stream :: stream_task where
  "sample_stream = (stream_new ''h'')\<lparr>sm_phase := SRelaying, sm_circuit_id := 7, sm_stream_id := 1\<rparr>"

lemma sample_queues: "pipe_of sample_path 1 = \<lparr>sp_up = [], sp_down = []\<rparr>"
  by (simp add: pipe_of_def sample_path_def sample_exit_def sample_world_def sample_task_def hm_get_def)

theorem upload_end_to_end_witness:
  "\<exists>ps'. path_run (\<lambda>i. 0) toy_prims 0 (map (Up 1) (chunks MAX_PAYLOAD_SIZE (replicate 1000 3))) sample_path = Some ps' \<and>
     concat (sp_up (pipe_of ps' 1)) = replicate 1000 3"
  using upload_end_to_end [OF sample_path_sync sample_path_open, of sample_stream 0 "replicate 1000 3" "\<lambda>i. 0"]
  by (auto simp: sample_stream_def sample_queues)

text \<open>
  C4. Download, end to end. What a stream's task at the exit sends, the data of the cells in
  order and then END, goes back through all the hops and comes out at the SOCKS5 client: the
  client's task writes exactly those bytes and its loop ends.
\<close>

theorem download_end_to_end:
  assumes "path_sync P ps" "streams_open ps sids" "sm_stream_id t \<in> sids"
    and "\<forall>d \<in> set ds. length d \<le> MAX_PAYLOAD_SIZE" "length fin \<le> MAX_PAYLOAD_SIZE"
    and "hm_get (ci_stream_senders (ce_circuit (ps_client ps))) (sm_stream_id t) = Some (sm_chan t)"
    and "chan_queue (ce_channels (ps_client ps) ! sm_chan t) = []"
  shows "\<exists>ps' ce'. path_run rnd P now (map (Down (sm_stream_id t) Data) ds @ [Down (sm_stream_id t) End fin]) ps = Some ps' \<and>
    path_sync P ps' \<and>
    stream_drain (length ds + 1) P now (t, ps_client ps') = (False, (t\<lparr>sm_written := sm_written t @ concat ds\<rparr>, ce'))"
proof -
  let ?sid = "sm_stream_id t"
  let ?cds = "map (Pair Data) ds @ [(End, fin)]"
  have ops: "map (Down ?sid Data) ds @ [Down ?sid End fin] = map (\<lambda>(c, d). Down ?sid c d) ?cds" by simp
  have "\<forall>op \<in> set (map (\<lambda>(c, d). Down ?sid c d) ?cds). op_on sids op \<and> op_ok op"
    using assms(3-5) by auto
  from path_run_pipes [OF assms(1,2) this, of rnd now]
  obtain ps' where r: "path_run rnd P now (map (\<lambda>(c, d). Down ?sid c d) ?cds) ps = Some ps'" "path_sync P ps'"
    "streams_open ps' sids" "pipe_of ps' ?sid = fold pipe_step (map (\<lambda>(c, d). Down ?sid c d) ?cds) (pipe_of ps) ?sid"
    using assms(3) by blast
  let ?q = "chan_queue (ce_channels (ps_client ps') ! sm_chan t)"
  have get: "hm_get (ci_stream_senders (ce_circuit (ps_client ps'))) ?sid = Some (sm_chan t)"
    using path_run_senders [OF r(1)] assms(6) by simp
  have q: "map (\<lambda>m. (command m, data m)) ?q = ?cds"
    using arg_cong [OF r(4), of sp_down] downs_queue [of ?sid ?cds "pipe_of ps"] get assms(6,7)
    by (simp add: pipe_of_def split_beta)
  then obtain ms m where ms: "?q = ms @ [m]" "map (\<lambda>m. (command m, data m)) ms = map (Pair Data) ds" "command m = End"
    by (auto simp: map_eq_append_conv)
  have all: "command m' = Data" if "m' \<in> set ms" for m'
  proof -
    have "(command m', data m') \<in> set (map (Pair Data) ds)" unfolding ms(2) [symmetric] using that by auto
    then show ?thesis by auto
  qed
  have written: "concat (map data (filter (\<lambda>m. command m = Data) ms)) = concat ds"
  proof -
    have "map data ms = map snd (map (\<lambda>m. (command m, data m)) ms)" by simp
    also have "\<dots> = ds" unfolding ms(2) by (simp add: comp_def)
    finally show ?thesis using all by (simp add: filter_True)
  qed
  have len: "length ms = length ds" using arg_cong [OF ms(2), of length] by simp
  have lt: "sm_chan t < length (ce_channels (ps_client ps'))"
  proof -
    obtain xe xh w where x: "ps_exit ps' = (xe, xh, w)" by (metis prod_cases3)
    have "stream_open ps' ?sid" using r(3) assms(3) by (simp add: streams_open_def)
    then show ?thesis by (rule stream_openE [OF _ x]) (use get in simp)
  qed
  have "\<forall>m' \<in> set ms. command m' \<noteq> End" using all by auto
  from stream_drain_end [OF lt this ms(3), of "[]" 0 P now] ms(1) r(2) r(1)[folded ops] len written
  show ?thesis by (intro exI [of _ ps']) auto
qed

theorem download_end_to_end_witness:
  "\<exists>ps' ce'. path_run (\<lambda>i. 0) toy_prims 0 [Down 1 Data [5, 6], Down 1 Data [7], Down 1 End []] sample_path = Some ps' \<and>
     stream_drain 3 toy_prims 0 (sample_stream, ps_client ps') = (False, (sample_stream\<lparr>sm_written := [5, 6, 7]\<rparr>, ce'))"
proof -
  have "sm_stream_id sample_stream = 1" "sm_chan sample_stream = 0" "sm_written sample_stream = []"
    by (simp_all add: sample_stream_def stream_new_def)
  moreover have "hm_get (ci_stream_senders (ce_circuit (ps_client sample_path))) 1 = Some 0"
    "chan_queue (ce_channels (ps_client sample_path) ! 0) = []"
    by (simp_all add: sample_path_def hm_get_def)
  ultimately show ?thesis
    using download_end_to_end [OF sample_path_sync sample_path_open, of sample_stream "[[5, 6], [7]]" "[]" "\<lambda>i. 0" 0]
    by (auto simp: eval_nat_numeral MAX_PAYLOAD_SIZE_eq simp del: stream_drain.simps path_run.simps)
qed

section \<open>From the handshake to the bytes\<close>

text \<open>The circuit as the builder leaves it, with the relays the run left behind.\<close>

definition built_path :: "nat \<Rightarrow> circuit \<Rightarrow> half_path \<times> relay_env \<times> exit_state \<Rightarrow> path_state" where
  "built_path now c r = hp_path \<lparr>ce_circuit = c, ce_channels = [], ce_metrics = client_metrics_new now\<rparr> (fst r) (snd r)"

lemma client_closed_ends: "stream_turn P now ClientClosed (t, ce) = (False, (t, ce))"
  by (simp add: stream_turn_def)

text \<open>
  C1. The whole session, from the handshake to the bytes. A client connected to an entry, over
  relays that hold the keys of their descriptors and reach each other, gets a ready circuit
  of any length; a SOCKS5 stream to a destination the exit can reach then opens over it; and
  whatever the client and the destination send after that, in any order, arrives at the
  other side complete, in order and once; when the SOCKS5 client then closes, both ends
  forget the stream and the circuit is as good as new. Nothing at any hop or in any
  handshake is assumed to succeed.
\<close>

theorem session_end_to_end:
  assumes "prims_wf P" "dh_agrees P" "\<forall>i. length (sec i) = 32"
    and "hop_of P eh" "rn_type (nw_relay eh) = Entry"
    and "2 \<le> length nhs" "\<forall>nh \<in> set nhs. hop_of P nh \<and> extendable (nw_node nh)" "path_types nhs"
    and "transport_connect P net (address (nw_node eh)) (tls_cert_fingerprint (nw_node eh)) = Inr s"
    and "hops_linked P cid sec 1 (nw_env eh) nhs" "connection_run rnd P cid sec eh nhs s"
    \<comment> \<open>the exit: the connection the previous hop opened to it, and the destination\<close>
    and "p < length (xw_writers (nw_world (last nhs)))" "wr_room (xw_writers (nw_world (last nhs)) ! p) = None"
    and "re_dest (nw_env (last nhs)) dest" "utf8_ok (str_bytes dest)" "CHR 0x00 \<notin> set dest" "length dest < MAX_PAYLOAD_SIZE"
    and "\<forall>op \<in> set ops. op_on {1} op \<and> op_ok op"
  shows "\<exists>c rd r t ps1 ps2 ps3. build_circuit_on P net sec cid (map nw_node (eh # nhs)) = Inr (c, rd) \<and>
    relays_run rnd P cid sec eh nhs s = Some r \<and>
    path_open rnd P now p (stream_new dest, built_path now c r) = Some (t, ps1) \<and> sm_phase t = SRelaying \<and>
    path_run rnd P now ops ps1 = Some ps2 \<and> path_sync P ps2 \<and>
    pipe_of ps2 1 = fold pipe_step ops (\<lambda>sid. \<lparr>sp_up = [], sp_down = []\<rparr>) 1 \<and>
    path_close rnd P now p ClientClosed (t, ps2) = Some (t\<lparr>sm_shutdown := True, sm_phase := SDone (Inr ())\<rparr>, ps3) \<and>
    path_sync P ps3 \<and> hm_get (ci_stream_senders (ce_circuit (ps_client ps3))) 1 = None \<and>
    hm_get (xh_streams (fst (snd (ps_exit ps3)))) 1 = None"
proof -
  obtain c rd hp x where b: "build_circuit_on P net sec cid (map nw_node (eh # nhs)) = Inr (c, rd)"
    "relays_run rnd P cid sec eh nhs s = Some (hp, x)" "ci_stream_senders c = []" "ci_next_stream_id c = 1"
    "fst x = nw_env (last nhs)" "xh_streams (fst (snd x)) = []" "xw_writers (snd (snd x)) = xw_writers (nw_world (last nhs))"
    "\<forall>ce. ce_circuit ce = c \<longrightarrow> path_sync P (hp_path ce hp x)"
    using circuit_build [OF assms(1-11)] by blast
  let ?ps = "built_path now c (hp, x)"
  have sync: "path_sync P ?ps" using b(8) by (simp add: built_path_def)
  have x: "ps_exit ?ps = (nw_env (last nhs), fst (snd x), snd (snd x))" using b(5) by (cases x) (simp add: built_path_def hp_path_def)
  have al: "ci_allocate_stream_id (ce_circuit (ps_client ?ps)) = (1, c\<lparr>ci_next_stream_id := 2\<rparr>)"
    using b(4) by (simp add: built_path_def hp_path_def ci_allocate_stream_id_def Let_def)
  have none: "streams_open ?ps {}" "hm_get (ci_stream_senders (ce_circuit (ps_client ?ps))) 1 = None"
    using b(3) by (simp_all add: streams_open_def built_path_def hp_path_def)
  obtain t ps1 where o: "path_open rnd P now p (stream_new dest, ?ps) = Some (t, ps1)" "path_sync P ps1" "streams_open ps1 {1}"
    "sm_phase t = SRelaying" "pipe_of ps1 1 = \<lparr>sp_up = [], sp_down = []\<rparr>" "sm_stream_id t = 1"
    "hm_get (ci_stream_senders (ce_circuit (ps_client ps1))) 1 = Some (sm_chan t)"
    using path_open_ok [OF sync none(1) _ _ _ x _ _ _ al _ none(2), of "stream_new dest" p rnd now] assms(12-17) b(6,7)
    by (auto simp: stream_new_def)
  obtain ps2 where r: "path_run rnd P now ops ps1 = Some ps2" "path_sync P ps2" "streams_open ps2 {1}"
    "pipe_of ps2 1 = fold pipe_step ops (pipe_of ps1) 1"
    using path_run_pipes [OF o(2,3), of ops rnd now] assms(18) by auto
  have get: "hm_get (ci_stream_senders (ce_circuit (ps_client ps2))) (sm_stream_id t) = Some (sm_chan t)"
    using path_run_senders [OF r(1)] o(6,7) by simp
  obtain ps3 xe xh w where cl: "path_close rnd P now p ClientClosed (t, ps2) = Some (t\<lparr>sm_shutdown := True, sm_phase := SDone (Inr ())\<rparr>, ps3)"
    "path_sync P ps3" "hm_get (ci_stream_senders (ce_circuit (ps_client ps3))) 1 = None"
    "ps_exit ps3 = (xe, xh, w)" "hm_get (xh_streams xh) 1 = None"
    using path_close_ok [OF r(2,3) _ get client_closed_ends, of rnd now p] o(6) by auto
  have "fold pipe_step ops (pipe_of ps1) 1 = fold pipe_step ops (\<lambda>sid. \<lparr>sp_up = [], sp_down = []\<rparr>) 1"
    by (rule pipe_steps_local) (simp add: o(5))
  with b(1,2) o(1,4) r cl show ?thesis
    by (intro exI [of _ c] exI [of _ rd] exI [of _ "(hp, x)"] exI [of _ t] exI [of _ ps1] exI [of _ ps2] exI [of _ ps3]) simp
qed

theorem session_end_to_end_witness:
  "\<exists>net c rd r t ps1 ps2 ps3. build_circuit_on toy_prims net (\<lambda>i. replicate 32 5) 1 (map nw_node sample_hops) = Inr (c, rd) \<and>
     path_open (\<lambda>i. 0) toy_prims 0 0 (stream_new ''web:80'', built_path 0 c r) = Some (t, ps1) \<and>
     path_run (\<lambda>i. 0) toy_prims 0 [Up 1 [1, 2], Down 1 Data [5], Up 1 [3]] ps1 = Some ps2 \<and>
     pipe_of ps2 1 = \<lparr>sp_up = [[1, 2], [3]], sp_down = [(Data, [5])]\<rparr> \<and>
     path_close (\<lambda>i. 0) toy_prims 0 0 ClientClosed (t, ps2) =
       Some (t\<lparr>sm_shutdown := True, sm_phase := SDone (Inr ())\<rparr>, ps3)"
proof -
  let ?sec = "\<lambda>i :: nat. replicate 32 5 :: bytes" and ?ops = "[Up 1 [1, 2], Down 1 Data [5], Up 1 [3]]"
  have hops: "sample_hops = hd sample_hops # tl sample_hops" by (simp add: sample_hops_def Let_def)
  have sec: "\<forall>i. length (?sec i) = 32" by simp
  obtain net s where net: "transport_connect toy_prims net (address (nw_node (hd sample_hops)))
      (tls_cert_fingerprint (nw_node (hd sample_hops))) = Inr s"
    "connection_run (\<lambda>i. 0) toy_prims 1 ?sec (hd sample_hops) (tl sample_hops) s" by (rule sample_connection)
  have x: "0 < length (xw_writers (nw_world (last (tl sample_hops))))" "wr_room (xw_writers (nw_world (last (tl sample_hops))) ! 0) = None"
    "re_dest (nw_env (last (tl sample_hops))) ''web:80''"
    by (simp_all add: sample_hops_def Let_def sample_new_hop_def sample_world_def sample_writer_def sample_env_def)
  have u: "utf8_ok (str_bytes ''web:80'')" by code_simp
  have ops: "\<forall>op \<in> set ?ops. op_on {1} op \<and> op_ok op" by (simp add: MAX_PAYLOAD_SIZE_eq)
  have f: "fold pipe_step ?ops (\<lambda>sid. \<lparr>sp_up = [], sp_down = []\<rparr>) 1 = \<lparr>sp_up = [[1, 2], [3]], sp_down = [(Data, [5])]\<rparr>"
    by simp
  from session_end_to_end [OF toy_prims_ok sec sample_hops_ok(3,4) _ sample_hops_ok(1,2) net(1) sample_hops_linked net(2) x u _ _ ops, of 0]
  show ?thesis unfolding f hops [symmetric] using sample_hops_ok(5) by (auto simp: MAX_PAYLOAD_SIZE_eq) blast
qed

end
